(* ===== verification/Prelude.thy ===== *)
theory Prelude
  imports Main "HOL-Library.Word" "HOL-Library.AList" "HOL-Library.Sublist"
    "HOL-Library.Multiset"
begin

unbundle bit_operations_syntax

text \<open>
  The vocabulary shared by every component of the bridge: the Go types the code uses, Go's way
  of failing (an \<^verbatim>\<open>error\<close> value or a run-time panic), the functions of Go's
  \<^verbatim>\<open>strings\<close> package that the sources call, maps with an unspecified iteration order, and
  the generic notion of a state reachable through a step relation together with the interface
  (a locale) under which invariants are proved.

  \<^item> Go's \<^verbatim>\<open>string\<close> and \<^verbatim>\<open>[]byte\<close> are byte sequences. A \<open>string\<close> is a list of
    8-bit characters and a \<^verbatim>\<open>[]byte\<close> a list of 8-bit words; the conversions
    \<^verbatim>\<open>[]byte(s)\<close> and \<^verbatim>\<open>string(b)\<close> are \<open>str_bytes\<close> and \<open>bytes_str\<close>.
  \<^item> \<^verbatim>\<open>strings.ToLower\<close> and \<^verbatim>\<open>strings.ToUpper\<close> are modelled on the ASCII letters.
  \<^item> A Go map is an association list with distinct keys. Ranging over it visits the entries
    in an unspecified order: every definition that ranges over a map takes the order as an
    argument.
\<close>

section \<open>Fact collections\<close>

named_theorems go_simps \<open>rewriting of the Go vocabulary\<close>
named_theorems wf_intros \<open>well-formedness of results\<close>

section \<open>Machine types\<close>

type_synonym byte = "8 word"
type_synonym bytes = "byte list"
type_synonym int32 = "32 word"
type_synonym uint32 = "32 word"
type_synonym int64 = "64 word"
type_synonym uint64 = "64 word"

definition str_bytes :: "string \<Rightarrow> bytes" where
  "str_bytes s = map (\<lambda>c. of_nat (of_char c)) s"

definition bytes_str :: "bytes \<Rightarrow> string" where
  "bytes_str b = map (\<lambda>w. char_of (unat w)) b"

section \<open>Errors and panics\<close>

text \<open>
  An \<^verbatim>\<open>error\<close> keeps the format string and the arguments of the \<^verbatim>\<open>fmt.Errorf\<close> call that
  made it (\<open>Errorf\<close>), the error it wraps where the format has a \<^verbatim>\<open>%w\<close> or prints an error
  (\<open>Wrapf\<close>), or is a value returned by the standard library or by a package outside the
  repository.
\<close>

datatype goarg = AStr string | AInt int

datatype goerr =
    Errorf string "goarg list"
  | Wrapf string "goarg list" goerr
  | EOFErr
  | UnexpectedEOF
  | VarintOverflow
  | CtxCanceled
  | ExtErr string

datatype gopanic =
    IndexOutOfRange | SliceBounds | NilDeref | TypeAssertion | MakeSliceLen | SendOnClosed | CloseOfClosed | FatalExit | DivideByZero | FlagRedefined

datatype 'a res = Ret 'a | Fail goerr | Panic gopanic

fun bind_res :: "'a res \<Rightarrow> ('a \<Rightarrow> 'b res) \<Rightarrow> 'b res" where
  "bind_res (Ret x) f = f x"
| "bind_res (Fail e) f = Fail e"
| "bind_res (Panic p) f = Panic p"

fun is_panic :: "'a res \<Rightarrow> bool" where
  "is_panic (Panic p) = True"
| "is_panic _ = False"

fun is_ret :: "'a res \<Rightarrow> bool" where
  "is_ret (Ret x) = True"
| "is_ret _ = False"

section \<open>Go's strings package\<close>

definition to_lower_char :: "char \<Rightarrow> char" where
  "to_lower_char c =
     (let n = (of_char c :: nat) in if 65 \<le> n \<and> n \<le> 90 then char_of (n + 32) else c)"

definition to_upper_char :: "char \<Rightarrow> char" where
  "to_upper_char c =
     (let n = (of_char c :: nat) in if 97 \<le> n \<and> n \<le> 122 then char_of (n - 32) else c)"

definition ToLower :: "string \<Rightarrow> string" where
  "ToLower s = map to_lower_char s"

definition ToUpper :: "string \<Rightarrow> string" where
  "ToUpper s = map to_upper_char s"

text \<open>\<^verbatim>\<open>strings.Split(s, sep)\<close> and \<^verbatim>\<open>strings.Join(parts, sep)\<close> for a one-character separator.\<close>

fun Split :: "char \<Rightarrow> string \<Rightarrow> string list" where
  "Split d [] = [[]]"
| "Split d (c # s) =
     (if c = d then [] # Split d s
      else case Split d s of [] \<Rightarrow> [[c]] | p # ps \<Rightarrow> (c # p) # ps)"

fun Join :: "string list \<Rightarrow> char \<Rightarrow> string" where
  "Join [] d = []"
| "Join [p] d = p"
| "Join (p # q # ps) d = p @ d # Join (q # ps) d"

fun Contains :: "string \<Rightarrow> string \<Rightarrow> bool" where
  "Contains [] sub = (sub = [])"
| "Contains (c # s) sub = (take (length sub) (c # s) = sub \<or> Contains s sub)"

section \<open>Maps\<close>

text \<open>Reading a missing key of a Go map gives the zero value of the value type.\<close>

type_synonym ('k, 'v) gomap = "('k \<times> 'v) list"

definition map_wf :: "('k, 'v) gomap \<Rightarrow> bool" where
  "map_wf m \<longleftrightarrow> distinct (map fst m)"

definition map_get :: "'v \<Rightarrow> ('k, 'v) gomap \<Rightarrow> 'k \<Rightarrow> 'v" where
  "map_get zero m k = (case map_of m k of None \<Rightarrow> zero | Some v \<Rightarrow> v)"

abbreviation map_put :: "'k \<Rightarrow> 'v \<Rightarrow> ('k, 'v) gomap \<Rightarrow> ('k, 'v) gomap" where
  "map_put \<equiv> AList.update"

abbreviation map_del :: "'k \<Rightarrow> ('k, 'v) gomap \<Rightarrow> ('k, 'v) gomap" where
  "map_del \<equiv> AList.delete"

section \<open>Step relations\<close>

inductive reachable :: "('s \<Rightarrow> bool) \<Rightarrow> ('s \<Rightarrow> 's \<Rightarrow> bool) \<Rightarrow> 's \<Rightarrow> bool"
  for init :: "'s \<Rightarrow> bool" and step :: "'s \<Rightarrow> 's \<Rightarrow> bool" where
  reach_init: "init s \<Longrightarrow> reachable init step s"
| reach_step: "reachable init step s \<Longrightarrow> step s t \<Longrightarrow> reachable init step t"

lemma reachable_steps: "reachable init step s \<Longrightarrow> step\<^sup>*\<^sup>* s t \<Longrightarrow> reachable init step t"
  by (rotate_tac, induction rule: rtranclp_induct) (auto intro: reach_step)

section \<open>Lemmas on the vocabulary\<close>

lemma bytes_str_str_bytes [simp]: "bytes_str (str_bytes s) = s"
proof -
  have "char_of (unat (of_nat (of_char c) :: byte)) = c" for c
  proof -
    have "of_char c mod (256 :: nat) = of_char c" by (metis char_of_char of_char_of)
    then show ?thesis by (simp add: unat_of_nat)
  qed
  then show ?thesis by (induction s) (simp_all add: str_bytes_def bytes_str_def)
qed

lemma str_bytes_bytes_str [simp]: "str_bytes (bytes_str b) = b"
proof -
  have "of_nat (of_char (char_of (unat w))) = w" for w :: byte
  proof -
    have "unat w < 256" using unsigned_less [of w, where ?'a = nat] by simp
    then show ?thesis by simp
  qed
  then show ?thesis by (induction b) (simp_all add: str_bytes_def bytes_str_def)
qed

lemma str_bytes_inject [simp]: "str_bytes s = str_bytes t \<longleftrightarrow> s = t"
  by (metis bytes_str_str_bytes)

lemma bytes_str_inject [simp]: "bytes_str a = bytes_str b \<longleftrightarrow> a = b"
  by (metis str_bytes_bytes_str)

lemma length_str_bytes [simp]: "length (str_bytes s) = length s"
  by (simp add: str_bytes_def)

lemma length_bytes_str [simp]: "length (bytes_str b) = length b"
  by (simp add: bytes_str_def)

lemma bind_res_Ret_iff [go_simps]: "bind_res r f = Ret y \<longleftrightarrow> (\<exists>x. r = Ret x \<and> f x = Ret y)"
  by (cases r) auto

lemma bind_res_Panic_iff [go_simps]:
  "bind_res r f = Panic p \<longleftrightarrow> r = Panic p \<or> (\<exists>x. r = Ret x \<and> f x = Panic p)"
  by (cases r) auto

lemma is_panic_iff [go_simps]: "is_panic r \<longleftrightarrow> (\<exists>p. r = Panic p)"
  by (cases r) auto

lemma is_panic_bind: "is_panic (bind_res r f) \<longleftrightarrow> is_panic r \<or> (\<exists>x. r = Ret x \<and> is_panic (f x))"
  by (cases r) auto

lemma Split_nonempty [simp]: "Split d s \<noteq> []"
  by (induction s) (auto split: list.splits)

lemma Join_Cons: "ps \<noteq> [] \<Longrightarrow> Join (p # ps) d = p @ d # Join ps d"
  by (cases ps) auto

lemma Join_Split [simp]: "Join (Split d s) d = s"
proof (induction s)
  case (Cons c s)
  then show ?case by (cases "Split d s"; cases "tl (Split d s)") (auto simp: Join_Cons)
qed simp

lemma Split_no_sep: "p \<in> set (Split d s) \<Longrightarrow> d \<notin> set p"
  by (induction s arbitrary: p) (force split: list.splits if_splits)+

lemma Split_simple: "d \<notin> set s \<Longrightarrow> Split d s = [s]"
  by (induction s) auto

lemma Split_append_sep: "d \<notin> set p \<Longrightarrow> Split d (p @ d # s) = p # Split d s"
  by (induction p) auto

lemma Split_Join:
  "ps \<noteq> [] \<Longrightarrow> (\<And>p. p \<in> set ps \<Longrightarrow> d \<notin> set p) \<Longrightarrow> Split d (Join ps d) = ps"
proof (induction ps)
  case (Cons p ps)
  then show ?case by (cases ps) (simp_all add: Split_simple Split_append_sep)
qed simp

lemma map_wf_put [simp, wf_intros]: "map_wf m \<Longrightarrow> map_wf (map_put k v m)"
  by (simp add: map_wf_def distinct_update)

lemma map_wf_del [simp, wf_intros]: "map_wf m \<Longrightarrow> map_wf (map_del k m)"
  by (simp add: map_wf_def distinct_delete)

lemma map_wf_Nil [simp, wf_intros]: "map_wf []"
  by (simp add: map_wf_def)

lemma map_get_put [simp]: "map_get z (map_put k v m) k' = (if k' = k then v else map_get z m k')"
  by (simp add: map_get_def update_conv')

section \<open>Invariants of a step relation\<close>

text \<open>
  The interface every state machine of the development implements: what holds initially and is
  kept by each step holds in every reachable state and after any number of further steps.
\<close>

locale invariant_system =
  fixes init :: "'s \<Rightarrow> bool"
    and step :: "'s \<Rightarrow> 's \<Rightarrow> bool"
    and inv :: "'s \<Rightarrow> bool"
  assumes inv_init: "init s \<Longrightarrow> inv s"
    and inv_step: "inv s \<Longrightarrow> step s t \<Longrightarrow> inv t"
begin

lemma reachable_inv: "reachable init step s \<Longrightarrow> inv s"
  by (induction rule: reachable.induct) (auto intro: inv_init inv_step)

lemma inv_steps: "step\<^sup>*\<^sup>* s t \<Longrightarrow> inv s \<Longrightarrow> inv t"
  by (induction rule: rtranclp_induct) (auto intro: inv_step)

end

text \<open>
  The interface of a refinement: a concrete step relation with an invariant, and an abstraction function
  under which each concrete step is a sequence, perhaps empty, of abstract steps.
\<close>

locale refines = invariant_system init step inv
  for init :: "'s \<Rightarrow> bool" and step :: "'s \<Rightarrow> 's \<Rightarrow> bool" and inv :: "'s \<Rightarrow> bool" +
  fixes abs :: "'s \<Rightarrow> 'a"
    and ainit :: "'a \<Rightarrow> bool"
    and astep :: "'a \<Rightarrow> 'a \<Rightarrow> bool"
  assumes abs_init: "init s \<Longrightarrow> ainit (abs s)"
    and abs_step: "inv s \<Longrightarrow> step s t \<Longrightarrow> astep\<^sup>*\<^sup>* (abs s) (abs t)"
begin

lemma abs_steps: "step\<^sup>*\<^sup>* s t \<Longrightarrow> inv s \<Longrightarrow> astep\<^sup>*\<^sup>* (abs s) (abs t)"
proof (induction rule: rtranclp_induct)
  case (step t u)
  then show ?case using abs_step [OF inv_steps [OF step.hyps(1)]] by (meson rtranclp_trans)
qed simp

lemma abs_reachable: "reachable init step s \<Longrightarrow> \<exists>a. ainit a \<and> astep\<^sup>*\<^sup>* a (abs s)"
proof (induction rule: reachable.induct)
  case (reach_init s)
  then show ?case using abs_init by blast
next
  case (reach_step s t)
  then show ?case using abs_step [OF reachable_inv] by (meson rtranclp_trans)
qed

end

text \<open>Changing the elements of a list one at a time.\<close>

lemma pointwise_steps:
  assumes "\<And>xs i y. i < length xs \<Longrightarrow> R (xs ! i) y \<Longrightarrow> step (mk xs) (mk (xs[i := y]))"
    and "list_all2 (\<lambda>x y. y = x \<or> R x y) xs ys"
  shows "step\<^sup>*\<^sup>* (mk xs) (mk ys)"
proof -
  have "step\<^sup>*\<^sup>* (mk (zs @ xs)) (mk (zs @ ys))" for zs
    using assms(2)
  proof (induction xs ys arbitrary: zs rule: list_all2_induct)
    case (Cons x xs y ys)
    have "step\<^sup>*\<^sup>* (mk (zs @ x # xs)) (mk (zs @ y # xs))"
      using Cons.hyps(1) assms(1) [of "length zs" "zs @ x # xs"] by (auto simp: nth_append)
    then show ?case using Cons.IH [of "zs @ [y]"] by simp
  qed simp
  from this [of "[]"] show ?thesis by simp
qed

section \<open>Ranging over a map\<close>

text \<open>
  The contract of an iteration order: ranging over a map visits every entry exactly once. The
  order itself is unspecified; insertion order is one.
\<close>

definition keys :: "('k, 'v) gomap \<Rightarrow> 'k set" where
  "keys m = fst ` set m"

locale map_order =
  fixes order :: "('k, 'v) gomap \<Rightarrow> ('k \<times> 'v) list"
  assumes order_perm: "mset (order m) = mset m"
begin

lemma set_order: "set (order m) = set m"
  using order_perm by (metis set_mset_mset)

lemma length_order: "length (order m) = length m"
  using order_perm by (metis size_mset)

lemma distinct_order: "map_wf m \<Longrightarrow> distinct (map fst (order m))"
  unfolding map_wf_def by (metis mset_map order_perm mset_eq_imp_distinct_iff)

lemma map_of_order: "map_wf m \<Longrightarrow> map_of (order m) = map_of m"
  by (metis distinct_order map_of_inject_set map_wf_def set_order)

end

interpretation insertion_order: map_order "\<lambda>m. m"
  by unfold_locales simp

lemma length_keys: "map_wf m \<Longrightarrow> card (keys m) = length m"
  unfolding map_wf_def keys_def by (metis distinct_card length_map set_map)

lemma keys_put [simp]: "keys (map_put k v m) = insert k (keys m)"
  by (simp add: keys_def dom_update)

lemma keys_del [simp]: "keys (map_del k m) = keys m - {k}"
  by (auto simp: keys_def AList.delete_eq)

lemma keys_Nil [simp]: "keys [] = {}"
  by (simp add: keys_def)

lemma map_of_keys: "map_of m k \<noteq> None \<longleftrightarrow> k \<in> keys m"
  by (simp add: keys_def map_of_eq_None_iff)

lemma map_of_in: "map_wf m \<Longrightarrow> map_of m k = Some v \<longleftrightarrow> (k, v) \<in> set m"
  by (simp add: map_wf_def)

end
