(* ===== verification/Config.thy ===== *)
theory Config
  imports Prelude
begin

text \<open>
  The bridge's configuration: \<^verbatim>\<open>server/conf/conf.go\<close> and the logging flags of
  \<^verbatim>\<open>server/logging/logging.go\<close>. The configuration structs are records, their fields in
  the source's order; Go's \<^verbatim>\<open>int\<close> fields (milliseconds, counts, ports) are integers, no
  arithmetic is done on them here. \<open>ValidateNATSClusters\<close> returns the configuration it has
  changed in place together with the error, because the entries before a faulty one keep the
  defaults they were given.
\<close>

section \<open>Constants\<close>

definition Hash :: string where "Hash = ''hash''"
definition LeastBytes :: string where "LeastBytes = ''leastbytes''"

definition FixedKey :: string where "FixedKey = ''fixed''"
definition SubjectKey :: string where "SubjectKey = ''subject''"
definition ReplyToKey :: string where "ReplyToKey = ''reply''"
definition SubjectRegex :: string where "SubjectRegex = ''subjectre''"
definition ReplyRegex :: string where "ReplyRegex = ''replyre''"

definition KafkaToNATS :: string where "KafkaToNATS = ''KafkaToNATS''"
definition KafkaToStan :: string where "KafkaToStan = ''KafkaToStan''"
definition KafkaToJetStream :: string where "KafkaToJetStream = ''KafkaToJetStream''"
definition NATSToKafka :: string where "NATSToKafka = ''NATSToKafka''"
definition STANToKafka :: string where "STANToKafka = ''STANToKafka''"
definition JetStreamToKafka :: string where "JetStreamToKafka = ''JetStreamToKafka''"

lemmas key_type_defs = FixedKey_def SubjectKey_def ReplyToKey_def SubjectRegex_def ReplyRegex_def
lemmas connector_type_defs =
  KafkaToNATS_def KafkaToStan_def KafkaToJetStream_def NATSToKafka_def STANToKafka_def
  JetStreamToKafka_def

section \<open>The configuration structs\<close>

record LoggingConfig =
  log_Time :: bool
  log_Debug :: bool
  log_Trace :: bool
  log_Colors :: bool
  log_PID :: bool

record TLSConf =
  tls_Key :: string
  tls_Cert :: string
  tls_Root :: string

record SASL =
  sasl_User :: string
  sasl_Password :: string
  sasl_InsecureSkipVerify :: bool
  sasl_Mechanism :: string
  sasl_TLS :: bool

record IAM =
  iam_Enable :: bool
  iam_Region :: string

record HTTPConfig =
  http_HTTPHost :: string
  http_HTTPPort :: int
  http_HTTPSPort :: int
  http_TLS :: TLSConf
  http_ReadTimeout :: int
  http_WriteTimeout :: int

record NATSConfig =
  nats_Name :: string
  nats_Servers :: "string list"
  nats_ClientName :: string
  nats_ConnectTimeout :: int
  nats_ReconnectWait :: int
  nats_MaxReconnects :: int
  nats_TLS :: TLSConf
  nats_UserCredentials :: string
  nats_UserNKEY :: string

record NATSStreamingConfig =
  stan_ClusterID :: string
  stan_ClientID :: string
  stan_PubAckWait :: int
  stan_DiscoverPrefix :: string
  stan_MaxPubAcksInflight :: int
  stan_ConnectWait :: int

record JetStreamConfig =
  js_PublishAsyncMaxPending :: int
  js_MaxWait :: int
  js_EnableFlowControl :: bool
  js_EnableAckSync :: bool
  js_HeartbeatInterval :: int

record ConnectorConfig =
  cc_ID :: string
  cc_Type :: string
  cc_NATSConnection :: string
  cc_Channel :: string
  cc_DurableName :: string
  cc_StartAtSequence :: int
  cc_StartAtTime :: int
  cc_Subject :: string
  cc_QueueName :: string
  cc_Stream :: string
  cc_Brokers :: "string list"
  cc_Topic :: string
  cc_TLS :: TLSConf
  cc_SASL :: SASL
  cc_IAM :: IAM
  cc_MinBytes :: int
  cc_MaxBytes :: int
  cc_Partition :: int
  cc_GroupID :: string
  cc_Balancer :: string
  cc_KeyType :: string
  cc_KeyValue :: string
  cc_SchemaRegistryURL :: string
  cc_SubjectName :: string
  cc_SchemaVersion :: int
  cc_SchemaType :: string

record NATSKafkaBridgeConfig =
  b_ReconnectInterval :: int
  b_ConnectTimeout :: int
  b_Logging :: LoggingConfig
  b_NATS :: NATSConfig
  b_NATSClusters :: "NATSConfig list"
  b_STAN :: NATSStreamingConfig
  b_JetStream :: JetStreamConfig
  b_Monitoring :: HTTPConfig
  b_Connect :: "ConnectorConfig list"

text \<open>The zero values Go gives the fields a composite literal leaves out.\<close>

definition zero_TLSConf :: TLSConf where
  "zero_TLSConf = \<lparr>tls_Key = [], tls_Cert = [], tls_Root = []\<rparr>"

definition zero_SASL :: SASL where
  "zero_SASL = \<lparr>sasl_User = [], sasl_Password = [], sasl_InsecureSkipVerify = False,
     sasl_Mechanism = [], sasl_TLS = False\<rparr>"

definition zero_IAM :: IAM where
  "zero_IAM = \<lparr>iam_Enable = False, iam_Region = []\<rparr>"

definition zero_NATSConfig :: NATSConfig where
  "zero_NATSConfig = \<lparr>nats_Name = [], nats_Servers = [], nats_ClientName = [],
     nats_ConnectTimeout = 0, nats_ReconnectWait = 0, nats_MaxReconnects = 0,
     nats_TLS = zero_TLSConf, nats_UserCredentials = [], nats_UserNKEY = []\<rparr>"

definition zero_STAN :: NATSStreamingConfig where
  "zero_STAN = \<lparr>stan_ClusterID = [], stan_ClientID = [], stan_PubAckWait = 0,
     stan_DiscoverPrefix = [], stan_MaxPubAcksInflight = 0, stan_ConnectWait = 0\<rparr>"

definition zero_JetStream :: JetStreamConfig where
  "zero_JetStream = \<lparr>js_PublishAsyncMaxPending = 0, js_MaxWait = 0, js_EnableFlowControl = False,
     js_EnableAckSync = False, js_HeartbeatInterval = 0\<rparr>"

definition zero_HTTPConfig :: HTTPConfig where
  "zero_HTTPConfig = \<lparr>http_HTTPHost = [], http_HTTPPort = 0, http_HTTPSPort = 0,
     http_TLS = zero_TLSConf, http_ReadTimeout = 0, http_WriteTimeout = 0\<rparr>"

definition zero_ConnectorConfig :: ConnectorConfig where
  "zero_ConnectorConfig = \<lparr>cc_ID = [], cc_Type = [], cc_NATSConnection = [], cc_Channel = [],
     cc_DurableName = [], cc_StartAtSequence = 0, cc_StartAtTime = 0, cc_Subject = [],
     cc_QueueName = [], cc_Stream = [], cc_Brokers = [], cc_Topic = [], cc_TLS = zero_TLSConf,
     cc_SASL = zero_SASL, cc_IAM = zero_IAM, cc_MinBytes = 0, cc_MaxBytes = 0, cc_Partition = 0,
     cc_GroupID = [], cc_Balancer = [], cc_KeyType = [], cc_KeyValue = [],
     cc_SchemaRegistryURL = [], cc_SubjectName = [], cc_SchemaVersion = 0, cc_SchemaType = []\<rparr>"

lemmas zero_config_defs =
  zero_TLSConf_def zero_SASL_def zero_IAM_def zero_NATSConfig_def zero_STAN_def
  zero_JetStream_def zero_HTTPConfig_def zero_ConnectorConfig_def

definition DefaultBridgeConfig :: NATSKafkaBridgeConfig where
  "DefaultBridgeConfig = \<lparr>
     b_ReconnectInterval = 5000,
     b_ConnectTimeout = 10000,
     b_Logging = \<lparr>log_Time = True, log_Debug = False, log_Trace = False, log_Colors = True,
       log_PID = False\<rparr>,
     b_NATS = zero_NATSConfig\<lparr>nats_ClientName := ''NATS Kafka Bridge'', nats_ConnectTimeout := 5000,
       nats_ReconnectWait := 1000, nats_MaxReconnects := 0\<rparr>,
     b_NATSClusters = [],
     b_STAN = zero_STAN,
     b_JetStream = zero_JetStream,
     b_Monitoring = zero_HTTPConfig\<lparr>http_ReadTimeout := 5000, http_WriteTimeout := 5000\<rparr>,
     b_Connect = []\<rparr>"

section \<open>TLS configuration\<close>

text \<open>
  \<^verbatim>\<open>MakeTLSConfig\<close> reads key material through the standard library. The three reads are
  arguments: the key pair (as its certificate chain), the parse of a certificate and a file.
  The result keeps what the caller can observe of the \<^verbatim>\<open>tls.Config\<close>.
\<close>

record tls_config =
  tc_Certificates :: "string list list"
  tc_MinVersion12 :: bool
  tc_RootCAs :: "string option"
  tc_InsecureSkipVerify :: bool

definition MakeTLSConfig ::
  "(string \<Rightarrow> string \<Rightarrow> goerr + string list) \<Rightarrow> (string \<Rightarrow> goerr option) \<Rightarrow> (string \<Rightarrow> goerr + string) \<Rightarrow>
   TLSConf \<Rightarrow> tls_config option res" where
  "MakeTLSConfig LoadX509KeyPair ParseCertificate ReadFile t =
     (if tls_Cert t = [] \<or> tls_Key t = [] then Ret None
      else case LoadX509KeyPair (tls_Cert t) (tls_Key t) of
        Inl e \<Rightarrow> Fail (Wrapf ''error loading X509 certificate/key pair: %v'' [] e)
      | Inr cert \<Rightarrow>
         (case cert of
            [] \<Rightarrow> Panic IndexOutOfRange
          | leaf # _ \<Rightarrow>
             (case ParseCertificate leaf of
                Some e \<Rightarrow> Fail (Wrapf ''error parsing certificate: %v'' [] e)
              | None \<Rightarrow>
                 let config = \<lparr>tc_Certificates = [cert], tc_MinVersion12 = True,
                       tc_RootCAs = None, tc_InsecureSkipVerify = False\<rparr> in
                 if tls_Root t \<noteq> [] then
                   (case ReadFile (tls_Root t) of
                      Inl e \<Rightarrow> Fail e
                    | Inr caCert \<Rightarrow> Ret (Some (config\<lparr>tc_RootCAs := Some caCert\<rparr>)))
                 else Ret (Some config))))"

section \<open>Validation of the cluster wiring\<close>

text \<open>The defaults a named cluster entry takes from the default block, field by field.\<close>

definition fill_cluster :: "NATSConfig \<Rightarrow> NATSConfig \<Rightarrow> NATSConfig" where
  "fill_cluster def c =
     (let c = (if nats_ClientName c = [] then c\<lparr>nats_ClientName := nats_ClientName def\<rparr> else c);
          c = (if nats_ConnectTimeout c = 0
               then c\<lparr>nats_ConnectTimeout := nats_ConnectTimeout def\<rparr> else c);
          c = (if nats_ReconnectWait c = 0
               then c\<lparr>nats_ReconnectWait := nats_ReconnectWait def\<rparr> else c)
      in if nats_MaxReconnects c = 0
         then c\<lparr>nats_MaxReconnects := nats_MaxReconnects def\<rparr> else c)"

text \<open>
  The loop over \<^verbatim>\<open>bridge.NATSClusters\<close> at index \<open>i\<close> with the names seen so far: the entries
  as the loop leaves them, and the error it stops with or the final set of names.
\<close>

fun validate_clusters ::
  "NATSConfig \<Rightarrow> nat \<Rightarrow> string list \<Rightarrow> NATSConfig list \<Rightarrow> NATSConfig list \<times> (goerr + string list)" where
  "validate_clusters def i names [] = ([], Inr names)"
| "validate_clusters def i names (cluster # rest) =
     (if nats_Name cluster = [] then
        (cluster # rest, Inl (Errorf ''natsclusters entry %d is missing a name'' [AInt (int i)]))
      else if nats_Name cluster = ''default'' then
        (cluster # rest,
         Inl (Errorf ''natsclusters name %q is reserved for the default nats block''
           [AStr (nats_Name cluster)]))
      else if nats_Name cluster \<in> set names then
        (cluster # rest, Inl (Errorf ''duplicate natsclusters name %q'' [AStr (nats_Name cluster)]))
      else if nats_Servers cluster = [] then
        (cluster # rest,
         Inl (Errorf ''natsclusters entry %q has no servers'' [AStr (nats_Name cluster)]))
      else
        (case validate_clusters def (Suc i) (nats_Name cluster # names) rest of
           (rest', r) \<Rightarrow> (fill_cluster def cluster # rest', r)))"

fun validate_connectors :: "string list \<Rightarrow> ConnectorConfig list \<Rightarrow> goerr option" where
  "validate_connectors names [] = None"
| "validate_connectors names (c # cs) =
     (if cc_NATSConnection c = [] then validate_connectors names cs
      else if cc_NATSConnection c \<notin> set names then
        Some (Errorf ''connector %q (type %q) references unknown natsconnection %q''
          [AStr (cc_ID c), AStr (cc_Type c), AStr (cc_NATSConnection c)])
      else if cc_Type c = STANToKafka \<or> cc_Type c = KafkaToStan then
        Some (Errorf ''connector %q (type %q) cannot set natsconnection, STAN connectors only support the default nats connection''
          [AStr (cc_ID c), AStr (cc_Type c)])
      else validate_connectors names cs)"

definition ValidateNATSClusters ::
  "NATSKafkaBridgeConfig \<Rightarrow> NATSKafkaBridgeConfig \<times> goerr option" where
  "ValidateNATSClusters bridge =
     (if nats_Name (b_NATS bridge) \<noteq> [] then
        (bridge, Some (Errorf ''the default nats block must not set a name, found %q''
           [AStr (nats_Name (b_NATS bridge))]))
      else case validate_clusters (b_NATS bridge) 0 [] (b_NATSClusters bridge) of
        (clusters, r) \<Rightarrow>
          (let bridge' = bridge\<lparr>b_NATSClusters := clusters\<rparr> in
           case r of
             Inl e \<Rightarrow> (bridge', Some e)
           | Inr names \<Rightarrow> (bridge', validate_connectors names (b_Connect bridge))))"

section \<open>What validation promises\<close>

text \<open>
  The wiring rules of the documentation, as a specification: the default block is unnamed, the
  clusters have distinct names other than \<^verbatim>\<open>default\<close> and at least one server each, and a
  connector that names a cluster names an existing one and is not a STAN connector.
\<close>

definition cluster_ok :: "NATSConfig \<Rightarrow> bool" where
  "cluster_ok c \<longleftrightarrow> nats_Name c \<noteq> [] \<and> nats_Name c \<noteq> ''default'' \<and> nats_Servers c \<noteq> []"

definition connector_wired :: "string set \<Rightarrow> ConnectorConfig \<Rightarrow> bool" where
  "connector_wired names c \<longleftrightarrow>
     cc_NATSConnection c = [] \<or>
     cc_NATSConnection c \<in> names \<and> cc_Type c \<noteq> STANToKafka \<and> cc_Type c \<noteq> KafkaToStan"

definition well_wired :: "NATSKafkaBridgeConfig \<Rightarrow> bool" where
  "well_wired b \<longleftrightarrow>
     nats_Name (b_NATS b) = [] \<and>
     distinct (map nats_Name (b_NATSClusters b)) \<and>
     list_all cluster_ok (b_NATSClusters b) \<and>
     list_all (connector_wired (nats_Name ` set (b_NATSClusters b))) (b_Connect b)"

section \<open>Lemmas\<close>

lemma fill_cluster_sel [simp]:
  "nats_Name (fill_cluster d c) = nats_Name c"
  "nats_Servers (fill_cluster d c) = nats_Servers c"
  "nats_ClientName (fill_cluster d c) =
     (if nats_ClientName c = [] then nats_ClientName d else nats_ClientName c)"
  "nats_ConnectTimeout (fill_cluster d c) =
     (if nats_ConnectTimeout c = 0 then nats_ConnectTimeout d else nats_ConnectTimeout c)"
  "nats_ReconnectWait (fill_cluster d c) =
     (if nats_ReconnectWait c = 0 then nats_ReconnectWait d else nats_ReconnectWait c)"
  "nats_MaxReconnects (fill_cluster d c) =
     (if nats_MaxReconnects c = 0 then nats_MaxReconnects d else nats_MaxReconnects c)"
  "nats_TLS (fill_cluster d c) = nats_TLS c"
  "nats_UserCredentials (fill_cluster d c) = nats_UserCredentials c"
  "nats_UserNKEY (fill_cluster d c) = nats_UserNKEY c"
  by (simp_all add: fill_cluster_def Let_def)

lemma fill_cluster_idem [simp]: "fill_cluster d (fill_cluster d c) = fill_cluster d c"
  by (rule NATSConfig.equality) simp_all

lemma cluster_ok_fill [simp]: "cluster_ok (fill_cluster d c) = cluster_ok c"
  by (simp add: cluster_ok_def)

lemma validate_clusters_ok:
  "(\<exists>ns. snd (validate_clusters d i names cs) = Inr ns) \<longleftrightarrow>
     list_all cluster_ok cs \<and> distinct (map nats_Name cs) \<and> set (map nats_Name cs) \<inter> set names = {}"
  by (induction cs arbitrary: i names)
    (auto simp: cluster_ok_def case_prod_beta)

lemma validate_clusters_result:
  "snd (validate_clusters d i names cs) = Inr ns \<Longrightarrow>
     fst (validate_clusters d i names cs) = map (fill_cluster d) cs \<and>
     set ns = nats_Name ` set cs \<union> set names"
  by (induction cs arbitrary: i names ns) (auto simp: case_prod_beta split: if_splits)

lemma validate_connectors_None:
  "validate_connectors names cs = None \<longleftrightarrow> list_all (connector_wired (set names)) cs"
  by (induction cs) (auto simp: connector_wired_def)

lemma ValidateNATSClusters_ok:
  "snd (ValidateNATSClusters b) = None \<longleftrightarrow> well_wired b"
proof (cases "validate_clusters (b_NATS b) 0 [] (b_NATSClusters b)")
  case (Pair cs r)
  show ?thesis
  proof (cases r)
    case (Inl e)
    then show ?thesis using Pair validate_clusters_ok [of "b_NATS b" 0 "[]" "b_NATSClusters b"]
      by (auto simp: ValidateNATSClusters_def well_wired_def)
  next
    case (Inr ns)
    then show ?thesis using Pair validate_clusters_ok [of "b_NATS b" 0 "[]" "b_NATSClusters b"]
        validate_clusters_result [of "b_NATS b" 0 "[]" "b_NATSClusters b" ns]
      by (auto simp: ValidateNATSClusters_def well_wired_def Let_def validate_connectors_None)
  qed
qed

lemma ValidateNATSClusters_result:
  assumes "well_wired b"
  shows "fst (ValidateNATSClusters b) =
    b\<lparr>b_NATSClusters := map (fill_cluster (b_NATS b)) (b_NATSClusters b)\<rparr>"
proof -
  obtain ns where "snd (validate_clusters (b_NATS b) 0 [] (b_NATSClusters b)) = Inr ns"
    using assms validate_clusters_ok [of "b_NATS b" 0 "[]" "b_NATSClusters b"]
    by (auto simp: well_wired_def)
  then show ?thesis using assms validate_clusters_result [of "b_NATS b" 0 "[]" "b_NATSClusters b" ns]
    by (auto simp: ValidateNATSClusters_def well_wired_def Let_def split: prod.splits)
qed

lemma validated_wired:
  assumes "ValidateNATSClusters b = (b', None)"
  shows "well_wired b'" and "b' = b\<lparr>b_NATSClusters := map (fill_cluster (b_NATS b)) (b_NATSClusters b)\<rparr>"
proof -
  have w: "well_wired b" using assms ValidateNATSClusters_ok [of b] by simp
  show b': "b' = b\<lparr>b_NATSClusters := map (fill_cluster (b_NATS b)) (b_NATSClusters b)\<rparr>"
    using ValidateNATSClusters_result [OF w] assms by simp
  show "well_wired b'" using w by (simp add: b' well_wired_def list.pred_map comp_def image_image)
qed

section \<open>Properties\<close>

text \<open>C13. Validation accepts exactly the configurations that follow the wiring rules of the documentation, and
  gives every cluster of an accepted configuration the default block's values for the fields it
  leaves unset, changing nothing else.\<close>

theorem validation_is_wiring:
  "(snd (ValidateNATSClusters b) = None \<longleftrightarrow> well_wired b) \<and>
   (well_wired b \<longrightarrow> fst (ValidateNATSClusters b) =
      b\<lparr>b_NATSClusters := map (fill_cluster (b_NATS b)) (b_NATSClusters b)\<rparr>)"
  using ValidateNATSClusters_ok ValidateNATSClusters_result by blast

definition two_cells :: NATSKafkaBridgeConfig where
  "two_cells = DefaultBridgeConfig\<lparr>
     b_NATSClusters := [zero_NATSConfig\<lparr>nats_Name := ''cell-b'', nats_Servers := [''nats://cell-b:4222'']\<rparr>],
     b_Connect := [zero_ConnectorConfig\<lparr>cc_ID := ''zip'', cc_Type := NATSToKafka, cc_NATSConnection := ''cell-b''\<rparr>]\<rparr>"

lemma two_cells_wired: "well_wired two_cells"
  by (simp add: well_wired_def two_cells_def DefaultBridgeConfig_def zero_config_defs cluster_ok_def
      connector_wired_def connector_type_defs)

theorem validation_is_wiring_witness:
  "snd (ValidateNATSClusters two_cells) = None \<and> fst (ValidateNATSClusters two_cells) =
    two_cells\<lparr>b_NATSClusters := map (fill_cluster (b_NATS two_cells)) (b_NATSClusters two_cells)\<rparr>"
  using validation_is_wiring [of two_cells] two_cells_wired by blast

text \<open>Validation is idempotent: a validated configuration is accepted again (on a reload) and left as it
  is, the defaults are not applied twice.\<close>

theorem validation_idempotent:
  assumes "ValidateNATSClusters b = (b', None)"
  shows "ValidateNATSClusters b' = (b', None)"
proof -
  note w' = validated_wired(1) [OF assms] and b' = validated_wired(2) [OF assms]
  have "fst (ValidateNATSClusters b') = b'" using ValidateNATSClusters_result [OF w'] by (simp add: b' comp_def)
  moreover have "snd (ValidateNATSClusters b') = None" using w' by (simp add: ValidateNATSClusters_ok)
  ultimately show ?thesis by (metis prod.collapse)
qed

theorem validation_idempotent_witness:
  "ValidateNATSClusters (fst (ValidateNATSClusters two_cells)) = (fst (ValidateNATSClusters two_cells), None)"
proof (rule validation_idempotent)
  show "ValidateNATSClusters two_cells = (fst (ValidateNATSClusters two_cells), None)"
    using ValidateNATSClusters_ok two_cells_wired by (metis prod.collapse)
qed

end
