(* ===== verification/World.thy ===== *)
theory World
  imports Config
begin

text \<open>
  The world around the bridge. Everything the bridge asks of the Kafka, NATS, streaming and
  JetStream client libraries (all outside the repository) is a \<open>request\<close>; what the library
  answers is an \<open>answer\<close>. The history of a run is the list of requests with their answers, and
  the environment is an arbitrary function from the history so far and the request to the answer:
  a broker may fail, recover, or close a connection at any moment. The operations of the bridge
  take the history and return it extended, so that a property can speak about the order of the
  effects: that an acknowledgement follows a successful write, that a dial precedes a start.

  The messages and the configuration values the libraries are handed are records with the fields
  the sources set or read. A connection, consumer, producer or subscription object of a library is
  a handle, a natural number.
\<close>

section \<open>Messages\<close>

text \<open>A Kafka record header; a nil value is told apart from an empty one.\<close>

record RecordHeader =
  rh_Key :: bytes
  rh_Value :: "bytes option"

record ProducerMessage =
  pm_Topic :: string
  pm_Value :: bytes
  pm_Key :: bytes
  pm_Headers :: "RecordHeader list"

record ConsumerMessage =
  cm_Topic :: string
  cm_Partition :: int32
  cm_Offset :: int64
  cm_Key :: bytes
  cm_Value :: bytes
  cm_Headers :: "RecordHeader list"

text \<open>The bridge's own message type, \<^verbatim>\<open>kafka.Message\<close>.\<close>

record Message =
  m_Topic :: string
  m_Partition :: int
  m_Offset :: int64
  m_Key :: bytes
  m_Value :: bytes
  m_Headers :: "RecordHeader list"

text \<open>A header of a NATS message maps a key to its values; the list of values can be nil.\<close>

type_synonym nats_header = "(string, string list option) gomap"

record nats_msg =
  nm_Subject :: string
  nm_Reply :: string
  nm_Header :: nats_header
  nm_Data :: bytes

record stan_msg =
  sm_Subject :: string
  sm_Sequence :: uint64
  sm_Data :: bytes

datatype any_msg = KafkaMsg Message | NatsMsg nats_msg | StanMsg stan_msg

section \<open>Configuration values handed to the libraries\<close>

datatype SASLMechanism = NoMechanism | SASLTypePlaintext | SASLTypeSCRAMSHA256 | SASLTypeSCRAMSHA512 | SASLTypeOAuth
datatype hash_fn = SHA256 | SHA512
datatype partitioner_kind = LibraryPartitioner | LeastBytesPartitioner

record sarama_config =
  scf_ClientID :: string
  scf_DialTimeout :: int64
  scf_ReturnSuccesses :: bool
  scf_Partitioner :: partitioner_kind
  scf_SASL_Enable :: bool
  scf_SASL_Handshake :: bool
  scf_SASL_Mechanism :: SASLMechanism
  scf_SASL_SCRAM :: "hash_fn option"
  scf_SASL_User :: string
  scf_SASL_Password :: string
  scf_SASL_TokenProvider :: "string option"
  scf_TLS_Enable :: bool
  scf_TLS_Config :: "tls_config option"
  scf_Fetch_Min :: int32
  scf_Fetch_Max :: int32

datatype start_option =
    StartAtTime int
  | StartLast
  | StartAtSequence uint64
  | DeliverAll

datatype sub_option =
    AckExplicit
  | ManualAckMode
  | Durable string
  | StartAt start_option
  | EnableFlowControl
  | IdleHeartbeat int64
  | BindStream string

datatype nats_option =
    Name string
  | MaxReconnects int
  | ReconnectWait int64
  | Timeout int64
  | ErrorHandler
  | DiscoveredServersHandler
  | DisconnectHandler
  | ReconnectHandler
  | ClosedHandler
  | NoCallbacksAfterClientClose
  | RootCAs string
  | ClientCert string string
  | UserCredentials string
  | Nkey string

datatype js_option = MaxWait int64 | PublishAsyncMaxPending int

record stan_options =
  so_ClusterID :: string
  so_ClientID :: string
  so_NatsConn :: nat
  so_PubAckWait :: int64
  so_MaxPubAcksInflight :: int
  so_ConnectWait :: int64
  so_DiscoverPrefix :: string

text \<open>\<^verbatim>\<open>time.Duration(ms) * time.Millisecond\<close>, an \<^verbatim>\<open>int64\<close> number of nanoseconds.\<close>

definition milliseconds :: "int \<Rightarrow> int64" where
  "milliseconds ms = word_of_int ms * 1000000"

section \<open>Requests, answers and the history\<close>

datatype request =
    NewSyncProducer "string list" sarama_config
  | SendMessage nat ProducerMessage
  | ProducerClose nat
  | NewConsumerGroup "string list" string sarama_config
  | NewSaramaConsumer "string list" sarama_config
  | ConsumePartition nat string int32
  | GroupClose nat
  | PartitionClose nat
  | SaramaConsumerClose nat
  | NewClusterAdmin "string list" sarama_config
  | AdminCreateTopic nat string int32 "16 word"
  | AdminClose nat
  | CommitMessage nat ConsumerMessage
  | NatsConnect string "nats_option list"
  | NkeyOptionFromSeed string
  | NatsClose nat
  | NatsDrain nat
  | ConnectedUrl nat
  | IsClosed nat
  | NewJetStream nat "js_option list"
  | StanConnect stan_options
  | StanClose nat
  | NatsPublish nat nats_msg
  | JsPublish nat nats_msg
  | StanPublish nat string bytes
  | NatsSubscribe nat string string
  | JsSubscribe nat string string "sub_option list"
  | StanSubscribe nat string "sub_option list"
  | NatsUnsubscribe nat
  | StanUnsubscribe nat
  | NatsAck nats_msg
  | NatsAckSync nats_msg
  | StanAck stan_msg
  | Listen string bool
  | HttpShutdown nat
  | ListenerClose nat

datatype answer =
    Err "goerr option"
  | Handle "goerr + nat"
  | Url string
  | Flag bool

type_synonym history = "(request \<times> answer) list"

record env =
  env_err :: "history \<Rightarrow> request \<Rightarrow> goerr option"
  env_handle :: "history \<Rightarrow> request \<Rightarrow> goerr + nat"
  env_url :: "history \<Rightarrow> request \<Rightarrow> string"
  env_flag :: "history \<Rightarrow> request \<Rightarrow> bool"

definition call_err :: "env \<Rightarrow> request \<Rightarrow> history \<Rightarrow> history \<times> goerr option" where
  "call_err env q w = (let r = env_err env w q in (w @ [(q, Err r)], r))"

definition call_handle :: "env \<Rightarrow> request \<Rightarrow> history \<Rightarrow> history \<times> (goerr + nat)" where
  "call_handle env q w = (let r = env_handle env w q in (w @ [(q, Handle r)], r))"

definition call_url :: "env \<Rightarrow> request \<Rightarrow> history \<Rightarrow> history \<times> string" where
  "call_url env q w = (let r = env_url env w q in (w @ [(q, Url r)], r))"

definition call_flag :: "env \<Rightarrow> request \<Rightarrow> history \<Rightarrow> history \<times> bool" where
  "call_flag env q w = (let r = env_flag env w q in (w @ [(q, Flag r)], r))"

lemmas call_defs = call_err_def call_handle_def call_url_def call_flag_def

text \<open>A step of a computation on the history only ever extends it.\<close>

lemma call_extends [simp]:
  "prefix w (fst (call_err env q w))" "prefix w (fst (call_handle env q w))"
  "prefix w (fst (call_url env q w))" "prefix w (fst (call_flag env q w))"
  by (simp_all add: call_defs Let_def)

text \<open>An environment in which every call succeeds, for concrete runs.\<close>

definition calm_env :: env where
  "calm_env = \<lparr>env_err = (\<lambda>_ _. None), env_handle = (\<lambda>w _. Inr (length w)),
     env_url = (\<lambda>_ _. ''nats://localhost:4222''), env_flag = (\<lambda>_ _. False)\<rparr>"

lemma calm_calls [simp]:
  "call_err calm_env q w = (w @ [(q, Err None)], None)"
  "call_handle calm_env q w = (w @ [(q, Handle (Inr (length w)))], Inr (length w))"
  "call_url calm_env q w = (w @ [(q, Url ''nats://localhost:4222'')], ''nats://localhost:4222'')"
  "call_flag calm_env q w = (w @ [(q, Flag False)], False)"
  by (simp_all add: call_defs calm_env_def Let_def)

end
