(* ===== verification/Wire.thy ===== *)
theory Wire
  imports Prelude
begin

unbundle bit_operations_syntax

text \<open>
  Byte encodings: the big-endian 32-bit integers and the zig-zag varints of Go's
  \<^verbatim>\<open>encoding/binary\<close> as far as the bridge uses them, and the two helpers of
  \<^verbatim>\<open>server/kafka/packer_utils.go\<close> that turn a partition number into a map key and back.

  The locale \<open>byte_codec\<close> is the contract of an encoder and a reader that undo each other in
  front of any following bytes. What the message-index arrays of the protobuf wire format need
  (sequences of values read back one by one) is proved once inside it; both encodings
  interpret it.
\<close>

section \<open>Big-endian 32-bit integers\<close>

text \<open>\<^verbatim>\<open>binary.BigEndian.PutUint32\<close> into four bytes, and \<^verbatim>\<open>binary.BigEndian.Uint32\<close>.\<close>

definition PutUint32 :: "uint32 \<Rightarrow> bytes" where
  "PutUint32 v = [ucast (drop_bit 24 v), ucast (drop_bit 16 v), ucast (drop_bit 8 v), ucast v]"

fun Uint32 :: "bytes \<Rightarrow> uint32 res" where
  "Uint32 (a # b # c # d # _) =
     Ret (ucast d OR push_bit 8 (ucast c) OR push_bit 16 (ucast b) OR push_bit 24 (ucast a))"
| "Uint32 _ = Panic IndexOutOfRange"

text \<open>
  \<^verbatim>\<open>binary.Read\<close> of a fixed-size value reads its four bytes with \<^verbatim>\<open>io.ReadFull\<close>: no byte
  at all is \<^verbatim>\<open>io.EOF\<close>, fewer than four \<^verbatim>\<open>io.ErrUnexpectedEOF\<close>, and what follows is left.
\<close>

definition read_be32 :: "bytes \<Rightarrow> (uint32 \<times> bytes) res" where
  "read_be32 b =
     (if b = [] then Fail EOFErr
      else if length b < 4 then Fail UnexpectedEOF
      else bind_res (Uint32 b) (\<lambda>v. Ret (v, drop 4 b)))"

definition packInt32InString :: "int32 \<Rightarrow> string res" where
  "packInt32InString inputNum = Ret (bytes_str (PutUint32 inputNum))"

definition unpackInt32FromString :: "string \<Rightarrow> int32 res" where
  "unpackInt32FromString inputString =
     bind_res (read_be32 (str_bytes inputString)) (\<lambda>(v, _). Ret v)"

section \<open>Varints\<close>

function PutUvarint :: "uint64 \<Rightarrow> bytes" where
  "PutUvarint x =
     (if 128 \<le> x then (ucast x OR 128) # PutUvarint (drop_bit 7 x) else [ucast x])"
  by pat_completeness auto
termination
proof (relation "measure unat")
  fix x :: uint64
  assume "128 \<le> x"
  then have "128 \<le> unat x" by (simp add: word_le_nat_alt)
  then have "unat (drop_bit 7 x) < unat x"
    by (simp only: unat_drop_bit_eq) (simp add: drop_bit_eq_div)
  then show "(drop_bit 7 x, x) \<in> measure unat" by simp
qed simp

declare PutUvarint.simps [simp del]

definition zigzag :: "int64 \<Rightarrow> uint64" where
  "zigzag x = (let ux = push_bit 1 x in if sint x < 0 then NOT ux else ux)"

definition unzigzag :: "uint64 \<Rightarrow> int64" where
  "unzigzag ux = (let x = drop_bit 1 ux in if ux AND 1 \<noteq> 0 then NOT x else x)"

definition PutVarint :: "int64 \<Rightarrow> bytes" where
  "PutVarint x = PutUvarint (zigzag x)"

text \<open>
  The loop of \<^verbatim>\<open>binary.ReadUvarint\<close>: byte number \<open>i\<close> (ten at most), the shift \<open>7 * i\<close> and
  the value read so far. A reader that is exhausted gives \<^verbatim>\<open>io.EOF\<close> at the first byte and
  \<^verbatim>\<open>io.ErrUnexpectedEOF\<close> later.
\<close>

function readUvarint_loop :: "nat \<Rightarrow> uint64 \<Rightarrow> bytes \<Rightarrow> (uint64 \<times> bytes) res" where
  "readUvarint_loop i x bs =
     (if 10 \<le> i then Fail VarintOverflow
      else case bs of
        [] \<Rightarrow> Fail (if 0 < i then UnexpectedEOF else EOFErr)
      | b # bs' \<Rightarrow>
          if b < 128
          then if i = 9 \<and> 1 < b then Fail VarintOverflow
               else Ret (x OR push_bit (7 * i) (ucast b), bs')
          else readUvarint_loop (Suc i) (x OR push_bit (7 * i) (ucast (b AND 127))) bs')"
  by pat_completeness auto
termination
  by (relation "measure (\<lambda>(i, x, bs). length bs)") auto

declare readUvarint_loop.simps [simp del]

definition ReadUvarint :: "bytes \<Rightarrow> (uint64 \<times> bytes) res" where
  "ReadUvarint bs = readUvarint_loop 0 0 bs"

definition ReadVarint :: "bytes \<Rightarrow> (int64 \<times> bytes) res" where
  "ReadVarint bs =
     bind_res (ReadUvarint bs) (\<lambda>(ux, bs'). Ret (unzigzag ux, bs'))"

section \<open>The contract of an encoding\<close>

fun read_seq :: "(bytes \<Rightarrow> ('a \<times> bytes) res) \<Rightarrow> nat \<Rightarrow> bytes \<Rightarrow> ('a list \<times> bytes) res" where
  "read_seq rd 0 bs = Ret ([], bs)"
| "read_seq rd (Suc n) bs =
     bind_res (rd bs) (\<lambda>(x, bs'). bind_res (read_seq rd n bs') (\<lambda>(xs, bs''). Ret (x # xs, bs'')))"

locale byte_codec =
  fixes enc :: "'a \<Rightarrow> bytes"
    and rd :: "bytes \<Rightarrow> ('a \<times> bytes) res"
  assumes rd_enc: "rd (enc x @ rest) = Ret (x, rest)"
begin

lemma enc_inject: "enc x @ r = enc y @ s \<longleftrightarrow> x = y \<and> r = s"
  by (metis rd_enc res.inject(1) prod.inject)

lemma read_seq_concat: "read_seq rd (length xs) (concat (map enc xs) @ rest) = Ret (xs, rest)"
  by (induction xs) (simp_all add: rd_enc)

end

section \<open>Both encodings satisfy it\<close>

lemma length_PutUint32 [simp]: "length (PutUint32 v) = 4"
  by (simp add: PutUint32_def)

lemma Uint32_PutUint32 [simp]: "Uint32 (PutUint32 v @ rest) = Ret v"
proof -
  have "(ucast (ucast v :: byte) :: uint32) OR push_bit 8 (ucast (ucast (drop_bit 8 v) :: byte)) OR
      push_bit 16 (ucast (ucast (drop_bit 16 v) :: byte)) OR
      push_bit 24 (ucast (ucast (drop_bit 24 v) :: byte)) = v"
  proof (rule bit_word_eqI)
    fix n assume "n < LENGTH(32)"
    then consider "n < 8" | "8 \<le> n" "n < 16" | "16 \<le> n" "n < 24" | "24 \<le> n" "n < 32"
      by fastforce
    then show "bit ((ucast (ucast v :: byte) :: uint32) OR push_bit 8 (ucast (ucast (drop_bit 8 v) :: byte)) OR
      push_bit 16 (ucast (ucast (drop_bit 16 v) :: byte)) OR
      push_bit 24 (ucast (ucast (drop_bit 24 v) :: byte))) n = bit v n"
      by cases (auto simp: bit_simps)
  qed
  then show ?thesis by (simp add: PutUint32_def)
qed

lemma read_be32_PutUint32: "read_be32 (PutUint32 v @ rest) = Ret (v, rest)"
  by (simp add: read_be32_def) (simp add: PutUint32_def)

interpretation be32: byte_codec PutUint32 read_be32
  by unfold_locales (rule read_be32_PutUint32)

lemma and_127_eq: "x AND 127 = take_bit 7 x" for x :: "'a :: len word"
  by (simp add: take_bit_eq_mask mask_eq_exp_minus_1)

lemma bit_128_byte: "bit (128 :: byte) k \<longleftrightarrow> k = 7"
  using bit_exp_iff [of 7 k, where ?'a = "8 word"] by auto

lemma push_bit_split: "push_bit s (y AND 127) OR push_bit (s + 7) (drop_bit 7 y) = push_bit s y"
  for y :: uint64
proof (rule bit_word_eqI)
  fix n assume "n < LENGTH(64)"
  show "bit (push_bit s (y AND 127) OR push_bit (s + 7) (drop_bit 7 y)) n \<longleftrightarrow> bit (push_bit s y) n"
  proof (cases "s + 7 \<le> n")
    case True
    then have "7 + (n - (s + 7)) = n - s" by arith
    then show ?thesis using True \<open>n < LENGTH(64)\<close> by (auto simp: and_127_eq bit_simps)
  qed (use \<open>n < LENGTH(64)\<close> in \<open>auto simp: and_127_eq bit_simps\<close>)
qed

lemma cont_byte: "ucast ((ucast y OR 128 :: byte) AND 127) = (y AND 127 :: uint64)"
  by (rule bit_word_eqI) (auto simp: and_127_eq bit_simps bit_128_byte)

lemma cont_byte_ge: "\<not> (ucast y OR 128 :: byte) < 128" for y :: uint64
  by (metis le_word_or2 or.commute not_less)

lemma last_byte: "y < 128 \<Longrightarrow> (ucast y :: byte) < 128 \<and> ucast (ucast y :: byte) = y" for y :: uint64
proof -
  assume "y < 128"
  then have "unat y < 128" by (simp add: word_less_nat_alt)
  then have "take_bit 8 y = y" by (simp add: word_unat_eq_iff unsigned_take_bit_eq take_bit_nat_eq_self)
  then show ?thesis using \<open>unat y < 128\<close>
    by (simp add: word_less_nat_alt unsigned_ucast_eq word_unat_eq_iff take_bit_nat_eq_self)
qed

lemma readUvarint_loop_PutUvarint:
  assumes "i \<le> 9" and "unat y < 2 ^ (64 - 7 * i)"
  shows "readUvarint_loop i acc (PutUvarint y @ rest) = Ret (acc OR push_bit (7 * i) y, rest)"
  using assms
proof (induction y arbitrary: i acc rule: PutUvarint.induct)
  case (1 y)
  show ?case
  proof (cases "128 \<le> y")
    case True
    then have big: "128 \<le> unat y" by (simp add: word_le_nat_alt)
    have "i \<noteq> 9" using 1(3) big by auto
    with 1(2) have i: "Suc i \<le> 9" and e: "64 - 7 * i = 7 + (64 - 7 * Suc i)" by auto
    have "unat (drop_bit 7 y) = unat y div 128"
      by (simp only: unat_drop_bit_eq) (simp add: drop_bit_eq_div)
    also have "\<dots> < 2 ^ (64 - 7 * Suc i)"
      using 1(3) unfolding e power_add by (simp add: div_less_iff_less_mult mult.commute)
    finally have "readUvarint_loop (Suc i) (acc OR push_bit (7 * i) (y AND 127))
        (PutUvarint (drop_bit 7 y) @ rest) =
        Ret ((acc OR push_bit (7 * i) (y AND 127)) OR push_bit (7 * Suc i) (drop_bit 7 y), rest)"
      using 1(1) [OF True i] by blast
    then show ?thesis using True i push_bit_split [of "7 * i" y]
      by (simp add: PutUvarint.simps [of y] readUvarint_loop.simps [of i] cont_byte cont_byte_ge
          or.assoc add.commute)
  next
    case False
    then have lb: "(ucast y :: byte) < 128" "ucast (ucast y :: byte) = y" using last_byte [of y] by auto
    have "\<not> (i = 9 \<and> 1 < (ucast y :: byte))"
    proof (safe)
      assume "i = 9" "1 < (ucast y :: byte)"
      then have "1 < unat (ucast y :: byte)" and "unat y < 2" using 1(3) by (auto simp: word_less_nat_alt)
      moreover have "unat (ucast y :: byte) = unat y"
        using \<open>unat y < 2\<close> by (simp add: unsigned_ucast_eq take_bit_nat_eq_self)
      ultimately show False by simp
    qed
    then show ?thesis using False 1(2) lb
      by (simp add: PutUvarint.simps [of y] readUvarint_loop.simps [of i])
  qed
qed

lemma ReadUvarint_PutUvarint: "ReadUvarint (PutUvarint y @ rest) = Ret (y, rest)"
  unfolding ReadUvarint_def
  using readUvarint_loop_PutUvarint [of 0 y 0 rest] unsigned_less [of y, where ?'a = nat] by simp

lemma bit_zigzag: "n < 64 \<Longrightarrow> bit (zigzag x) n \<longleftrightarrow> (0 < n \<and> bit x (n - 1)) \<noteq> bit x 63"
proof -
  assume n: "n < 64"
  have s: "sint x < 0 \<longleftrightarrow> bit x 63" using bit_last_iff [of x] by simp
  have p: "bit (push_bit 1 x) n \<longleftrightarrow> 0 < n \<and> bit x (n - 1)"
    using n by (simp only: bit_push_bit_iff) (auto simp: Suc_le_eq)
  have q: "bit (NOT (push_bit 1 x)) n \<longleftrightarrow> \<not> bit (push_bit 1 x) n"
    using n by (simp only: bit_not_iff) auto
  show ?thesis using p q by (cases "bit x 63") (simp_all only: zigzag_def Let_def s if_True if_False, auto)
qed

lemma bit_unzigzag: "n < 64 \<Longrightarrow> bit (unzigzag u) n \<longleftrightarrow> (bit u (Suc n)) \<noteq> bit u 0"
proof -
  assume n: "n < 64"
  have o: "u AND 1 \<noteq> 0 \<longleftrightarrow> bit u 0" by (simp add: bit_0 and_one_eq odd_iff_mod_2_eq_one)
  have "bit (NOT (drop_bit 1 u)) n \<longleftrightarrow> \<not> bit u (Suc n)" "bit (drop_bit 1 u) n \<longleftrightarrow> bit u (Suc n)"
    using n by (auto simp: bit_simps)
  then show ?thesis by (cases "bit u 0") (simp_all only: unzigzag_def Let_def o if_True if_False, auto)
qed

lemma unzigzag_zigzag [simp]: "unzigzag (zigzag x) = x"
proof (rule bit_word_eqI)
  fix n assume n: "n < LENGTH(64)"
  have z: "bit (zigzag x) (Suc n) \<longleftrightarrow> n \<noteq> 63 \<and> (bit x n \<noteq> bit x 63)"
    using n bit_zigzag [of "Suc n" x] bit_imp_le_length [of "zigzag x" "Suc n"]
    by (cases "n = 63") auto
  show "bit (unzigzag (zigzag x)) n = bit x n"
    using n z by (simp add: bit_unzigzag bit_zigzag [of 0]) blast
qed

lemma ReadVarint_PutVarint: "ReadVarint (PutVarint x @ rest) = Ret (x, rest)"
  by (simp add: ReadVarint_def PutVarint_def ReadUvarint_PutUvarint)

interpretation uvarint: byte_codec PutUvarint ReadUvarint
  by unfold_locales (rule ReadUvarint_PutUvarint)

interpretation varint: byte_codec PutVarint ReadVarint
  by unfold_locales (rule ReadVarint_PutVarint)

lemma unpack_pack: "bind_res (packInt32InString n) unpackInt32FromString = Ret n"
  using be32.rd_enc [of n "[]"] by (simp add: packInt32InString_def unpackInt32FromString_def)

section \<open>Properties\<close>

text \<open>The map keys that stand for partition numbers are faithful: unpacking a packed number gives the
  number back, for negative ones too, distinct numbers have distinct keys, and a string of fewer than
  four bytes is refused with an error and never panics.\<close>

theorem packer_roundtrip:
  "bind_res (packInt32InString n) unpackInt32FromString = Ret n \<and>
   (packInt32InString n = packInt32InString k \<longleftrightarrow> n = k) \<and>
   (length s < 4 \<longrightarrow> (\<exists>e. unpackInt32FromString s = Fail e))"
proof (intro conjI)
  show "packInt32InString n = packInt32InString k \<longleftrightarrow> n = k"
    using be32.enc_inject [of n "[]" k "[]"] by (simp add: packInt32InString_def)
  show "length s < 4 \<longrightarrow> (\<exists>e. unpackInt32FromString s = Fail e)"
    by (auto simp: unpackInt32FromString_def read_be32_def str_bytes_def)
qed (rule unpack_pack)

theorem packer_roundtrip_witness:
  "bind_res (packInt32InString (- 1)) unpackInt32FromString = Ret (- 1) \<and> (\<exists>e. unpackInt32FromString ''abc'' = Fail e)"
  using packer_roundtrip [of "- 1" 0 "''abc''"] by simp

end
