(* ===== verification/Partitioner.thy ===== *)
theory Partitioner
  imports Wire
begin

text \<open>
  The least-bytes balancer of \<^verbatim>\<open>server/kafka/partitioner.go\<close>. Its state is the map
  \<^verbatim>\<open>byteCounters\<close> from packed partition numbers to the bytes sent so far
  (\<^verbatim>\<open>uint64\<close>). The map is a \<^verbatim>\<open>concurrent-map\<close> of a package outside the repository: it is
  taken as a map, and the order in which \<^verbatim>\<open>IterBuffered\<close> yields its entries is the argument
  \<open>iter\<close>, of which only the contract \<open>map_order\<close> is used. A message is the pair of the
  lengths of its key and value. The loop counters are modelled as integers; they agree with
  the source's \<^verbatim>\<open>int32\<close> counters for every \<^verbatim>\<open>numPartitions\<close> above \<open>- 2 ^ 31\<close>.
\<close>

section \<open>Definitions\<close>

record leastBytesPartitioner =
  byteCounters :: "(string, uint64) gomap"

definition NewLeastBytesPartitioner :: "string \<Rightarrow> leastBytesPartitioner" where
  "NewLeastBytesPartitioner topic = \<lparr>byteCounters = []\<rparr>"

definition RequiresConsistency :: "leastBytesPartitioner \<Rightarrow> bool" where
  "RequiresConsistency lbp = False"

function remove_counters ::
  "int \<Rightarrow> int \<Rightarrow> (string, uint64) gomap \<Rightarrow> (string, uint64) gomap res" where
  "remove_counters i numPartitions m =
     (if numPartitions \<le> i then
        (case packInt32InString (of_int i) of
           Ret index \<Rightarrow> remove_counters (i - 1) numPartitions (map_del index m)
         | Fail e \<Rightarrow> Fail (Wrapf ''failed in removing count for partition %d: %w'' [AInt i] e)
         | Panic p \<Rightarrow> Panic p)
      else Ret m)"
  by pat_completeness auto
termination
  by (relation "measure (\<lambda>(i, n, m). nat (i - n + 1))") auto

function add_counters ::
  "int \<Rightarrow> int \<Rightarrow> (string, uint64) gomap \<Rightarrow> (string, uint64) gomap res" where
  "add_counters i numPartitions m =
     (if i < numPartitions then
        (case packInt32InString (of_int i) of
           Ret index \<Rightarrow> add_counters (i + 1) numPartitions (map_put index 0 m)
         | Fail e \<Rightarrow> Fail (Wrapf ''failed in adding count for partition %d: %w'' [AInt i] e)
         | Panic p \<Rightarrow> Panic p)
      else Ret m)"
  by pat_completeness auto
termination
  by (relation "measure (\<lambda>(i, n, m). nat (n - i))") auto

declare remove_counters.simps [simp del] add_counters.simps [simp del]

fun find_min_loop :: "string \<Rightarrow> uint64 \<Rightarrow> (string \<times> uint64) list \<Rightarrow> string" where
  "find_min_loop minPartition minBytes [] = minPartition"
| "find_min_loop minPartition minBytes ((key, curBytes) # es) =
     (if minBytes = 0 \<or> curBytes < minBytes then find_min_loop key curBytes es
      else find_min_loop minPartition minBytes es)"

definition findPartitionWithMinBytes ::
  "((string, uint64) gomap \<Rightarrow> (string \<times> uint64) list) \<Rightarrow> leastBytesPartitioner \<Rightarrow> string" where
  "findPartitionWithMinBytes iter lbp = find_min_loop [] 0 (iter (byteCounters lbp))"

type_synonym message_size = "uint64 \<times> uint64"

definition Partition ::
  "((string, uint64) gomap \<Rightarrow> (string \<times> uint64) list) \<Rightarrow> message_size \<Rightarrow> int32 \<Rightarrow>
   leastBytesPartitioner \<Rightarrow> (leastBytesPartitioner \<times> int32) res" where
  "Partition iter message numPartitions lbp =
     bind_res (remove_counters (int (length (byteCounters lbp)) - 1) (sint numPartitions)
                (byteCounters lbp)) (\<lambda>m.
     bind_res (add_counters (int (length m)) (sint numPartitions) m) (\<lambda>m.
     let lbp = lbp\<lparr>byteCounters := m\<rparr>;
         minIndex = findPartitionWithMinBytes iter lbp
     in case map_of m minIndex of
          None \<Rightarrow> Panic TypeAssertion
        | Some minBytes \<Rightarrow>
            let m = map_put minIndex (minBytes + fst message + snd message) m in
            bind_res (unpackInt32FromString minIndex) (\<lambda>minIndexStr.
              Ret (lbp\<lparr>byteCounters := m\<rparr>, minIndexStr))))"

section \<open>The balancer's invariant\<close>

definition pkey :: "nat \<Rightarrow> string" where
  "pkey i = bytes_str (PutUint32 (of_nat i))"

definition counters_ok :: "(string, uint64) gomap \<Rightarrow> bool" where
  "counters_ok m \<longleftrightarrow> map_wf m \<and> keys m = pkey ` {0..<length m} \<and> length m < 2 ^ 31"

section \<open>Lemmas\<close>

lemma pkey_inject: "i < 2 ^ 32 \<Longrightarrow> j < 2 ^ 32 \<Longrightarrow> pkey i = pkey j \<longleftrightarrow> i = j"
proof -
  assume h: "i < 2 ^ 32" "j < 2 ^ 32"
  have "pkey i = pkey j \<longleftrightarrow> (of_nat i :: uint32) = of_nat j"
    using be32.enc_inject [of "of_nat i" "[]" "of_nat j" "[]"] by (auto simp: pkey_def)
  also have "\<dots> \<longleftrightarrow> i = j"
    using h by (simp add: word_of_nat_eq_iff take_bit_nat_eq_self)
  finally show ?thesis .
qed

lemma pack_nat [simp]: "packInt32InString (of_nat i) = Ret (pkey i)"
  by (simp add: packInt32InString_def pkey_def)

lemma unpack_pkey [simp]: "unpackInt32FromString (pkey i) = Ret (of_nat i)"
  using unpack_pack [of "of_nat i"] by (simp add: packInt32InString_def pkey_def)

lemma remove_counters_ok:
  assumes "0 \<le> n" and "k < 2 ^ 31" and "map_wf m" and "keys m = pkey ` {0..<k}"
  shows "\<exists>m'. remove_counters (int k - 1) n m = Ret m' \<and> map_wf m' \<and>
    keys m' = pkey ` {0..<min k (nat n)} \<and> (\<forall>i < min k (nat n). map_of m' (pkey i) = map_of m (pkey i))"
  using assms(2-)
proof (induction k arbitrary: m)
  case 0
  then show ?case using assms(1) by (simp add: remove_counters.simps)
next
  case (Suc k)
  show ?case
  proof (cases "n \<le> int k")
    case True
    have inj: "i < k \<Longrightarrow> pkey i \<noteq> pkey k" for i using pkey_inject [of i k] Suc.prems(1) by simp
    have "keys (map_del (pkey k) m) = pkey ` {0..<k}"
      using inj by (auto simp: Suc.prems(3) atLeast0_lessThan_Suc)
    moreover have "map_wf (map_del (pkey k) m)" using Suc.prems by simp
    ultimately obtain m' where m': "remove_counters (int k - 1) n (map_del (pkey k) m) = Ret m'"
      "map_wf m'" "keys m' = pkey ` {0..<min k (nat n)}"
      "\<forall>i < min k (nat n). map_of m' (pkey i) = map_of (map_del (pkey k) m) (pkey i)"
      using Suc.IH [of "map_del (pkey k) m"] Suc.prems(1) by auto
    have "remove_counters (int (Suc k) - 1) n m = Ret m'"
      using True m'(1) by (simp add: remove_counters.simps [of "int k"])
    moreover have "min (Suc k) (nat n) = min k (nat n)" using True by simp
    ultimately show ?thesis using m' inj by auto
  next
    case False
    then have "min (Suc k) (nat n) = Suc k" by simp
    then show ?thesis using False Suc.prems by (simp add: remove_counters.simps)
  qed
qed

lemma add_counters_ok:
  assumes "k \<le> nat n" and "nat n < 2 ^ 31" and "map_wf m" and "keys m = pkey ` {0..<k}"
  shows "\<exists>m'. add_counters (int k) n m = Ret m' \<and> map_wf m' \<and> keys m' = pkey ` {0..<nat n} \<and>
    (\<forall>i < k. map_of m' (pkey i) = map_of m (pkey i))"
  using assms
proof (induction "nat n - k" arbitrary: k m)
  case 0
  then have "\<not> int k < n" and "k = nat n" by linarith+
  with 0 show ?case by (simp add: add_counters.simps)
next
  case (Suc d)
  then have lt: "int k < n" by linarith
  have inj: "i < k \<Longrightarrow> pkey i \<noteq> pkey k" for i using pkey_inject [of i k] Suc.prems by simp
  have "keys (map_put (pkey k) 0 m) = pkey ` {0..<Suc k}"
    using Suc.prems(4) by (auto simp: atLeast0_lessThan_Suc)
  moreover have "d = nat n - Suc k" "Suc k \<le> nat n" using Suc.hyps(2) by linarith+
  ultimately obtain m' where m': "add_counters (int (Suc k)) n (map_put (pkey k) 0 m) = Ret m'" "map_wf m'"
    "keys m' = pkey ` {0..<nat n}" "\<forall>i < Suc k. map_of m' (pkey i) = map_of (map_put (pkey k) 0 m) (pkey i)"
    using Suc.hyps(1) [of "Suc k" "map_put (pkey k) 0 m"] Suc.prems by auto
  have "add_counters (int k) n m = Ret m'"
    using lt m'(1) by (simp add: add_counters.simps [of "int k"] add.commute)
  then show ?case using m' inj by (auto simp: update_conv')
qed

lemma find_min_in: "es \<noteq> [] \<Longrightarrow> find_min_loop k 0 es \<in> fst ` set es"
proof -
  have "find_min_loop k b es \<in> insert k (fst ` set es)" for k b es
    by (induction es arbitrary: k b) (auto split: if_splits, blast+)
  then show "es \<noteq> [] \<Longrightarrow> find_min_loop k 0 es \<in> fst ` set es" by (cases es) force+
qed

text \<open>While no counter is zero the loop does find a least one.\<close>

lemma find_min_least:
  assumes "\<forall>(k, c) \<in> set es. c \<noteq> 0" and "b \<noteq> 0"
  shows "\<exists>c. (find_min_loop k b es, c) \<in> insert (k, b) (set es) \<and> c \<le> b \<and> (\<forall>(k', c') \<in> set es. c \<le> c')"
  using assms
proof (induction es arbitrary: k b)
  case (Cons e es)
  obtain k1 c1 where e: "e = (k1, c1)" by (cases e)
  show ?case
  proof (cases "c1 < b")
    case True
    then show ?thesis using Cons.IH [of c1 k1] Cons.prems by (auto simp: e dest: less_imp_le order_trans)
  next
    case False
    then show ?thesis using Cons.IH [of b k] Cons.prems by (auto simp: e not_less dest: order_trans)
  qed
qed auto

text \<open>
  A zero counter that is not the last one visited is forgotten: whatever was found before it,
  the search starts over with the entries behind it.
\<close>

lemma find_min_restart:
  "es \<noteq> [] \<Longrightarrow> find_min_loop k b (pre @ (z, 0) # es) = find_min_loop [] 0 es"
proof (induction pre arbitrary: k b)
  case Nil
  then show ?case by (cases es) (auto simp: word_gt_0 split: prod.splits)
qed auto

lemma keys_empty_iff: "keys m = {} \<longleftrightarrow> m = []"
  by (simp add: keys_def)

lemma Partition_counters:
  assumes "counters_ok (byteCounters lbp)" and "0 < sint n"
  obtains m where "map_wf m" and "keys m = pkey ` {0..<nat (sint n)}" and "length m = nat (sint n)"
    and "\<And>i. i < min (length (byteCounters lbp)) (nat (sint n)) \<Longrightarrow>
      map_of m (pkey i) = map_of (byteCounters lbp) (pkey i)"
    and "\<And>iter msg. Partition iter msg n lbp =
      (let lbp' = lbp\<lparr>byteCounters := m\<rparr>; minIndex = findPartitionWithMinBytes iter lbp'
       in case map_of m minIndex of
            None \<Rightarrow> Panic TypeAssertion
          | Some minBytes \<Rightarrow>
              bind_res (unpackInt32FromString minIndex) (\<lambda>p.
                Ret (lbp\<lparr>byteCounters := map_put minIndex (minBytes + fst msg + snd msg) m\<rparr>, p)))"
proof -
  let ?k = "length (byteCounters lbp)" and ?n = "nat (sint n)"
  have n31: "?n < 2 ^ 31" using sint_lt [of n] by simp
  have card_pkey: "card (pkey ` {0..<j}) = j" if "j \<le> 2 ^ 32" for j
    using that pkey_inject by (subst card_image) (auto simp: inj_on_def)
  obtain m1 where m1: "remove_counters (int ?k - 1) (sint n) (byteCounters lbp) = Ret m1" "map_wf m1"
    "keys m1 = pkey ` {0..<min ?k ?n}" "\<forall>i < min ?k ?n. map_of m1 (pkey i) = map_of (byteCounters lbp) (pkey i)"
    using remove_counters_ok [of "sint n" ?k "byteCounters lbp"] assms by (auto simp: counters_ok_def)
  have l1: "length m1 = min ?k ?n" using length_keys [OF m1(2)] m1(3) card_pkey n31 by simp
  obtain m where m: "add_counters (int (length m1)) (sint n) m1 = Ret m" "map_wf m"
    "keys m = pkey ` {0..<?n}" "\<forall>i < length m1. map_of m (pkey i) = map_of m1 (pkey i)"
    using add_counters_ok [of "length m1" "sint n" m1] n31 l1 m1 by auto
  show thesis
  proof (rule that [of m])
    show "length m = ?n" using length_keys [OF m(2)] m(3) card_pkey n31 by simp
    show "map_of m (pkey i) = map_of (byteCounters lbp) (pkey i)" if "i < min ?k ?n" for i
      using m(4) m1(4) l1 that by simp
    show "Partition iter msg n lbp =
      (let lbp' = lbp\<lparr>byteCounters := m\<rparr>; minIndex = findPartitionWithMinBytes iter lbp'
       in case map_of m minIndex of
            None \<Rightarrow> Panic TypeAssertion
          | Some minBytes \<Rightarrow>
              bind_res (unpackInt32FromString minIndex) (\<lambda>p.
                Ret (lbp\<lparr>byteCounters := map_put minIndex (minBytes + fst msg + snd msg) m\<rparr>, p)))" for iter msg
      using m(1) m1(1) by (simp add: Partition_def Let_def split: option.split)
  qed (use m in simp_all)
qed

section \<open>The contract of a partitioner\<close>

text \<open>
  What the producer relies on when it asks a partitioner for the partition of a message: an
  answer within range, for any number of partitions at each call, and an invariant that every
  call keeps.
\<close>

fun run_partitions ::
  "('m \<Rightarrow> int32 \<Rightarrow> 's \<Rightarrow> ('s \<times> int32) res) \<Rightarrow> ('m \<times> int32) list \<Rightarrow> 's \<Rightarrow> ('s \<times> int32 list) res" where
  "run_partitions part [] s = Ret (s, [])"
| "run_partitions part ((m, n) # calls) s =
     bind_res (part m n s) (\<lambda>(s', p). bind_res (run_partitions part calls s') (\<lambda>(s'', ps). Ret (s'', p # ps)))"

locale partitioner =
  fixes inv :: "'s \<Rightarrow> bool"
    and part :: "'m \<Rightarrow> int32 \<Rightarrow> 's \<Rightarrow> ('s \<times> int32) res"
  assumes part_ok: "inv s \<Longrightarrow> 0 < sint n \<Longrightarrow>
    \<exists>s' p. part m n s = Ret (s', p) \<and> inv s' \<and> 0 \<le> sint p \<and> sint p < sint n"
begin

lemma run_ok:
  assumes "inv s" and "\<forall>(m, n) \<in> set calls. 0 < sint n"
  shows "\<exists>s' ps. run_partitions part calls s = Ret (s', ps) \<and> inv s' \<and>
    list_all2 (\<lambda>(m, n) p. 0 \<le> sint p \<and> sint p < sint n) calls ps"
  using assms
proof (induction calls arbitrary: s)
  case (Cons c calls)
  obtain m n where c: "c = (m, n)" by (cases c)
  then obtain s1 p where p: "part m n s = Ret (s1, p)" "inv s1" "0 \<le> sint p \<and> sint p < sint n"
    using part_ok [of s n m] Cons.prems by auto
  then show ?case using Cons.IH [of s1] Cons.prems(2) c by fastforce
qed simp

end

lemma Partition_returns:
  assumes "counters_ok (byteCounters lbp)" and "0 < sint n" and "map_order iter"
  obtains m i minBytes where "i < nat (sint n)" and "map_wf m" and "keys m = pkey ` {0..<nat (sint n)}"
    and "length m = nat (sint n)" and "map_of m (pkey i) = Some minBytes"
    and "\<And>j. j < min (length (byteCounters lbp)) (nat (sint n)) \<Longrightarrow>
      map_of m (pkey j) = map_of (byteCounters lbp) (pkey j)"
    and "find_min_loop [] 0 (iter m) = pkey i"
    and "\<And>msg. Partition iter msg n lbp =
      Ret (lbp\<lparr>byteCounters := map_put (pkey i) (minBytes + fst msg + snd msg) m\<rparr>, of_nat i)"
proof -
  obtain m where m: "map_wf m" "keys m = pkey ` {0..<nat (sint n)}" "length m = nat (sint n)"
    "\<And>j. j < min (length (byteCounters lbp)) (nat (sint n)) \<Longrightarrow>
      map_of m (pkey j) = map_of (byteCounters lbp) (pkey j)"
    and eq: "\<And>iter msg. Partition iter msg n lbp =
      (let lbp' = lbp\<lparr>byteCounters := m\<rparr>; minIndex = findPartitionWithMinBytes iter lbp'
       in case map_of m minIndex of
            None \<Rightarrow> Panic TypeAssertion
          | Some minBytes \<Rightarrow>
              bind_res (unpackInt32FromString minIndex) (\<lambda>p.
                Ret (lbp\<lparr>byteCounters := map_put minIndex (minBytes + fst msg + snd msg) m\<rparr>, p)))"
    using Partition_counters [OF assms(1,2)] by metis
  have "iter m \<noteq> []" using map_order.length_order [OF assms(3), of m] m(3) assms(2) by auto
  then have "find_min_loop [] 0 (iter m) \<in> keys m"
    using find_min_in [of "iter m" "[]"] map_order.set_order [OF assms(3), of m] by (simp add: keys_def)
  then obtain i where i: "i < nat (sint n)" "find_min_loop [] 0 (iter m) = pkey i" using m(2) by auto
  then obtain v where "map_of m (pkey i) = Some v" using m(2) map_of_keys [of m "pkey i"] by auto
  then show thesis
    using that [of i m v] i m eq by (simp add: findPartitionWithMinBytes_def Let_def)
qed

lemma counters_ok_put:
  assumes "map_wf m" and "keys m = pkey ` {0..<k}" and "length m = k" and "k < 2 ^ 31" and "i < k"
  shows "counters_ok (map_put (pkey i) v m)"
proof -
  have "keys (map_put (pkey i) v m) = pkey ` {0..<k}" using assms by auto
  moreover have "length (map_put (pkey i) v m) = k"
    using length_keys [OF assms(1)] length_keys [of "map_put (pkey i) v m"] assms calculation by simp
  ultimately show ?thesis using assms by (simp add: counters_ok_def)
qed

lemma Partition_ok:
  assumes "counters_ok (byteCounters lbp)" and "0 < sint n" and "map_order iter"
  shows "\<exists>lbp' p. Partition iter msg n lbp = Ret (lbp', p) \<and> counters_ok (byteCounters lbp') \<and>
    0 \<le> sint p \<and> sint p < sint n"
proof -
  obtain m i v where r: "i < nat (sint n)" "map_wf m" "keys m = pkey ` {0..<nat (sint n)}"
    "length m = nat (sint n)" "Partition iter msg n lbp =
      Ret (lbp\<lparr>byteCounters := map_put (pkey i) (v + fst msg + snd msg) m\<rparr>, of_nat i)"
    using Partition_returns [OF assms] by metis
  have n31: "nat (sint n) < 2 ^ 31" using sint_lt [of n] by simp
  then have "sint (of_nat i :: int32) = int i"
    using r(1) by (simp add: signed_of_nat signed_take_bit_int_eq_self)
  then show ?thesis using r n31 counters_ok_put [of m "nat (sint n)" i] by auto
qed

text \<open>The least-bytes balancer is a partitioner for every iteration order of its counters.\<close>

locale counter_order = map_order iter for iter :: "(string, uint64) gomap \<Rightarrow> (string \<times> uint64) list"

lemma least_bytes_partitioner:
  "map_order iter \<Longrightarrow> partitioner (\<lambda>lbp. counters_ok (byteCounters lbp)) (Partition iter)"
  by unfold_locales (rule Partition_ok)

sublocale counter_order \<subseteq> least_bytes: partitioner "\<lambda>lbp. counters_ok (byteCounters lbp)" "Partition iter"
  by (rule least_bytes_partitioner) (rule map_order_axioms)

interpretation insertion_counters: counter_order "\<lambda>m. m"
  by unfold_locales

lemma counters_ok_New: "counters_ok (byteCounters (NewLeastBytesPartitioner topic))"
  by (simp add: counters_ok_def NewLeastBytesPartitioner_def)

section \<open>Properties\<close>

lemma iter_least:
  assumes "map_order iter" and "m \<noteq> []" and nz: "\<And>k c. (k, c) \<in> set m \<Longrightarrow> c \<noteq> 0"
  obtains d where "(find_min_loop [] 0 (iter m), d) \<in> set m" and "\<And>k c. (k, c) \<in> set m \<Longrightarrow> d \<le> c"
proof -
  have set_iter: "set (iter m) = set m" by (rule map_order.set_order [OF assms(1)])
  then obtain k c es where es: "iter m = (k, c) # es" using assms(2) by (cases "iter m") auto
  have sub: "insert (k, c) (set es) = set m" using set_iter es by simp
  have "\<forall>e \<in> set es. snd e \<noteq> 0" using nz unfolding sub [symmetric] by (metis insertCI prod.collapse)
  moreover have "c \<noteq> 0" by (rule nz [of k]) (simp flip: sub)
  ultimately obtain d where "(find_min_loop k c es, d) \<in> set m" "d \<le> c" "\<forall>(k', c') \<in> set es. d \<le> c'"
    using find_min_least [of es c k] unfolding sub by (auto simp: case_prod_beta)
  then show thesis using es that [of d] unfolding sub [symmetric] by auto
qed

definition bytes_sent :: "leastBytesPartitioner \<Rightarrow> nat \<Rightarrow> uint64" where
  "bytes_sent lbp j = map_get 0 (byteCounters lbp) (pkey j)"

definition two_counters :: "uint64 \<Rightarrow> uint64 \<Rightarrow> leastBytesPartitioner" where
  "two_counters a b = \<lparr>byteCounters = [(pkey 0, a), (pkey 1, b)]\<rparr>"

lemma counters_ok_two: "counters_ok (byteCounters (two_counters a b))"
proof -
  have "pkey 0 \<noteq> pkey 1" using pkey_inject [of 0 1] by simp
  then show ?thesis
    by (auto simp: counters_ok_def map_wf_def keys_def two_counters_def atLeast0_lessThan_Suc)
qed

lemma bytes_sent_two:
  "bytes_sent (two_counters a b) 0 = a" "bytes_sent (two_counters a b) 1 = b"
  "bytes_sent (two_counters a b) (Suc 0) = b"
  using pkey_inject [of 0 1] by (auto simp: bytes_sent_def two_counters_def map_get_def)

text \<open>C26. The balancer always answers with a partition that exists: from a new balancer, through any
  sequence of messages and whatever the (positive) number of partitions is at each call, so also
  when it grows or shrinks in between, every call returns, without error or panic, a partition
  between zero and the number of partitions, in every iteration order of the counters.\<close>

theorem partitions_in_range:
  assumes "map_order iter" and "\<forall>(m, n) \<in> set calls. 0 < sint n"
  shows "\<exists>lbp ps. run_partitions (Partition iter) calls (NewLeastBytesPartitioner topic) = Ret (lbp, ps) \<and>
    counters_ok (byteCounters lbp) \<and> list_all2 (\<lambda>(m, n) p. 0 \<le> sint p \<and> sint p < sint n) calls ps"
  using partitioner.run_ok [OF least_bytes_partitioner [OF assms(1)] counters_ok_New assms(2)] .

theorem partitions_in_range_witness:
  "\<exists>lbp ps. run_partitions (Partition (\<lambda>m. m)) [((1, 2), 3), ((4, 4), 2)] (NewLeastBytesPartitioner ''t'') =
      Ret (lbp, ps) \<and> counters_ok (byteCounters lbp) \<and>
    list_all2 (\<lambda>(m, n) p. 0 \<le> sint p \<and> sint p < sint n)
      [((1 :: uint64, 2 :: uint64), 3 :: int32), ((4, 4), 2)] ps"
  by (rule partitions_in_range) (simp_all add: insertion_order.map_order_axioms)

text \<open>C27. Once every partition has been sent at least one byte the balancer is a least-bytes balancer: it
  picks a partition no other has received fewer bytes than, adds the length of the message's key
  and value to that partition's counter and leaves the others as they are.\<close>

theorem partition_least_bytes:
  assumes "counters_ok (byteCounters lbp)" and "map_order iter"
    and "0 < sint n" and "nat (sint n) = length (byteCounters lbp)"
    and "\<And>j. j < nat (sint n) \<Longrightarrow> bytes_sent lbp j \<noteq> 0"
  shows "\<exists>lbp' i. Partition iter msg n lbp = Ret (lbp', of_nat i) \<and> i < nat (sint n) \<and>
    (\<forall>j < nat (sint n). bytes_sent lbp i \<le> bytes_sent lbp j) \<and>
    (\<forall>j < nat (sint n). bytes_sent lbp' j =
       (if j = i then bytes_sent lbp i + fst msg + snd msg else bytes_sent lbp j))"
proof -
  obtain m i v where r: "i < nat (sint n)" "map_wf m" "keys m = pkey ` {0..<nat (sint n)}"
    "map_of m (pkey i) = Some v"
    "\<And>j. j < min (length (byteCounters lbp)) (nat (sint n)) \<Longrightarrow>
      map_of m (pkey j) = map_of (byteCounters lbp) (pkey j)"
    "find_min_loop [] 0 (iter m) = pkey i"
    "Partition iter msg n lbp =
      Ret (lbp\<lparr>byteCounters := map_put (pkey i) (v + fst msg + snd msg) m\<rparr>, of_nat i)"
    using Partition_returns [OF assms(1,3,2)] by metis
  have same: "map_get 0 m (pkey j) = bytes_sent lbp j" if "j < nat (sint n)" for j
    using r(5) [of j] that assms(4) by (simp add: bytes_sent_def map_get_def)
  have n31: "nat (sint n) < 2 ^ 31" using sint_lt [of n] by simp
  have entry: "j < nat (sint n) \<and> c = bytes_sent lbp j" if "(pkey j, c) \<in> set m" "j < nat (sint n)" for j c
    using that same [of j] r(2) by (simp add: map_get_def map_of_in [symmetric])
  have key: "\<exists>j < nat (sint n). k = pkey j \<and> c = bytes_sent lbp j" if "(k, c) \<in> set m" for k c
  proof -
    have "k \<in> keys m" using that unfolding keys_def by force
    then show ?thesis using r(3) entry that by auto
  qed
  have "(pkey i, v) \<in> set m" using r(2,4) by (simp add: map_of_in)
  then have "m \<noteq> []" by auto
  moreover have "c \<noteq> 0" if "(k, c) \<in> set m" for k c using key [OF that] assms(5) by auto
  ultimately obtain d where d: "(pkey i, d) \<in> set m" "\<And>k c. (k, c) \<in> set m \<Longrightarrow> d \<le> c"
    using iter_least [OF assms(2), of m] r(6) by metis
  have least: "bytes_sent lbp i \<le> bytes_sent lbp j" if j: "j < nat (sint n)" for j
  proof -
    have "pkey j \<in> keys m" using r(3) j by simp
    then obtain w where w: "(pkey j, w) \<in> set m" unfolding keys_def by auto
    then have "d \<le> w" by (rule d(2))
    then show ?thesis using entry [OF w j] entry [OF d(1) r(1)] by simp
  qed
  have "bytes_sent (lbp\<lparr>byteCounters := map_put (pkey i) (v + fst msg + snd msg) m\<rparr>) j =
      (if j = i then bytes_sent lbp i + fst msg + snd msg else bytes_sent lbp j)" if "j < nat (sint n)" for j
    using that r(1,4) same [of j] same [of i] pkey_inject [of i j] n31
    by (auto simp: bytes_sent_def map_get_def update_conv')
  then show ?thesis using r(1,7) least by blast
qed

theorem partition_least_bytes_witness:
  "\<exists>lbp' i. Partition (\<lambda>m. m) (1, 2) 2 (two_counters 7 5) = Ret (lbp', of_nat i :: int32) \<and> i < nat (sint (2 :: int32)) \<and>
    (\<forall>j < nat (sint (2 :: int32)). bytes_sent (two_counters 7 5) i \<le> bytes_sent (two_counters 7 5) j) \<and>
    (\<forall>j < nat (sint (2 :: int32)). bytes_sent lbp' j =
       (if j = i then bytes_sent (two_counters 7 5) i + fst (1 :: uint64, 2 :: uint64) + snd (1 :: uint64, 2 :: uint64)
        else bytes_sent (two_counters 7 5) j))"
proof (rule partition_least_bytes)
  fix j assume "j < nat (sint (2 :: int32))"
  then have "j = 0 \<or> j = 1" by auto
  then show "bytes_sent (two_counters 7 5) j \<noteq> 0" by (auto simp: bytes_sent_two)
qed (simp_all add: counters_ok_two insertion_order.map_order_axioms, simp add: two_counters_def)

text \<open>A partition that has received no bytes is not preferred: the search takes a minimum of zero for
  "nothing found yet", so an idle partition is picked only when it is the last entry visited. In
  any iteration order in which other entries follow it the choice falls on one of those, which has
  received at least as many bytes.\<close>

theorem partition_skips_idle:
  assumes "map_wf (byteCounters lbp)" and "map_order iter"
    and "iter (byteCounters lbp) = pre @ (z, 0) # rest" and "rest \<noteq> []"
  shows "\<exists>k c. (k, c) \<in> set rest \<and> findPartitionWithMinBytes iter lbp = k \<and> k \<noteq> z"
proof -
  have f: "findPartitionWithMinBytes iter lbp = find_min_loop [] 0 rest"
    using find_min_restart [OF assms(4)] assms(3) by (simp add: findPartitionWithMinBytes_def)
  obtain k c where k: "(k, c) \<in> set rest" "find_min_loop [] 0 rest = k"
    using find_min_in [OF assms(4)] by force
  have "distinct (map fst (pre @ (z, 0) # rest))"
    using map_order.distinct_order [OF assms(2,1)] assms(3) by simp
  moreover have "k \<in> fst ` set rest" using k(1) by (metis fst_conv image_eqI)
  ultimately have "k \<noteq> z" by auto
  then show ?thesis using k f by blast
qed

theorem partition_skips_idle_witness:
  "(\<exists>k c. (k, c) \<in> set [(pkey 1, 900 :: uint64)] \<and>
     findPartitionWithMinBytes (\<lambda>m. m) (two_counters 0 900) = k \<and> k \<noteq> pkey 0) \<and>
   bytes_sent (two_counters 0 900) 0 < bytes_sent (two_counters 0 900) 1"
proof
  have "map_wf (byteCounters (two_counters 0 900))" using counters_ok_two by (simp add: counters_ok_def)
  then show "\<exists>k c. (k, c) \<in> set [(pkey 1, 900 :: uint64)] \<and>
     findPartitionWithMinBytes (\<lambda>m. m) (two_counters 0 900) = k \<and> k \<noteq> pkey 0"
    by (rule partition_skips_idle [where pre = "[]"])
      (simp_all add: insertion_order.map_order_axioms two_counters_def)
qed (simp add: bytes_sent_two)

end
