(* ===== verification/KafkaNet.thy ===== *)
theory KafkaNet
  imports World Partitioner
begin

text \<open>
  How the bridge configures its connections to Kafka: the configuration blocks at the head of
  \<^verbatim>\<open>NewProducer\<close>, \<^verbatim>\<open>NewConsumer\<close> and \<^verbatim>\<open>NewManager\<close> in
  \<^verbatim>\<open>server/kafka/producer.go\<close>, \<^verbatim>\<open>consumer.go\<close> and \<^verbatim>\<open>manager.go\<close>, and the
  one-line description of the connection, \<^verbatim>\<open>NetInfo\<close>. The library's default configuration is
  the argument \<open>NewConfig\<close>, the key material comes through \<open>tls_io\<close>. The source writes the login and TLS
  blocks out for each of the three; so do the definitions.
\<close>

section \<open>Definitions\<close>

record tls_io =
  LoadX509KeyPair :: "string \<Rightarrow> string \<Rightarrow> goerr + string list"
  ParseCertificate :: "string \<Rightarrow> goerr option"
  ReadFile :: "string \<Rightarrow> goerr + string"

abbreviation make_tls :: "tls_io \<Rightarrow> TLSConf \<Rightarrow> tls_config option res" where
  "make_tls io t \<equiv> MakeTLSConfig (LoadX509KeyPair io) (ParseCertificate io) (ReadFile io) t"

definition insecure_tls :: tls_config where
  "insecure_tls = \<lparr>tc_Certificates = [], tc_MinVersion12 = False, tc_RootCAs = None,
     tc_InsecureSkipVerify = True\<rparr>"

definition empty_tls :: tls_config where
  "empty_tls = insecure_tls\<lparr>tc_InsecureSkipVerify := False\<rparr>"

definition with_tls :: "tls_config \<Rightarrow> sarama_config \<Rightarrow> sarama_config" where
  "with_tls t sc = sc\<lparr>scf_TLS_Enable := True, scf_TLS_Config := Some t\<rparr>"

text \<open>
  The source writes the settings for the login and for TLS out three times, once in each of the
  three constructors; so does the model.
\<close>

definition producer_user_sasl :: "SASL \<Rightarrow> sarama_config \<Rightarrow> sarama_config" where
  "producer_user_sasl s sc =
     (let sc = sc\<lparr>scf_SASL_Enable := True, scf_SASL_Handshake := True\<rparr>;
          m = sasl_Mechanism s;
          sc = (if m = ''scram-sha256'' \<or> m = ''scram-sha-256'' \<or> m = ''sha256'' then
                  sc\<lparr>scf_SASL_SCRAM := Some SHA256, scf_SASL_Mechanism := SASLTypeSCRAMSHA256\<rparr>
                else if m = ''scram-sha512'' \<or> m = ''scram-sha-512'' \<or> m = ''sha512'' then
                  sc\<lparr>scf_SASL_SCRAM := Some SHA512, scf_SASL_Mechanism := SASLTypeSCRAMSHA512\<rparr>
                else sc\<lparr>scf_SASL_Mechanism := SASLTypePlaintext\<rparr>)
      in sc\<lparr>scf_SASL_User := sasl_User s, scf_SASL_Password := sasl_Password s\<rparr>)"

definition producer_sasl :: "ConnectorConfig \<Rightarrow> sarama_config \<Rightarrow> sarama_config" where
  "producer_sasl cc sc =
     (if sasl_User (cc_SASL cc) \<noteq> [] then producer_user_sasl (cc_SASL cc) sc
      else if iam_Enable (cc_IAM cc) \<and> iam_Region (cc_IAM cc) \<noteq> [] then
        sc\<lparr>scf_SASL_Enable := True, scf_SASL_Mechanism := SASLTypeOAuth,
           scf_SASL_TokenProvider := Some (iam_Region (cc_IAM cc))\<rparr>
      else sc)"

definition producer_tls :: "tls_io \<Rightarrow> ConnectorConfig \<Rightarrow> sarama_config \<Rightarrow> sarama_config res" where
  "producer_tls io cc sc =
     (let fallback = (if iam_Enable (cc_IAM cc) then with_tls empty_tls sc else sc) in
      if scf_SASL_Enable sc \<and> sasl_InsecureSkipVerify (cc_SASL cc) then Ret (with_tls insecure_tls sc)
      else case make_tls io (cc_TLS cc) of
        Ret (Some tlsC) \<Rightarrow> Ret (with_tls tlsC sc)
      | Ret None \<Rightarrow> Ret fallback
      | Fail e \<Rightarrow> Ret fallback
      | Panic p \<Rightarrow> Panic p)"

definition producer_config ::
  "sarama_config \<Rightarrow> tls_io \<Rightarrow> ConnectorConfig \<Rightarrow> NATSKafkaBridgeConfig \<Rightarrow> sarama_config res" where
  "producer_config NewConfig io cc bc =
     (let sc = NewConfig\<lparr>scf_ReturnSuccesses := True,
            scf_DialTimeout := milliseconds (b_ConnectTimeout bc),
            scf_ClientID := ''nats-kafka-producer''\<rparr>;
          sc = (if cc_Balancer cc = LeastBytes then sc\<lparr>scf_Partitioner := LeastBytesPartitioner\<rparr> else sc);
          sc = producer_sasl cc sc
      in bind_res (producer_tls io cc sc) (\<lambda>sc.
           Ret (if sasl_TLS (cc_SASL cc) then sc\<lparr>scf_TLS_Enable := sasl_TLS (cc_SASL cc)\<rparr> else sc)))"

definition consumer_user_sasl :: "SASL \<Rightarrow> sarama_config \<Rightarrow> sarama_config" where
  "consumer_user_sasl s sc =
     (let sc = sc\<lparr>scf_SASL_Enable := True, scf_SASL_Handshake := True\<rparr>;
          m = sasl_Mechanism s;
          sc = (if m = ''scram-sha256'' \<or> m = ''scram-sha-256'' \<or> m = ''sha256'' then
                  sc\<lparr>scf_SASL_SCRAM := Some SHA256, scf_SASL_Mechanism := SASLTypeSCRAMSHA256\<rparr>
                else if m = ''scram-sha512'' \<or> m = ''scram-sha-512'' \<or> m = ''sha512'' then
                  sc\<lparr>scf_SASL_SCRAM := Some SHA512, scf_SASL_Mechanism := SASLTypeSCRAMSHA512\<rparr>
                else sc\<lparr>scf_SASL_Mechanism := SASLTypePlaintext\<rparr>)
      in sc\<lparr>scf_SASL_User := sasl_User s, scf_SASL_Password := sasl_Password s\<rparr>)"

definition consumer_sasl :: "ConnectorConfig \<Rightarrow> sarama_config \<Rightarrow> sarama_config" where
  "consumer_sasl cc sc =
     (if sasl_User (cc_SASL cc) \<noteq> [] then consumer_user_sasl (cc_SASL cc) sc
      else if iam_Enable (cc_IAM cc) \<and> iam_Region (cc_IAM cc) \<noteq> [] then
        sc\<lparr>scf_SASL_Enable := True, scf_SASL_Mechanism := SASLTypeOAuth,
           scf_SASL_TokenProvider := Some (iam_Region (cc_IAM cc))\<rparr>
      else sc)"

definition consumer_tls :: "tls_io \<Rightarrow> ConnectorConfig \<Rightarrow> sarama_config \<Rightarrow> sarama_config res" where
  "consumer_tls io cc sc =
     (let fallback = (if iam_Enable (cc_IAM cc) then with_tls empty_tls sc else sc) in
      if scf_SASL_Enable sc \<and> sasl_InsecureSkipVerify (cc_SASL cc) then Ret (with_tls insecure_tls sc)
      else case make_tls io (cc_TLS cc) of
        Ret (Some tlsC) \<Rightarrow> Ret (with_tls tlsC sc)
      | Ret None \<Rightarrow> Ret fallback
      | Fail e \<Rightarrow> Ret fallback
      | Panic p \<Rightarrow> Panic p)"

definition consumer_config ::
  "sarama_config \<Rightarrow> tls_io \<Rightarrow> ConnectorConfig \<Rightarrow> int64 \<Rightarrow> sarama_config res" where
  "consumer_config NewConfig io cc dialTimeout =
     (let sc = NewConfig\<lparr>scf_DialTimeout := dialTimeout, scf_ClientID := ''nats-kafka-consumer''\<rparr>;
          sc = consumer_sasl cc sc
      in bind_res (consumer_tls io cc sc) (\<lambda>sc.
           let sc = (if 0 < cc_MinBytes cc then sc\<lparr>scf_Fetch_Min := word_of_int (cc_MinBytes cc)\<rparr> else sc)
           in Ret (if 0 < cc_MaxBytes cc then sc\<lparr>scf_Fetch_Max := word_of_int (cc_MaxBytes cc)\<rparr> else sc)))"

definition manager_user_sasl :: "SASL \<Rightarrow> sarama_config \<Rightarrow> sarama_config" where
  "manager_user_sasl s sc =
     (let sc = sc\<lparr>scf_SASL_Enable := True, scf_SASL_Handshake := True\<rparr>;
          m = sasl_Mechanism s;
          sc = (if m = ''scram-sha256'' \<or> m = ''scram-sha-256'' \<or> m = ''sha256'' then
                  sc\<lparr>scf_SASL_SCRAM := Some SHA256, scf_SASL_Mechanism := SASLTypeSCRAMSHA256\<rparr>
                else if m = ''scram-sha512'' \<or> m = ''scram-sha-512'' \<or> m = ''sha512'' then
                  sc\<lparr>scf_SASL_SCRAM := Some SHA512, scf_SASL_Mechanism := SASLTypeSCRAMSHA512\<rparr>
                else sc\<lparr>scf_SASL_Mechanism := SASLTypePlaintext\<rparr>)
      in sc\<lparr>scf_SASL_User := sasl_User s, scf_SASL_Password := sasl_Password s\<rparr>)"

definition manager_config ::
  "sarama_config \<Rightarrow> tls_io \<Rightarrow> ConnectorConfig \<Rightarrow> NATSKafkaBridgeConfig \<Rightarrow> sarama_config res" where
  "manager_config NewConfig io cc bc =
     (let sc = NewConfig\<lparr>scf_DialTimeout := milliseconds (b_ConnectTimeout bc),
            scf_ClientID := ''nats-kafka-manager''\<rparr>;
          sc = (if sasl_User (cc_SASL cc) \<noteq> [] then manager_user_sasl (cc_SASL cc) sc else sc)
      in if scf_SASL_Enable sc \<and> sasl_InsecureSkipVerify (cc_SASL cc) then Ret (with_tls insecure_tls sc)
         else case make_tls io (cc_TLS cc) of
           Ret (Some tlsC) \<Rightarrow> Ret (with_tls tlsC sc)
         | Ret None \<Rightarrow> Ret sc
         | Fail e \<Rightarrow> Ret sc
         | Panic p \<Rightarrow> Panic p)"

definition NetInfo :: "bool \<Rightarrow> bool \<Rightarrow> bool \<Rightarrow> string" where
  "NetInfo saslOn tlsOn tlsSkipVerify =
     (let saslInfo = (if saslOn then ''SASL enabled'' else ''SASL disabled'');
          tlsInfo = (if tlsOn then ''TLS enabled'' else ''TLS disabled'');
          tlsInfo = (if tlsSkipVerify then tlsInfo @ '' (insecure skip verify)'' else tlsInfo)
      in saslInfo @ '', '' @ tlsInfo)"

text \<open>\<^verbatim>\<open>NewManager\<close>, \<^verbatim>\<open>CreateTopic\<close> and \<^verbatim>\<open>Close\<close> of the topic manager.\<close>

definition NewManager ::
  "env \<Rightarrow> sarama_config \<Rightarrow> tls_io \<Rightarrow> ConnectorConfig \<Rightarrow> NATSKafkaBridgeConfig \<Rightarrow> history \<Rightarrow> history \<times> nat res" where
  "NewManager env NewConfig io cc bc w =
     (case manager_config NewConfig io cc bc of
        Ret sc \<Rightarrow>
          (case call_handle env (NewClusterAdmin (cc_Brokers cc) sc) w of
             (w, Inl e) \<Rightarrow> (w, Fail e)
           | (w, Inr ca) \<Rightarrow> (w, Ret ca))
      | Fail e \<Rightarrow> (w, Fail e)
      | Panic p \<Rightarrow> (w, Panic p))"

definition CreateTopic ::
  "env \<Rightarrow> nat \<Rightarrow> string \<Rightarrow> int \<Rightarrow> int \<Rightarrow> history \<Rightarrow> history \<times> goerr option" where
  "CreateTopic env ca topic partitions replication =
     call_err env (AdminCreateTopic ca topic (word_of_int partitions) (word_of_int replication))"

definition manager_Close :: "env \<Rightarrow> nat \<Rightarrow> history \<Rightarrow> history \<times> goerr option" where
  "manager_Close env ca = call_err env (AdminClose ca)"

text \<open>
  The SCRAM client handed to the library (\<^verbatim>\<open>scram_client.go\<close>) and the token provider for IAM
  (\<^verbatim>\<open>iam_token_provider.go\<close>). The scram and signer packages are arguments: making a client from
  the hash function and the credentials, starting a conversation, its step and whether it is over.
\<close>

record ('c, 'v) XDGSCRAMClient =
  sc_Client :: "'c option"
  sc_ClientConversation :: "'v option"
  sc_HashGeneratorFcn :: hash_fn

definition Begin ::
  "(hash_fn \<Rightarrow> string \<Rightarrow> string \<Rightarrow> string \<Rightarrow> goerr + 'c) \<Rightarrow> ('c \<Rightarrow> 'v) \<Rightarrow> string \<Rightarrow> string \<Rightarrow> string \<Rightarrow>
   ('c, 'v) XDGSCRAMClient \<Rightarrow> ('c, 'v) XDGSCRAMClient \<times> goerr option" where
  "Begin NewClient NewConversation userName password authzID x =
     (case NewClient (sc_HashGeneratorFcn x) userName password authzID of
        Inl e \<Rightarrow> (x\<lparr>sc_Client := None\<rparr>, Some e)
      | Inr c \<Rightarrow> (x\<lparr>sc_Client := Some c, sc_ClientConversation := Some (NewConversation c)\<rparr>, None))"

definition Step :: "('v \<Rightarrow> string \<Rightarrow> 'v \<times> (goerr + string)) \<Rightarrow> string \<Rightarrow> ('c, 'v) XDGSCRAMClient \<Rightarrow> ('c, 'v) XDGSCRAMClient \<times> string res" where
  "Step conv_Step challenge x =
     (case sc_ClientConversation x of
        None \<Rightarrow> (x, Panic NilDeref)
      | Some v \<Rightarrow>
         (case conv_Step v challenge of
            (v, Inl e) \<Rightarrow> (x\<lparr>sc_ClientConversation := Some v\<rparr>, Fail e)
          | (v, Inr response) \<Rightarrow> (x\<lparr>sc_ClientConversation := Some v\<rparr>, Ret response)))"

definition Done :: "('v \<Rightarrow> bool) \<Rightarrow> ('c, 'v) XDGSCRAMClient \<Rightarrow> bool res" where
  "Done conv_Done x = (case sc_ClientConversation x of None \<Rightarrow> Panic NilDeref | Some v \<Rightarrow> Ret (conv_Done v))"

definition Token :: "(string \<Rightarrow> string \<times> goerr option) \<Rightarrow> string \<Rightarrow> string \<times> goerr option" where
  "Token GenerateAuthToken Region = GenerateAuthToken Region"

section \<open>Lemmas\<close>

text \<open>What a configuration says about the channel to the broker: who logs in and how it is protected.\<close>

definition net_part :: "sarama_config \<Rightarrow>
  bool \<times> bool \<times> SASLMechanism \<times> hash_fn option \<times> string \<times> string \<times> string option \<times> bool \<times> tls_config option" where
  "net_part sc = (scf_SASL_Enable sc, scf_SASL_Handshake sc, scf_SASL_Mechanism sc, scf_SASL_SCRAM sc, scf_SASL_User sc,
     scf_SASL_Password sc, scf_SASL_TokenProvider sc, scf_TLS_Enable sc, scf_TLS_Config sc)"

lemma net_part_fetch [simp]:
  "net_part (sc\<lparr>scf_Fetch_Min := a\<rparr>) = net_part sc" "net_part (sc\<lparr>scf_Fetch_Max := a\<rparr>) = net_part sc"
  by (simp_all add: net_part_def)

text \<open>The two copies of each block do the same to that part.\<close>

lemma sasl_net:
  "net_part a = net_part b \<Longrightarrow> net_part (producer_sasl cc a) = net_part (consumer_sasl cc b)"
  by (simp add: net_part_def producer_sasl_def consumer_sasl_def producer_user_sasl_def consumer_user_sasl_def Let_def)

lemma tls_net:
  assumes "net_part a = net_part b"
  shows "(case producer_tls io cc a of Ret x \<Rightarrow> Ret (net_part x) | Fail e \<Rightarrow> Fail e | Panic p \<Rightarrow> Panic p) =
    (case consumer_tls io cc b of Ret x \<Rightarrow> Ret (net_part x) | Fail e \<Rightarrow> Fail e | Panic p \<Rightarrow> Panic p)"
  using assms
  by (auto simp: producer_tls_def consumer_tls_def net_part_def with_tls_def Let_def split: res.splits option.splits)

lemma producer_sasl_tls [simp]:
  "scf_TLS_Enable (producer_sasl cc sc) = scf_TLS_Enable sc" "scf_TLS_Config (producer_sasl cc sc) = scf_TLS_Config sc"
  by (simp_all add: producer_sasl_def producer_user_sasl_def Let_def)

section \<open>Properties\<close>

text \<open>C33. A producer and a consumer made from the same connector configuration talk to the broker over
  the same kind of channel (same login, same TLS settings), as long as \<^verbatim>\<open>sasl.tls\<close> is not set:
  the two configuration blocks agree although they are written out twice.\<close>

theorem producer_consumer_agree:
  assumes "\<not> sasl_TLS (cc_SASL cc)" and "producer_config NewConfig io cc bc = Ret p"
    and "consumer_config NewConfig io cc d = Ret c"
  shows "net_part p = net_part c"
proof -
  let ?a = "producer_sasl cc (if cc_Balancer cc = LeastBytes
      then NewConfig\<lparr>scf_ReturnSuccesses := True, scf_DialTimeout := milliseconds (b_ConnectTimeout bc),
        scf_ClientID := ''nats-kafka-producer'', scf_Partitioner := LeastBytesPartitioner\<rparr>
      else NewConfig\<lparr>scf_ReturnSuccesses := True, scf_DialTimeout := milliseconds (b_ConnectTimeout bc),
        scf_ClientID := ''nats-kafka-producer''\<rparr>)"
  let ?b = "consumer_sasl cc (NewConfig\<lparr>scf_DialTimeout := d, scf_ClientID := ''nats-kafka-consumer''\<rparr>)"
  have "net_part ?a = net_part ?b" by (rule sasl_net) (simp add: net_part_def)
  from tls_net [OF this, of io cc]
  show ?thesis using assms
    by (auto simp: producer_config_def consumer_config_def Let_def go_simps)
qed

definition plain_config :: sarama_config where
  "plain_config = \<lparr>scf_ClientID = ''sarama'', scf_DialTimeout = 0, scf_ReturnSuccesses = False,
     scf_Partitioner = LibraryPartitioner, scf_SASL_Enable = False, scf_SASL_Handshake = True,
     scf_SASL_Mechanism = NoMechanism, scf_SASL_SCRAM = None, scf_SASL_User = [], scf_SASL_Password = [],
     scf_SASL_TokenProvider = None, scf_TLS_Enable = False, scf_TLS_Config = None,
     scf_Fetch_Min = 1, scf_Fetch_Max = 0\<rparr>"

definition no_files :: tls_io where
  "no_files = \<lparr>LoadX509KeyPair = (\<lambda>_ _. Inl (ExtErr ''no such file'')), ParseCertificate = (\<lambda>_. None),
     ReadFile = (\<lambda>_. Inl (ExtErr ''no such file''))\<rparr>"

definition scram_cc :: ConnectorConfig where
  "scram_cc = zero_ConnectorConfig\<lparr>cc_SASL := zero_SASL\<lparr>sasl_User := ''u'', sasl_Password := ''p'',
     sasl_Mechanism := ''sha512''\<rparr>, cc_TLS := \<lparr>tls_Key = ''k.pem'', tls_Cert = ''c.pem'', tls_Root = []\<rparr>\<rparr>"

lemmas net_example_defs = plain_config_def no_files_def scram_cc_def zero_config_defs

theorem producer_consumer_agree_witness:
  "\<exists>p c. producer_config plain_config no_files scram_cc DefaultBridgeConfig = Ret p \<and>
    consumer_config plain_config no_files scram_cc 0 = Ret c \<and> net_part p = net_part c"
proof -
  obtain p where p: "producer_config plain_config no_files scram_cc DefaultBridgeConfig = Ret p"
    by (simp add: producer_config_def producer_tls_def MakeTLSConfig_def net_example_defs Let_def)
  obtain c where c: "consumer_config plain_config no_files scram_cc 0 = Ret c"
    by (simp add: consumer_config_def consumer_tls_def MakeTLSConfig_def net_example_defs Let_def)
  have "\<not> sasl_TLS (cc_SASL scram_cc)" by (simp add: net_example_defs)
  from producer_consumer_agree [OF this p c] p c show ?thesis by blast
qed

text \<open>TLS key material that cannot be loaded is ignored: the error of \<^verbatim>\<open>MakeTLSConfig\<close> is
  dropped, and the producer is configured for a connection without TLS over which the SASL
  credentials of the connector are sent.\<close>

theorem tls_error_downgrades_producer:
  assumes "make_tls io (cc_TLS cc) = Fail e" and "sasl_User (cc_SASL cc) \<noteq> []"
    and "\<not> sasl_InsecureSkipVerify (cc_SASL cc)" and "\<not> iam_Enable (cc_IAM cc)" and "\<not> sasl_TLS (cc_SASL cc)"
    and "\<not> scf_TLS_Enable NewConfig"
  shows "\<exists>sc. producer_config NewConfig io cc bc = Ret sc \<and> scf_SASL_Enable sc \<and>
    scf_SASL_Password sc = sasl_Password (cc_SASL cc) \<and> \<not> scf_TLS_Enable sc"
  using assms by (simp add: producer_config_def producer_tls_def producer_sasl_def producer_user_sasl_def Let_def)

theorem tls_error_downgrades_producer_witness:
  "\<exists>sc. producer_config plain_config no_files scram_cc DefaultBridgeConfig = Ret sc \<and> scf_SASL_Enable sc \<and>
    scf_SASL_Password sc = sasl_Password (cc_SASL scram_cc) \<and> \<not> scf_TLS_Enable sc"
  by (rule tls_error_downgrades_producer [where e = "Wrapf ''error loading X509 certificate/key pair: %v'' [] (ExtErr ''no such file'')"])
    (simp_all add: MakeTLSConfig_def net_example_defs)

end
