(* ===== verification/Strconv.thy ===== *)
theory Strconv
  imports Prelude
begin

text \<open>
  Decimal conversion, as Go's \<^verbatim>\<open>strconv.Itoa\<close> and \<^verbatim>\<open>strconv.Atoi\<close> do it: the bridge prints
  schema ids and ports and parses integers given as strings in the configuration file.
\<close>

section \<open>Definitions\<close>

definition digit :: "nat \<Rightarrow> char" where
  "digit d = char_of (48 + d)"

fun utoa :: "nat \<Rightarrow> string" where
  "utoa n = (if n < 10 then [digit n] else utoa (n div 10) @ [digit (n mod 10)])"

declare utoa.simps [simp del]

definition Itoa :: "int \<Rightarrow> string" where
  "Itoa i = (if i < 0 then CHR ''-'' # utoa (nat (- i)) else utoa (nat i))"

definition is_digit :: "char \<Rightarrow> bool" where
  "is_digit c \<longleftrightarrow> (let n = (of_char c :: nat) in 48 \<le> n \<and> n \<le> 57)"

fun atou_loop :: "nat \<Rightarrow> string \<Rightarrow> nat option" where
  "atou_loop acc [] = Some acc"
| "atou_loop acc (c # s) =
     (if is_digit c then atou_loop (10 * acc + (of_char c - 48)) s else None)"

definition atou :: "string \<Rightarrow> nat option" where
  "atou s = (if s = [] then None else atou_loop 0 s)"

text \<open>\<^verbatim>\<open>strconv.Atoi\<close>: an optional sign, decimal digits, a value that fits in an \<^verbatim>\<open>int\<close>.\<close>

definition Atoi :: "string \<Rightarrow> int option" where
  "Atoi s =
     (let (neg, ds) =
        (case s of c # r \<Rightarrow> if c = CHR ''-'' then (True, r) else if c = CHR ''+'' then (False, r) else (False, s)
         | [] \<Rightarrow> (False, s))
      in case atou ds of
           None \<Rightarrow> None
         | Some n \<Rightarrow>
             let i = (if neg then - int n else int n)
             in if - (2 ^ 63) \<le> i \<and> i < 2 ^ 63 then Some i else None)"

section \<open>Lemmas\<close>

lemma of_char_digit [simp]: "d < 10 \<Longrightarrow> of_char (digit d) = 48 + d"
  by (simp add: digit_def)

lemma is_digit_digit [simp]: "d < 10 \<Longrightarrow> is_digit (digit d)"
  by (simp add: is_digit_def)

lemma utoa_nonempty [simp]: "utoa n \<noteq> []"
  by (subst utoa.simps) simp

lemma utoa_digits: "c \<in> set (utoa n) \<Longrightarrow> is_digit c"
proof (induction n rule: utoa.induct)
  case (1 n)
  then show ?case by (auto simp: utoa.simps [of n] split: if_splits)
qed

lemma atou_loop_append:
  "atou_loop acc (s @ [digit d]) = map_option (\<lambda>m. 10 * m + d) (atou_loop acc s)" if "d < 10"
  using that by (induction s arbitrary: acc) simp_all

lemma atou_loop_utoa: "atou_loop 0 (utoa n) = Some n"
proof (induction n rule: utoa.induct)
  case (1 n)
  then show ?case by (cases "n < 10") (simp_all add: utoa.simps [of n] atou_loop_append)
qed

lemma atou_utoa [simp]: "atou (utoa n) = Some n"
  by (simp add: atou_def atou_loop_utoa)

lemma utoa_head: "utoa n = c # s \<Longrightarrow> c \<noteq> CHR ''-'' \<and> c \<noteq> CHR ''+''"
proof -
  assume "utoa n = c # s"
  then have "is_digit c" using utoa_digits [of c n] by simp
  then show ?thesis by (auto simp: is_digit_def)
qed

lemma Atoi_Itoa: "- (2 ^ 63) \<le> i \<Longrightarrow> i < 2 ^ 63 \<Longrightarrow> Atoi (Itoa i) = Some i"
proof (cases "i < 0")
  case False
  assume h: "- (2 ^ 63) \<le> i" "i < 2 ^ 63"
  obtain c s where u: "utoa (nat i) = c # s" using utoa_nonempty by (cases "utoa (nat i)") auto
  have "atou (c # s) = Some (nat i)" using atou_utoa [of "nat i"] u by simp
  then show ?thesis using False h utoa_head [OF u] by (simp add: Atoi_def Itoa_def u)
qed (simp add: Atoi_def Itoa_def)

lemma Itoa_inject [simp]: "Itoa i = Itoa j \<longleftrightarrow> i = j"
proof
  assume e: "Itoa i = Itoa j"
  have u: "utoa m = utoa n \<longleftrightarrow> m = n" for m n by (metis atou_utoa option.inject)
  have n: "utoa m \<noteq> CHR ''-'' # s" for m s using utoa_head [of m "CHR ''-''" s] by auto
  show "i = j" using e n n [symmetric] by (auto simp: Itoa_def u split: if_splits)
qed simp

end
