(* ===== verification/Protobuf.thy ===== *)
theory Protobuf
  imports Wire Strconv
begin

text \<open>
  Protobuf payloads: \<^verbatim>\<open>server/kafka/pb_schema_manager.go\<close>, \<^verbatim>\<open>pb_serializer.go\<close> and
  \<^verbatim>\<open>pb_deserializer.go\<close>. The schema manager is a process-wide cache from schema ids to file
  descriptors; the functions take it and return it. A schema is what the registry client hands
  out, read through its id and text. A descriptor is read through its accessors: its name, its
  fully qualified name and its nested message types.

  The protobuf library (outside the repository) is the argument \<open>lib\<close>: parsing a schema text,
  and the four conversions between a message's JSON form, its in-memory form \<open>'m\<close> and its wire
  bytes. \<open>TempFile\<close> is the outcome of creating, writing and closing the temporary schema file.
\<close>

section \<open>Definitions\<close>

record schema =
  sc_ID :: int
  sc_Schema :: string

datatype msgdesc = MsgDesc (GetName: string) (GetFullyQualifiedName: string)
  (GetNestedMessageTypes: "msgdesc list")

type_synonym filedesc = "msgdesc list"
type_synonym pb_cache = "(string, filedesc) gomap"

record 'm pb_lib =
  TempFile :: "string \<Rightarrow> goerr option"
  ParseFiles :: "string \<Rightarrow> goerr + filedesc list"
  UnmarshalJSON :: "msgdesc \<Rightarrow> bytes \<Rightarrow> goerr + 'm"
  Marshal :: "'m \<Rightarrow> goerr + bytes"
  Unmarshal :: "msgdesc \<Rightarrow> bytes \<Rightarrow> goerr + 'm"
  MarshalJSON :: "'m \<Rightarrow> goerr + bytes"

fun of_sum :: "goerr + 'a \<Rightarrow> 'a res" where
  "of_sum (Inl e) = Fail e"
| "of_sum (Inr x) = Ret x"

definition getFileDescriptor ::
  "'m pb_lib \<Rightarrow> schema \<Rightarrow> pb_cache \<Rightarrow> pb_cache \<times> filedesc res" where
  "getFileDescriptor lib schema cache =
     (let packedSchemaID = Itoa (sc_ID schema) in
      case map_of cache packedSchemaID of
        Some fd \<Rightarrow> (cache, Ret fd)
      | None \<Rightarrow>
         (case TempFile lib (sc_Schema schema) of
            Some e \<Rightarrow> (cache, Fail e)
          | None \<Rightarrow>
             (case ParseFiles lib (sc_Schema schema) of
                Inl e \<Rightarrow> (cache, Fail e)
              | Inr [] \<Rightarrow> (cache, Panic IndexOutOfRange)
              | Inr (fd # _) \<Rightarrow> (map_put packedSchemaID fd cache, Ret fd))))"

definition getMessageDescriptor ::
  "'m pb_lib \<Rightarrow> schema \<Rightarrow> pb_cache \<Rightarrow> pb_cache \<times> msgdesc res" where
  "getMessageDescriptor lib schema cache =
     (case getFileDescriptor lib schema cache of
        (cache, r) \<Rightarrow>
          (cache, bind_res r (\<lambda>fd. case fd of [] \<Rightarrow> Panic IndexOutOfRange | md # _ \<Rightarrow> Ret md)))"

text \<open>
  The position of the first message type called \<open>part\<close>, counted from \<open>i\<close>, and the message
  indexes of a dotted name: one varint for every part that names a top-level message type,
  written into an eight-byte buffer, and their number.
\<close>

fun index_of_part :: "string \<Rightarrow> int64 \<Rightarrow> msgdesc list \<Rightarrow> int64 option" where
  "index_of_part part i [] = None"
| "index_of_part part i (mType # ms) =
     (if GetName mType = part then Some i else index_of_part part (i + 1) ms)"

definition put_varint8 :: "int64 \<Rightarrow> bytes res" where
  "put_varint8 i = (let b = PutVarint i in if 8 < length b then Panic IndexOutOfRange else Ret b)"

fun message_indexes :: "msgdesc list \<Rightarrow> string list \<Rightarrow> (int64 \<times> bytes) res" where
  "message_indexes messageTypes [] = Ret (0, [])"
| "message_indexes messageTypes (part # parts) =
     (case index_of_part part 0 messageTypes of
        None \<Rightarrow> message_indexes messageTypes parts
      | Some i \<Rightarrow>
          bind_res (put_varint8 i) (\<lambda>b.
          bind_res (message_indexes messageTypes parts) (\<lambda>(n, bs). Ret (n + 1, b @ bs))))"

definition buildMessageIndexes ::
  "'m pb_lib \<Rightarrow> schema \<Rightarrow> string \<Rightarrow> pb_cache \<Rightarrow> pb_cache \<times> (bytes \<times> bytes) res" where
  "buildMessageIndexes lib schema name cache =
     (case getFileDescriptor lib schema cache of
        (cache, r) \<Rightarrow>
          (cache, bind_res r (\<lambda>fd.
             bind_res (message_indexes fd (Split (CHR ''.'') name)) (\<lambda>(indexesCount, messageIndex).
             bind_res (put_varint8 indexesCount) (\<lambda>countBytes. Ret (countBytes, messageIndex))))))"

definition Serialize ::
  "'m pb_lib \<Rightarrow> schema \<Rightarrow> bytes \<Rightarrow> pb_cache \<Rightarrow> pb_cache \<times> bytes res" where
  "Serialize lib schema payload cache =
     (case getMessageDescriptor lib schema cache of
        (cache, Ret md) \<Rightarrow>
          (case UnmarshalJSON lib md payload of
             Inl e \<Rightarrow> (cache, Fail e)
           | Inr message \<Rightarrow>
              (case buildMessageIndexes lib schema (GetFullyQualifiedName md) cache of
                 (cache, r) \<Rightarrow>
                   (cache, bind_res r (\<lambda>(indexLenBytes, indexBytes).
                      bind_res (of_sum (Marshal lib message)) (\<lambda>protoBytes.
                        Ret (indexLenBytes @ indexBytes @ protoBytes))))))
      | (cache, Fail e) \<Rightarrow> (cache, Fail e)
      | (cache, Panic p) \<Rightarrow> (cache, Panic p))"

text \<open>
  \<open>make([]int64, arrayLength)\<close> panics for a negative length and for one whose size exceeds the
  48-bit address space of the runtime.
\<close>

definition makeslice_ok :: "int64 \<Rightarrow> bool" where
  "makeslice_ok n \<longleftrightarrow> 0 \<le> sint n \<and> sint n \<le> 2 ^ 45"

definition decodeProtobufStructures :: "bytes \<Rightarrow> (int64 list \<times> bytes) res" where
  "decodeProtobufStructures payload =
     (case ReadVarint payload of
        Panic p \<Rightarrow> Panic p
      | Fail e \<Rightarrow> Fail (Wrapf ''unable to read arrayLength: %w'' [] e)
      | Ret (arrayLength, rest) \<Rightarrow>
          if \<not> makeslice_ok arrayLength then Panic MakeSliceLen
          else case read_seq ReadVarint (nat (sint arrayLength)) rest of
            Panic p \<Rightarrow> Panic p
          | Fail e \<Rightarrow> Fail (Wrapf ''unable to read messageTypeID: %w'' [] e)
          | Ret (ids, remaining) \<Rightarrow>
              if remaining = [] then Fail (Wrapf ''unable to read remaining payload: %w'' [] EOFErr)
              else Ret (if arrayLength = 0 then [0] else ids, remaining))"

text \<open>
  Walking down the message types. \<open>messageTypesLen\<close> is computed once, from the top-level types;
  indexing a slice outside its bounds panics.
\<close>

fun walk_types :: "int \<Rightarrow> msgdesc list \<Rightarrow> msgdesc option \<Rightarrow> int64 list \<Rightarrow> msgdesc option res" where
  "walk_types messageTypesLen messageTypes md [] = Ret md"
| "walk_types messageTypesLen messageTypes md (i # is) =
     (if messageTypesLen < sint i then
        Fail (Errorf ''failed to decode message type: message index is larger than message types array length'' [])
      else if sint i < 0 \<or> int (length messageTypes) \<le> sint i then Panic IndexOutOfRange
      else let md = messageTypes ! nat (sint i) in
        walk_types messageTypesLen (GetNestedMessageTypes md) (Some md) is)"

definition getMessageDescriptorFromMessage ::
  "'m pb_lib \<Rightarrow> schema \<Rightarrow> int64 list \<Rightarrow> pb_cache \<Rightarrow> pb_cache \<times> msgdesc res" where
  "getMessageDescriptorFromMessage lib schema messageTypeIndexes cache =
     (case getFileDescriptor lib schema cache of
        (cache, r) \<Rightarrow>
          (cache, bind_res r (\<lambda>fd.
             bind_res (walk_types (int (length fd)) fd None messageTypeIndexes) (\<lambda>md.
               case md of None \<Rightarrow> Panic NilDeref | Some md \<Rightarrow> Ret md))))"

definition Deserialize ::
  "'m pb_lib \<Rightarrow> schema \<Rightarrow> bytes \<Rightarrow> pb_cache \<Rightarrow> pb_cache \<times> bytes res" where
  "Deserialize lib schema payload cache =
     (case decodeProtobufStructures payload of
        Fail e \<Rightarrow> (cache, Fail e)
      | Panic p \<Rightarrow> (cache, Panic p)
      | Ret (indexes, cleanPayload) \<Rightarrow>
         (case getMessageDescriptorFromMessage lib schema indexes cache of
            (cache, r) \<Rightarrow>
              (cache, bind_res r (\<lambda>md.
                 bind_res (of_sum (Unmarshal lib md cleanPayload)) (\<lambda>message.
                   of_sum (MarshalJSON lib message))))))"

section \<open>Lemmas\<close>

lemma getFileDescriptor_cached:
  "getFileDescriptor lib schema cache = (cache', Ret fd) \<Longrightarrow> map_of cache' (Itoa (sc_ID schema)) = Some fd"
  by (auto simp: getFileDescriptor_def Let_def update_conv' split: option.splits sum.splits list.splits)

lemma getFileDescriptor_hit:
  "map_of cache (Itoa (sc_ID schema)) = Some fd \<Longrightarrow> getFileDescriptor lib schema cache = (cache, Ret fd)"
  by (simp add: getFileDescriptor_def Let_def)

lemma makeslice_ok_small: "n < 2 ^ 32 \<Longrightarrow> makeslice_ok (of_nat n) \<and> nat (sint (of_nat n :: int64)) = n"
  by (simp add: makeslice_ok_def signed_of_nat signed_take_bit_int_eq_self)

lemma decode_encoded:
  assumes "length ids < 2 ^ 32" and "rest \<noteq> []"
  shows "decodeProtobufStructures (PutVarint (of_nat (length ids)) @ concat (map PutVarint ids) @ rest) =
    Ret (if ids = [] then [0] else ids, rest)"
proof -
  have z: "(of_nat (length ids) :: int64) = 0 \<longleftrightarrow> ids = []"
  proof
    assume "(of_nat (length ids) :: int64) = 0"
    then have "nat (sint (of_nat (length ids) :: int64)) = 0" by (simp only: sint_0 nat_0)
    then show "ids = []" using makeslice_ok_small [OF assms(1)] by simp
  qed simp
  show ?thesis
    using makeslice_ok_small [OF assms(1)] assms(2) z
    by (simp add: decodeProtobufStructures_def varint.rd_enc varint.read_seq_concat)
qed

lemma decode_encoded_empty:
  assumes "length ids < 2 ^ 32"
  shows "decodeProtobufStructures (PutVarint (of_nat (length ids)) @ concat (map PutVarint ids)) =
    Fail (Wrapf ''unable to read remaining payload: %w'' [] EOFErr)"
  using makeslice_ok_small [OF assms] varint.read_seq_concat [of ids "[]"]
  by (simp add: decodeProtobufStructures_def varint.rd_enc)

lemma length_PutUvarint: "unat y < 2 ^ (7 * Suc k) \<Longrightarrow> length (PutUvarint y) \<le> Suc k"
proof (induction k arbitrary: y)
  case 0
  then show ?case by (simp add: PutUvarint.simps [of y] word_le_nat_alt)
next
  case (Suc k)
  have "unat (drop_bit 7 y) = unat y div 128"
    by (simp only: unat_drop_bit_eq) (simp add: drop_bit_eq_div)
  also have "\<dots> < 2 ^ (7 * Suc k)" using Suc.prems by (simp add: div_less_iff_less_mult power_add mult.commute)
  finally have "length (PutUvarint (drop_bit 7 y)) \<le> Suc k" by (rule Suc.IH)
  then show ?case by (simp add: PutUvarint.simps [of y])
qed

lemma zigzag_nat: "n < 2 ^ 32 \<Longrightarrow> unat (zigzag (of_nat n)) = 2 * n"
proof -
  assume h: "n < 2 ^ 32"
  then have s: "sint (of_nat n :: int64) = int n" by (simp add: signed_of_nat signed_take_bit_int_eq_self)
  have "zigzag (of_nat n) = of_nat (2 * n)" using s by (simp add: zigzag_def Let_def mult.commute)
  moreover have "unat (of_nat (2 * n) :: uint64) = 2 * n"
    using h by (simp only: unsigned_of_nat) (simp add: take_bit_nat_eq_self)
  ultimately show ?thesis by metis
qed

lemma put_varint8_nat: "n < 2 ^ 32 \<Longrightarrow> put_varint8 (of_nat n) = Ret (PutVarint (of_nat n))"
proof -
  assume h: "n < 2 ^ 32"
  then have "unat (zigzag (of_nat n)) < 2 ^ (7 * Suc 7)" using zigzag_nat [OF h] by simp
  then have "length (PutVarint (of_nat n)) \<le> 8" using length_PutUvarint [of "zigzag (of_nat n)" 7] by (simp add: PutVarint_def)
  then show ?thesis by (simp add: put_varint8_def Let_def)
qed

lemma index_of_part_bound:
  "index_of_part part i ms = Some j \<Longrightarrow> \<exists>k < length ms. j = i + of_nat k \<and> GetName (ms ! k) = part"
proof (induction ms arbitrary: i)
  case (Cons m ms)
  then show ?case
  proof (cases "GetName m = part")
    case False
    then obtain k where "k < length ms" "j = i + 1 + of_nat k" "GetName (ms ! k) = part"
      using Cons.IH [of "i + 1"] Cons.prems by auto
    then show ?thesis by (intro exI [of _ "Suc k"]) (simp add: add.assoc)
  qed (auto intro: exI [of _ 0])
qed simp

lemma index_of_part_None: "part \<notin> GetName ` set ms \<Longrightarrow> index_of_part part i ms = None"
  by (induction ms arbitrary: i) auto

abbreviation part_ids :: "msgdesc list \<Rightarrow> string list \<Rightarrow> int64 list" where
  "part_ids ms parts \<equiv> List.map_filter (\<lambda>p. index_of_part p 0 ms) parts"

lemma message_indexes_eq:
  assumes "length ms < 2 ^ 32"
  shows "message_indexes ms parts =
    Ret (of_nat (length (part_ids ms parts)), concat (map PutVarint (part_ids ms parts)))"
proof (induction parts)
  case (Cons p parts)
  show ?case
  proof (cases "index_of_part p 0 ms")
    case (Some i)
    then obtain k where "k < length ms" "i = of_nat k" using index_of_part_bound [OF Some] by auto
    then have "put_varint8 i = Ret (PutVarint i)" using assms put_varint8_nat [of k] by simp
    then show ?thesis using Cons Some by (simp add: add.commute)
  qed (simp add: Cons)
qed simp

text \<open>
  The parts of a fully qualified name in front of the message's own name are its package; when
  none of them is also the name of a message type of the file, the indexes are those of the
  message alone.
\<close>

definition package_clear :: "filedesc \<Rightarrow> msgdesc \<Rightarrow> bool" where
  "package_clear fd md \<longleftrightarrow>
     (\<exists>pkg. Split (CHR ''.'') (GetFullyQualifiedName md) = pkg @ [GetName md] \<and>
            set pkg \<inter> GetName ` set fd = {})"

lemma part_ids_first: "package_clear (md # ms) md \<Longrightarrow> part_ids (md # ms) (Split (CHR ''.'') (GetFullyQualifiedName md)) = [0]"
proof -
  assume "package_clear (md # ms) md"
  then obtain pkg where pkg: "Split (CHR ''.'') (GetFullyQualifiedName md) = pkg @ [GetName md]"
    "set pkg \<inter> GetName ` set (md # ms) = {}" by (auto simp: package_clear_def)
  have "part_ids (md # ms) pkg = []"
    using pkg(2)
  proof (induction pkg)
    case (Cons a pkg)
    then have "index_of_part a 0 (md # ms) = None" by (intro index_of_part_None) auto
    then show ?case using Cons by (simp del: index_of_part.simps)
  qed simp
  moreover have "List.map_filter f (xs @ ys) = List.map_filter f xs @ List.map_filter f ys"
    for f :: "string \<Rightarrow> int64 option" and xs ys by (induction xs) (simp_all split: option.split)
  ultimately show ?thesis by (simp add: pkg(1))
qed

lemma Serialize_first:
  assumes "getFileDescriptor lib schema cache = (cache', Ret (md # ms))" and "length (md # ms) < 2 ^ 32"
    and "package_clear (md # ms) md"
    and "UnmarshalJSON lib md payload = Inr m" and "Marshal lib m = Inr wire"
  shows "Serialize lib schema payload cache = (cache', Ret (PutVarint 1 @ PutVarint 0 @ wire))"
proof -
  have "getFileDescriptor lib schema cache' = (cache', Ret (md # ms))"
    using getFileDescriptor_cached [OF assms(1)] by (rule getFileDescriptor_hit)
  moreover have "message_indexes (md # ms) (Split (CHR ''.'') (GetFullyQualifiedName md)) = Ret (1, PutVarint 0)"
    using message_indexes_eq [OF assms(2)] part_ids_first [OF assms(3)] by simp
  moreover have "put_varint8 1 = Ret (PutVarint 1)" using put_varint8_nat [of 1] by simp
  ultimately show ?thesis using assms
    by (simp add: Serialize_def getMessageDescriptor_def buildMessageIndexes_def)
qed

section \<open>Properties\<close>

text \<open>C19. What the protobuf serializer writes the deserializer reads back: when the library unmarshals the
  wire bytes it marshalled and those are not empty, and no part of the message's package is also the
  name of a message type, deserializing the serialized payload, with the descriptor cache the
  serializer left, gives the JSON form of the message; the message indexes in between select the first
  message type of the schema again.\<close>

theorem protobuf_roundtrip:
  assumes "getFileDescriptor lib schema cache = (cache', Ret (md # ms))" and "length (md # ms) < 2 ^ 32"
    and "package_clear (md # ms) md"
    and "UnmarshalJSON lib md payload = Inr m" and "Marshal lib m = Inr wire" and "wire \<noteq> []"
    and "Unmarshal lib md wire = Inr m" and "MarshalJSON lib m = Inr json"
  shows "\<exists>b. Serialize lib schema payload cache = (cache', Ret b) \<and>
    Deserialize lib schema b cache' = (cache', Ret json)"
proof -
  have hit: "getFileDescriptor lib schema cache' = (cache', Ret (md # ms))"
    using getFileDescriptor_cached [OF assms(1)] by (rule getFileDescriptor_hit)
  have "decodeProtobufStructures (PutVarint 1 @ PutVarint 0 @ wire) = Ret ([0], wire)"
    using decode_encoded [of "[0]" wire] assms(6) by simp
  then have "Deserialize lib schema (PutVarint 1 @ PutVarint 0 @ wire) cache' = (cache', Ret json)"
    using hit assms(7,8) by (simp add: Deserialize_def getMessageDescriptorFromMessage_def)
  then show ?thesis using Serialize_first [OF assms(1-5)] by blast
qed

definition snack_desc :: msgdesc where
  "snack_desc = MsgDesc ''Snack'' ''Snack'' []"

definition demo_lib :: "bytes \<Rightarrow> bytes pb_lib" where
  "demo_lib wire = \<lparr>TempFile = (\<lambda>_. None), ParseFiles = (\<lambda>_. Inr [[snack_desc]]),
     UnmarshalJSON = (\<lambda>_ b. Inr b), Marshal = (\<lambda>_. Inr wire), Unmarshal = (\<lambda>_ _. Inr [7]),
     MarshalJSON = (\<lambda>m. Inr m)\<rparr>"

definition snack_schema :: schema where
  "snack_schema = \<lparr>sc_ID = 3, sc_Schema = ''message Snack {}''\<rparr>"

lemma demo_lib_fd:
  "getFileDescriptor (demo_lib wire) snack_schema [] = ([(''3'', [snack_desc])], Ret [snack_desc])"
  by code_simp

lemma demo_clear: "package_clear [snack_desc] snack_desc"
  by (auto simp: package_clear_def snack_desc_def)

theorem protobuf_roundtrip_witness:
  "\<exists>b. Serialize (demo_lib [10, 1]) snack_schema [7] [] = ([(''3'', [snack_desc])], Ret b) \<and>
    Deserialize (demo_lib [10, 1]) snack_schema b [(''3'', [snack_desc])] = ([(''3'', [snack_desc])], Ret [7])"
  by (rule protobuf_roundtrip [OF demo_lib_fd, where wire = "[10, 1]" and m = "[7]"])
    (simp_all add: demo_clear, simp_all add: demo_lib_def)

text \<open>A message whose wire form is empty (every field at its default) does not survive the trip: the
  serializer writes it, but the deserializer refuses what was written, because reading the remaining
  payload from an exhausted reader is \<^verbatim>\<open>io.EOF\<close>.\<close>

theorem protobuf_empty_message_rejected:
  assumes "getFileDescriptor lib schema cache = (cache', Ret (md # ms))" and "length (md # ms) < 2 ^ 32"
    and "package_clear (md # ms) md"
    and "UnmarshalJSON lib md payload = Inr m" and "Marshal lib m = Inr []"
  shows "\<exists>b. Serialize lib schema payload cache = (cache', Ret b) \<and>
    Deserialize lib schema b cache' =
      (cache', Fail (Wrapf ''unable to read remaining payload: %w'' [] EOFErr))"
proof -
  have "decodeProtobufStructures (PutVarint 1 @ PutVarint 0) =
      Fail (Wrapf ''unable to read remaining payload: %w'' [] EOFErr)"
    using decode_encoded_empty [of "[0]"] by simp
  then show ?thesis using Serialize_first [OF assms] by (simp add: Deserialize_def)
qed

theorem protobuf_empty_message_rejected_witness:
  "\<exists>b. Serialize (demo_lib []) snack_schema [7] [] = ([(''3'', [snack_desc])], Ret b) \<and>
    Deserialize (demo_lib []) snack_schema b [(''3'', [snack_desc])] =
      ([(''3'', [snack_desc])], Fail (Wrapf ''unable to read remaining payload: %w'' [] EOFErr))"
  by (rule protobuf_empty_message_rejected [OF demo_lib_fd, where m = "[7]"])
    (simp_all add: demo_clear, simp_all add: demo_lib_def)

text \<open>The guard on a message index is off by one: a payload whose index equals the number of top-level
  message types passes the guard and makes the deserializer panic with an index out of range instead
  of returning the error meant for it.\<close>

theorem message_index_guard_panics:
  assumes "getFileDescriptor lib schema cache = (cache', Ret fd)" and "length fd < 2 ^ 32"
    and "rest \<noteq> []"
  shows "Deserialize lib schema (PutVarint 1 @ PutVarint (of_nat (length fd)) @ rest) cache =
    (cache', Panic IndexOutOfRange)"
proof -
  have "decodeProtobufStructures (PutVarint 1 @ PutVarint (of_nat (length fd)) @ rest) =
      Ret ([of_nat (length fd)], rest)"
    using decode_encoded [of "[of_nat (length fd)]" rest] assms(3) by simp
  moreover have "sint (of_nat (length fd) :: int64) = int (length fd)"
    using assms(2) by (simp add: signed_of_nat signed_take_bit_int_eq_self)
  ultimately show ?thesis using assms(1)
    by (simp add: Deserialize_def getMessageDescriptorFromMessage_def)
qed

theorem message_index_guard_panics_witness:
  "Deserialize (demo_lib []) snack_schema (PutVarint 1 @ PutVarint (of_nat (length [snack_desc])) @ [0]) [] =
    ([(''3'', [snack_desc])], Panic IndexOutOfRange)"
  by (rule message_index_guard_panics [OF demo_lib_fd]) simp_all

end
