(* ===== verification/KafkaClient.thy ===== *)
theory KafkaClient
  imports KafkaNet Protobuf
begin

text \<open>
  The bridge's Kafka producer and consumer: \<^verbatim>\<open>server/kafka/producer.go\<close> and
  \<^verbatim>\<open>server/kafka/consumer.go\<close>, less the goroutines of the consumer group (theory
  \<open>ConsumerGroup\<close>). The schema registry client, the Avro codec and the JSON schema validator are
  libraries outside the repository; they are the fields of the argument \<open>cd\<close>, together with the
  protobuf library of theory \<open>Protobuf\<close>, and with what lies behind a record's value in the buffer the
  client library sliced it from (\<open>behind\<close>): Go bounds a slice expression by the capacity of the slice,
  not by its length. The process-wide cache of protobuf descriptors is passed
  along with the history.
\<close>

section \<open>Library interfaces\<close>

record 'n avro_codec =
  NativeFromTextual :: "bytes \<Rightarrow> goerr + 'n"
  BinaryFromNative :: "'n \<Rightarrow> goerr + bytes"
  NativeFromBinary :: "bytes \<Rightarrow> goerr + 'n"
  TextualFromNative :: "'n \<Rightarrow> goerr + bytes"

record ('n, 'j, 'm) codecs =
  GetSchemaByVersion :: "string \<Rightarrow> int \<Rightarrow> goerr + schema"
  GetLatestSchema :: "string \<Rightarrow> goerr + schema"
  GetSchema :: "int \<Rightarrow> goerr + schema"
  Json_String :: string
  Protobuf_String :: string
  Codec :: "schema \<Rightarrow> 'n avro_codec option"
  CompileString :: "string \<Rightarrow> goerr + ('j \<Rightarrow> goerr option)"
  json_Unmarshal :: "bytes \<Rightarrow> goerr + 'j"
  behind :: "bytes \<Rightarrow> bytes"
  pb :: "'m pb_lib"

datatype SchemaType = NoSchemaType | Avro | Json | Protobuf

section \<open>The producer\<close>

record saramaProducer =
  sp_sp :: nat
  sp_topic :: string
  sp_saslOn :: bool
  sp_tlsOn :: bool
  sp_tlsSkipVerify :: bool
  sp_schemaRegistryOn :: bool
  sp_subjectName :: string
  sp_schemaVersion :: int
  sp_schemaType :: SchemaType

datatype Producer = SaramaProducer saramaProducer | ErroredProducer goerr

definition schema_type_of :: "('n, 'j, 'm) codecs \<Rightarrow> string \<Rightarrow> SchemaType" where
  "schema_type_of cd t =
     (let u = ToUpper t in
      if u = Json_String cd then Json else if u = Protobuf_String cd then Protobuf else Avro)"

definition NewProducer ::
  "env \<Rightarrow> ('n, 'j, 'm) codecs \<Rightarrow> sarama_config \<Rightarrow> tls_io \<Rightarrow> ConnectorConfig \<Rightarrow> NATSKafkaBridgeConfig \<Rightarrow>
   string \<Rightarrow> history \<Rightarrow> history \<times> saramaProducer res" where
  "NewProducer env cd NewConfig io cc bc topic w =
     (case producer_config NewConfig io cc bc of
        Ret sc \<Rightarrow>
          (case call_handle env (NewSyncProducer (cc_Brokers cc) sc) w of
             (w, Inl e) \<Rightarrow> (w, Fail e)
           | (w, Inr sp) \<Rightarrow>
              let prod = \<lparr>sp_sp = sp, sp_topic = topic, sp_saslOn = scf_SASL_Enable sc,
                    sp_tlsOn = scf_TLS_Enable sc,
                    sp_tlsSkipVerify = sasl_InsecureSkipVerify (cc_SASL cc),
                    sp_schemaRegistryOn = False, sp_subjectName = [], sp_schemaVersion = 0,
                    sp_schemaType = NoSchemaType\<rparr>
              in (w, Ret (if cc_SchemaRegistryURL cc \<noteq> [] \<and> cc_SubjectName cc \<noteq> [] then
                       prod\<lparr>sp_subjectName := cc_SubjectName cc,
                            sp_schemaVersion := cc_SchemaVersion cc,
                            sp_schemaType := schema_type_of cd (cc_SchemaType cc),
                            sp_schemaRegistryOn := True\<rparr>
                     else prod)))
      | Fail e \<Rightarrow> (w, Fail e)
      | Panic p \<Rightarrow> (w, Panic p))"

definition producer_NetInfo :: "saramaProducer \<Rightarrow> string" where
  "producer_NetInfo p = NetInfo (sp_saslOn p) (sp_tlsOn p) (sp_tlsSkipVerify p)"

definition serializeAvro :: "('n, 'j, 'm) codecs \<Rightarrow> schema \<Rightarrow> bytes \<Rightarrow> bytes res" where
  "serializeAvro cd schema payload =
     (case Codec cd schema of
        None \<Rightarrow> Panic NilDeref
      | Some codec \<Rightarrow>
         (case NativeFromTextual codec payload of
            Inl e \<Rightarrow> Fail (Wrapf ''unable to serialize json: %w'' [] e)
          | Inr native \<Rightarrow>
             (case BinaryFromNative codec native of
                Inl e \<Rightarrow> Fail (Wrapf ''failed to convert to avro: %w'' [] e)
              | Inr value \<Rightarrow> Ret value)))"

definition producer_schema :: "('n, 'j, 'm) codecs \<Rightarrow> saramaProducer \<Rightarrow> goerr + schema" where
  "producer_schema cd p =
     (if sp_schemaRegistryOn p \<and> sp_schemaVersion p \<noteq> 0
      then GetSchemaByVersion cd (sp_subjectName p) (sp_schemaVersion p)
      else GetLatestSchema cd (sp_subjectName p))"

definition serializePayload ::
  "('n, 'j, 'm) codecs \<Rightarrow> saramaProducer \<Rightarrow> bytes \<Rightarrow> pb_cache \<Rightarrow> pb_cache \<times> bytes res" where
  "serializePayload cd p jsonPayload cache =
     (case producer_schema cd p of
        Inl e \<Rightarrow> (cache, Fail e)
      | Inr schema \<Rightarrow>
         let schemaIDBytes = PutUint32 (word_of_int (sc_ID schema)) in
         (case (case sp_schemaType p of
                  Avro \<Rightarrow> (cache, serializeAvro cd schema jsonPayload)
                | Json \<Rightarrow> (cache, Ret jsonPayload)
                | Protobuf \<Rightarrow> Serialize (pb cd) schema jsonPayload cache
                | NoSchemaType \<Rightarrow> (cache, Ret [])) of
            (cache, r) \<Rightarrow> (cache, bind_res r (\<lambda>valueBytes. Ret ([0] @ schemaIDBytes @ valueBytes)))))"

definition subjectHeaderKey :: string where "subjectHeaderKey = ''subject''"

fun find_subject :: "RecordHeader list \<Rightarrow> string option" where
  "find_subject [] = None"
| "find_subject (h # hs) =
     (if bytes_str (rh_Key h) = subjectHeaderKey
      then Some (case rh_Value h of None \<Rightarrow> [] | Some v \<Rightarrow> bytes_str v)
      else find_subject hs)"

definition refineKeyWithSubjectHeader :: "bytes \<Rightarrow> RecordHeader list \<Rightarrow> bytes" where
  "refineKeyWithSubjectHeader key headers =
     (if key = [] \<or> last key \<noteq> of_nat (of_char (CHR ''>'')) then key
      else case find_subject headers of
        None \<Rightarrow> key
      | Some subject \<Rightarrow>
         let subjTokens = Split (CHR ''.'') subject in
         if length subjTokens < 5 then key
         else str_bytes (Join (take 5 subjTokens) (CHR ''.'') @ ''.>''))"

definition sarama_Write ::
  "env \<Rightarrow> ('n, 'j, 'm) codecs \<Rightarrow> saramaProducer \<Rightarrow> Message \<Rightarrow> pb_cache \<times> history \<Rightarrow>
   (pb_cache \<times> history) \<times> unit res" where
  "sarama_Write env cd p m s =
     (let (cache, w) = s in
      case (if sp_schemaRegistryOn p then serializePayload cd p (m_Value m) cache
            else (cache, Ret (m_Value m))) of
        (cache, Ret valueEncoder) \<Rightarrow>
          (let key = refineKeyWithSubjectHeader (m_Key m) (m_Headers m) in
           case call_err env (SendMessage (sp_sp p)
                  \<lparr>pm_Topic = sp_topic p, pm_Value = valueEncoder, pm_Key = key,
                   pm_Headers = m_Headers m\<rparr>) w of
             (w, None) \<Rightarrow> ((cache, w), Ret ())
           | (w, Some e) \<Rightarrow> ((cache, w), Fail e))
      | (cache, Fail e) \<Rightarrow> ((cache, w), Fail e)
      | (cache, Panic x) \<Rightarrow> ((cache, w), Panic x))"

definition sarama_Close :: "env \<Rightarrow> saramaProducer \<Rightarrow> history \<Rightarrow> history \<times> goerr option" where
  "sarama_Close env p = call_err env (ProducerClose (sp_sp p))"

definition errored_Write :: "goerr \<Rightarrow> Message \<Rightarrow> pb_cache \<times> history \<Rightarrow> (pb_cache \<times> history) \<times> unit res" where
  "errored_Write err m s = (s, Fail err)"

definition errored_Close :: "goerr \<Rightarrow> history \<Rightarrow> history \<times> goerr option" where
  "errored_Close err w = (w, Some err)"

fun Write ::
  "env \<Rightarrow> ('n, 'j, 'm) codecs \<Rightarrow> Producer \<Rightarrow> Message \<Rightarrow> pb_cache \<times> history \<Rightarrow>
   (pb_cache \<times> history) \<times> unit res" where
  "Write env cd (SaramaProducer p) m s = sarama_Write env cd p m s"
| "Write env cd (ErroredProducer e) m s = errored_Write e m s"

fun producer_Close :: "env \<Rightarrow> Producer \<Rightarrow> history \<Rightarrow> history \<times> goerr option" where
  "producer_Close env (SaramaProducer p) w = sarama_Close env p w"
| "producer_Close env (ErroredProducer e) w = errored_Close e w"

section \<open>The consumer\<close>

text \<open>A channel of the consumer: not made, open, or closed.\<close>

datatype channel = NilChannel | OpenChannel | ClosedChannel

record saramaConsumer =
  co_groupMode :: bool
  co_topic :: string
  co_saslOn :: bool
  co_tlsOn :: bool
  co_tlsSkipVerify :: bool
  co_c :: "nat option"
  co_pc :: "nat option"
  co_cg :: "nat option"
  co_fetchCh :: channel
  co_commitCh :: channel
  co_cancel :: bool
  co_schemaRegistryOn :: bool
  co_schemaType :: SchemaType

definition NewConsumer ::
  "env \<Rightarrow> ('n, 'j, 'm) codecs \<Rightarrow> sarama_config \<Rightarrow> tls_io \<Rightarrow> ConnectorConfig \<Rightarrow> int64 \<Rightarrow> history \<Rightarrow>
   history \<times> saramaConsumer res" where
  "NewConsumer env cd NewConfig io cc dialTimeout w =
     (case consumer_config NewConfig io cc dialTimeout of
        Ret sc \<Rightarrow>
          (let cons = \<lparr>co_groupMode = (cc_GroupID cc \<noteq> []), co_topic = cc_Topic cc,
                 co_saslOn = scf_SASL_Enable sc, co_tlsOn = scf_TLS_Enable sc,
                 co_tlsSkipVerify = sasl_InsecureSkipVerify (cc_SASL cc),
                 co_c = None, co_pc = None, co_cg = None,
                 co_fetchCh = NilChannel, co_commitCh = NilChannel, co_cancel = False,
                 co_schemaRegistryOn = False, co_schemaType = NoSchemaType\<rparr>;
               cons = (if cc_SchemaRegistryURL cc \<noteq> [] \<and> cc_SubjectName cc \<noteq> [] then
                   cons\<lparr>co_schemaType := schema_type_of cd (cc_SchemaType cc),
                        co_schemaRegistryOn := True\<rparr> else cons)
           in if co_groupMode cons then
                (case call_handle env (NewConsumerGroup (cc_Brokers cc) (cc_GroupID cc) sc) w of
                   (w, Inl e) \<Rightarrow> (w, Fail e)
                 | (w, Inr cg) \<Rightarrow>
                     (w, Ret (cons\<lparr>co_cg := Some cg, co_fetchCh := OpenChannel, co_commitCh := OpenChannel, co_cancel := True\<rparr>)))
              else
                (case call_handle env (NewSaramaConsumer (cc_Brokers cc) sc) w of
                   (w, Inl e) \<Rightarrow> (w, Fail e)
                 | (w, Inr c) \<Rightarrow>
                    (case call_handle env (ConsumePartition c (cc_Topic cc) (word_of_int (cc_Partition cc))) w of
                       (w, Inl e) \<Rightarrow> (w, Fail e)
                     | (w, Inr pc) \<Rightarrow> (w, Ret (cons\<lparr>co_c := Some c, co_pc := Some pc\<rparr>)))))
      | Fail e \<Rightarrow> (w, Fail e)
      | Panic p \<Rightarrow> (w, Panic p))"

definition consumer_NetInfo :: "saramaConsumer \<Rightarrow> string" where
  "consumer_NetInfo c = NetInfo (co_saslOn c) (co_tlsOn c) (co_tlsSkipVerify c)"

definition deserializeAvro :: "('n, 'j, 'm) codecs \<Rightarrow> schema \<Rightarrow> bytes \<Rightarrow> bytes res" where
  "deserializeAvro cd schema cleanPayload =
     (case Codec cd schema of
        None \<Rightarrow> Panic NilDeref
      | Some codec \<Rightarrow>
         (case NativeFromBinary codec cleanPayload of
            Inl e \<Rightarrow> Fail (Wrapf ''unable to deserailize avro: %w'' [] e)
          | Inr native \<Rightarrow>
             (case TextualFromNative codec native of
                Inl e \<Rightarrow> Fail (Wrapf ''failed to convert to json: %w'' [] e)
              | Inr value \<Rightarrow> Ret value)))"

definition validateJSONSchema :: "('n, 'j, 'm) codecs \<Rightarrow> schema \<Rightarrow> bytes \<Rightarrow> bytes res" where
  "validateJSONSchema cd schema cleanPayload =
     (case CompileString cd (sc_Schema schema) of
        Inl e \<Rightarrow> Fail (Wrapf ''unable to parse json schema: %w'' [] e)
      | Inr validate \<Rightarrow>
         (case json_Unmarshal cd cleanPayload of
            Inl e \<Rightarrow> Fail (Wrapf ''unable to parse json message: %w'' [] e)
          | Inr parsedMessage \<Rightarrow>
             (case validate parsedMessage of
                Some e \<Rightarrow> Fail (Wrapf ''json message validation failed: %w'' [] e)
              | None \<Rightarrow> Ret cleanPayload)))"

text \<open>\<^verbatim>\<open>payload[1:5]\<close> may reach behind a short payload, \<^verbatim>\<open>payload[5:]\<close> may not.\<close>

definition deserializePayload ::
  "('n, 'j, 'm) codecs \<Rightarrow> saramaConsumer \<Rightarrow> bytes \<Rightarrow> pb_cache \<Rightarrow> pb_cache \<times> bytes res" where
  "deserializePayload cd c payload cache =
     (if payload = [] then (cache, Panic IndexOutOfRange)
      else if hd payload \<noteq> 0 then
        (cache, Fail (Errorf ''failed to deserialize payload: magic byte is not 0'' []))
      else if length (payload @ behind cd payload) < 5 then (cache, Panic SliceBounds)
      else case Uint32 (take 4 (drop 1 (payload @ behind cd payload))) of
        Ret schemaID \<Rightarrow>
          (case GetSchema cd (uint schemaID) of
             Inl e \<Rightarrow> (cache, Fail e)
           | Inr schema \<Rightarrow>
              (if co_schemaType c = NoSchemaType then (cache, Ret [])
               else if length payload < 5 then (cache, Panic SliceBounds)
               else case co_schemaType c of
                 Avro \<Rightarrow> (cache, deserializeAvro cd schema (drop 5 payload))
               | Json \<Rightarrow> (cache, validateJSONSchema cd schema (drop 5 payload))
               | Protobuf \<Rightarrow> Deserialize (pb cd) schema (drop 5 payload) cache
               | NoSchemaType \<Rightarrow> (cache, Ret [])))
      | Fail e \<Rightarrow> (cache, Fail e)
      | Panic p \<Rightarrow> (cache, Panic p))"

definition convertToMessageHeaders :: "RecordHeader list \<Rightarrow> RecordHeader list" where
  "convertToMessageHeaders consumerHeaders = map (\<lambda>element. element) consumerHeaders"

text \<open>
  \<open>Fetch\<close> waits for the first of: the context is cancelled, a message arrives (from the group's
  channel or the partition consumer; a closed channel delivers nil), the group's loop reports an
  error. What arrived is the argument; outside group mode the third cannot happen.
\<close>

datatype arrival = Done | Arrived "ConsumerMessage option" | LoopErr goerr

definition Fetch ::
  "('n, 'j, 'm) codecs \<Rightarrow> saramaConsumer \<Rightarrow> arrival \<Rightarrow> pb_cache \<Rightarrow> pb_cache \<times> Message res" where
  "Fetch cd c a cache =
     (case a of
        Done \<Rightarrow> (cache, Fail CtxCanceled)
      | LoopErr loopErr \<Rightarrow> (cache, Fail loopErr)
      | Arrived None \<Rightarrow> (cache, Panic NilDeref)
      | Arrived (Some cmsg) \<Rightarrow>
         (case (if co_schemaRegistryOn c then deserializePayload cd c (cm_Value cmsg) cache
                else (cache, Ret (cm_Value cmsg))) of
            (cache, r) \<Rightarrow>
              (cache, bind_res r (\<lambda>deserializedValue.
                 Ret \<lparr>m_Topic = cm_Topic cmsg, m_Partition = sint (cm_Partition cmsg),
                      m_Offset = cm_Offset cmsg, m_Key = cm_Key cmsg, m_Value = deserializedValue,
                      m_Headers = convertToMessageHeaders (cm_Headers cmsg)\<rparr>))))"

text \<open>
  \<open>Commit\<close> hands the message to the goroutine that waits for it; the answer to the request tells
  whether it took the message, the context was cancelled, or the loop reported an error.
\<close>

definition commit_message :: "Message \<Rightarrow> ConsumerMessage" where
  "commit_message m = \<lparr>cm_Topic = m_Topic m, cm_Partition = word_of_int (m_Partition m),
     cm_Offset = m_Offset m, cm_Key = m_Key m, cm_Value = m_Value m, cm_Headers = []\<rparr>"

definition Commit :: "env \<Rightarrow> saramaConsumer \<Rightarrow> Message \<Rightarrow> history \<Rightarrow> history \<times> goerr option" where
  "Commit env c m w =
     (if \<not> co_groupMode c then (w, Some (Errorf ''commit is only available in group mode'' []))
      else call_err env (CommitMessage (case co_cg c of None \<Rightarrow> 0 | Some h \<Rightarrow> h) (commit_message m)) w)"

definition GroupMode :: "saramaConsumer \<Rightarrow> bool" where
  "GroupMode c = co_groupMode c"

text \<open>Closing a channel panics unless it is open. In group mode \<open>Close\<close> closes both channels, cancels the
  context of the group's loop and closes the group.\<close>

fun close_channel :: "channel \<Rightarrow> channel res" where
  "close_channel OpenChannel = Ret ClosedChannel"
| "close_channel NilChannel = Panic NilDeref"
| "close_channel ClosedChannel = Panic CloseOfClosed"

definition close_channels :: "saramaConsumer \<Rightarrow> saramaConsumer res" where
  "close_channels c =
     bind_res (close_channel (co_fetchCh c)) (\<lambda>f. bind_res (close_channel (co_commitCh c)) (\<lambda>m.
       if co_cancel c then Ret (c\<lparr>co_fetchCh := f, co_commitCh := m\<rparr>) else Panic NilDeref))"

definition consumer_Close :: "env \<Rightarrow> saramaConsumer \<Rightarrow> history \<Rightarrow> (saramaConsumer \<times> history) \<times> unit res" where
  "consumer_Close env c w =
     (let result = (\<lambda>c (w, e). ((c, w), case e of None \<Rightarrow> Ret () | Some e \<Rightarrow> Fail e)) in
      if co_groupMode c then
        (case close_channels c of
           Ret c \<Rightarrow>
             (case co_cg c of
                None \<Rightarrow> ((c, w), Panic NilDeref)
              | Some cg \<Rightarrow> result c (call_err env (GroupClose cg) w))
         | Fail e \<Rightarrow> ((c, w), Fail e)
         | Panic p \<Rightarrow> ((c, w), Panic p))
      else case co_pc c of
        None \<Rightarrow> ((c, w), Panic NilDeref)
      | Some pc \<Rightarrow>
         (case co_c c of
            None \<Rightarrow> ((c, w), Panic NilDeref)
          | Some k \<Rightarrow>
             (case call_err env (PartitionClose pc) w of
                (w, Some e) \<Rightarrow> ((c, fst (call_err env (SaramaConsumerClose k) w)), Fail e)
              | (w, None) \<Rightarrow> result c (call_err env (SaramaConsumerClose k) w))))"

section \<open>The contract of a producer\<close>

text \<open>
  What the connectors rely on when they write: a write that reports success has made exactly one
  send, which the broker accepted; one that reports a failure (or panics) has made none that was
  accepted. Closing changes nothing but the history. Both kinds of producer meet the contract.
\<close>

definition accepted :: "request \<times> answer \<Rightarrow> bool" where
  "accepted x \<longleftrightarrow> (case x of (SendMessage _ _, Err None) \<Rightarrow> True | _ \<Rightarrow> False)"

definition sends :: "history \<Rightarrow> nat" where
  "sends w = length (filter accepted w)"

lemma sends_append [simp]: "sends (a @ b) = sends a + sends b"
  by (simp add: sends_def)

lemma sends_simps [simp]: "sends [] = 0" "sends (x # w) = (if accepted x then 1 else 0) + sends w"
  by (simp_all add: sends_def)

locale producer =
  fixes wr :: "'msg \<Rightarrow> 'c \<times> history \<Rightarrow> ('c \<times> history) \<times> unit res"
  assumes write_success: "wr m (c, w) = ((c', w'), Ret ()) \<Longrightarrow>
      \<exists>h pm. w' = w @ [(SendMessage h pm, Err None)]"
    and write_failure: "wr m (c, w) = ((c', w'), r) \<Longrightarrow> r \<noteq> Ret () \<Longrightarrow>
      w' = w \<or> (\<exists>h pm e. w' = w @ [(SendMessage h pm, Err (Some e))])"
begin

lemma write_extends: "wr m (c, w) = ((c', w'), r) \<Longrightarrow> prefix w w'"
  using write_success write_failure by (cases "r = Ret ()") (fastforce simp: prefix_def)+

lemma write_sends:
  assumes "wr m (c, w) = ((c', w'), r)"
  shows "sends w' = sends w + (if r = Ret () then 1 else 0)"
proof (cases "r = Ret ()")
  case True
  then obtain h pm where "w' = w @ [(SendMessage h pm, Err None)]" using assms write_success by blast
  then show ?thesis using True by (simp add: accepted_def)
next
  case False
  then consider "w' = w" | h pm e where "w' = w @ [(SendMessage h pm, Err (Some e))]"
    using assms write_failure by blast
  then show ?thesis using False by cases (simp_all add: accepted_def)
qed

end

lemma sarama_Write_success:
  assumes "sarama_Write env cd p m (c, w) = ((c', w'), Ret ())"
  shows "\<exists>h pm. w' = w @ [(SendMessage h pm, Err None)]"
  using assms by (auto simp: sarama_Write_def call_err_def Let_def split: prod.splits res.splits option.splits)

lemma sarama_Write_failure:
  assumes "sarama_Write env cd p m (c, w) = ((c', w'), r)" and "r \<noteq> Ret ()"
  shows "w' = w \<or> (\<exists>h pm e. w' = w @ [(SendMessage h pm, Err (Some e))])"
  using assms by (auto simp: sarama_Write_def call_err_def Let_def split: prod.splits res.splits option.splits)

interpretation prod: producer "Write env cd p" for env cd p
proof (unfold_locales, goal_cases)
  case (1 m c w c' w')
  then show ?case by (cases p) (auto simp: errored_Write_def dest: sarama_Write_success)
next
  case (2 m c w c' w' r)
  then show ?case by (cases p) (auto simp: errored_Write_def dest: sarama_Write_failure)
qed

section \<open>Lemmas on keys\<close>

abbreviation wildcard_key :: "bytes \<Rightarrow> bool" where
  "wildcard_key k \<equiv> k \<noteq> [] \<and> last k = of_nat (of_char (CHR ''>''))"

abbreviation tokens :: "string \<Rightarrow> string list" where
  "tokens subject \<equiv> Split (CHR ''.'') subject"

lemma refine_wildcard:
  assumes "wildcard_key key" and "find_subject headers = Some subject" and "5 \<le> length (tokens subject)"
  shows "refineKeyWithSubjectHeader key headers = str_bytes (Join (take 5 (tokens subject)) (CHR ''.'') @ ''.>'')"
  using assms by (simp add: refineKeyWithSubjectHeader_def)

lemma Join_take_inject:
  assumes "5 \<le> length (tokens s)" and "5 \<le> length (tokens t)"
  shows "Join (take 5 (tokens s)) (CHR ''.'') = Join (take 5 (tokens t)) (CHR ''.'') \<longleftrightarrow>
    take 5 (tokens s) = take 5 (tokens t)"
proof -
  have "Split (CHR ''.'') (Join (take 5 (tokens u)) (CHR ''.'')) = take 5 (tokens u)" for u
    by (rule Split_Join) (auto dest: in_set_takeD Split_no_sep)
  then show ?thesis by metis
qed

section \<open>Lemmas on payload framing\<close>

lemma deserialize_framed:
  assumes "GetSchema cd (uint (v :: uint32)) = Inr schema"
  shows "deserializePayload cd c ([0] @ PutUint32 v @ body) cache =
    (case co_schemaType c of
       Avro \<Rightarrow> (cache, deserializeAvro cd schema body)
     | Json \<Rightarrow> (cache, validateJSONSchema cd schema body)
     | Protobuf \<Rightarrow> Deserialize (pb cd) schema body cache
     | NoSchemaType \<Rightarrow> (cache, Ret []))"
proof -
  have "take 4 (PutUint32 v @ body @ more) = PutUint32 v @ []" for more by simp
  moreover have "drop 5 (0 # PutUint32 v @ body) = body" by (simp add: drop_Cons')
  ultimately show ?thesis using assms Uint32_PutUint32 [of v "[]"]
    by (cases "co_schemaType c") (simp_all add: deserializePayload_def)
qed

lemma Uint32_not_Fail: "Uint32 b \<noteq> Fail e"
  by (cases b rule: Uint32.cases) simp_all

lemma short_payload:
  assumes "length v < 5" and "v = [] \<or> hd v = 0" and "co_schemaType c \<noteq> NoSchemaType"
  shows "\<exists>r. deserializePayload cd c v cache = (cache, r) \<and>
    ((\<exists>p. r = Panic p) \<or> (\<exists>i e. GetSchema cd i = Inl e \<and> r = Fail e)) \<and>
    (length (v @ behind cd v) < 5 \<longrightarrow> (\<exists>p. r = Panic p))"
  using assms Uint32_not_Fail [of "take 4 (drop 1 (v @ behind cd v))"]
  by (cases "Uint32 (take 4 (drop 1 (v @ behind cd v)))") (auto simp: deserializePayload_def split: sum.splits)

lemma uint_schema_id: "0 \<le> i \<Longrightarrow> i < 2 ^ 32 \<Longrightarrow> uint (word_of_int i :: uint32) = i"
  by (simp add: unsigned_of_int take_bit_int_eq_self)

section \<open>Properties\<close>

text \<open>C18. Messages are keyed by vehicle: for two wildcard keys whose messages carry a subject of at least
  five tokens, the keys written to Kafka are equal exactly when the first five tokens of the
  subjects are, whatever the original keys were.\<close>

theorem refined_keys_by_prefix:
  assumes "wildcard_key k1" and "find_subject h1 = Some s1" and "5 \<le> length (tokens s1)"
    and "wildcard_key k2" and "find_subject h2 = Some s2" and "5 \<le> length (tokens s2)"
  shows "refineKeyWithSubjectHeader k1 h1 = refineKeyWithSubjectHeader k2 h2 \<longleftrightarrow>
    take 5 (tokens s1) = take 5 (tokens s2)"
  using refine_wildcard [OF assms(1-3)] refine_wildcard [OF assms(4-6)]
    Join_take_inject [OF assms(3,6)] by simp

definition subject_header :: "string \<Rightarrow> RecordHeader list" where
  "subject_header s = [\<lparr>rh_Key = str_bytes ''subject'', rh_Value = Some (str_bytes s)\<rparr>]"

lemma find_subject_header [simp]: "find_subject (subject_header s) = Some s"
  by (simp add: subject_header_def subjectHeaderKey_def)

theorem refined_keys_by_prefix_witness:
  "refineKeyWithSubjectHeader (str_bytes ''S.G.19.C2.>'') (subject_header ''S.G.19.C2.01-2.x'') =
     refineKeyWithSubjectHeader (str_bytes ''S.>'') (subject_header ''S.G.19.C2.01-2.y.z'') \<longleftrightarrow>
   take 5 (tokens ''S.G.19.C2.01-2.x'') = take 5 (tokens ''S.G.19.C2.01-2.y.z'')"
  by (rule refined_keys_by_prefix) (simp_all add: str_bytes_def)

text \<open>Key refinement touches nothing else: the key is returned unchanged when it does not end in the
  wildcard, when there is no subject header or when the subject has fewer than five tokens, and
  refining a refined key again changes nothing.\<close>

theorem refine_key_stable:
  "(\<not> wildcard_key key \<or> find_subject hs = None \<or> (\<exists>s. find_subject hs = Some s \<and> length (tokens s) < 5) \<longrightarrow>
      refineKeyWithSubjectHeader key hs = key) \<and>
   refineKeyWithSubjectHeader (refineKeyWithSubjectHeader key hs) hs = refineKeyWithSubjectHeader key hs"
proof -
  have "\<exists>s. find_subject hs = Some s \<and> length (tokens s) < 5" if "\<not> 5 \<le> length (tokens t)" "find_subject hs = Some t" for t
    using that by auto
  then show ?thesis
    by (auto simp: refineKeyWithSubjectHeader_def Let_def str_bytes_def split: option.splits)
qed

theorem refine_key_stable_witness:
  "refineKeyWithSubjectHeader (str_bytes ''S.>'') (subject_header ''S.G.19.C2'') = str_bytes ''S.>''"
proof -
  have "find_subject (subject_header ''S.G.19.C2'') = Some ''S.G.19.C2'' \<and> length (tokens ''S.G.19.C2'') < 5" by simp
  then show ?thesis using refine_key_stable [of "str_bytes ''S.>''" "subject_header ''S.G.19.C2''"] by blast
qed

text \<open>C20. An Avro payload survives the trip through Kafka, whether the producer uses the latest schema of its
  subject or a fixed version. When the registry knows the schema under its identifier, the consumer
  looks that schema up and gives its codec exactly the binary form the producer's codec made of the
  payload, and returns the textual form of what the codec decodes. In particular it is the textual form of
  the value the producer parsed, if the codec decodes the binary form it made of that value to the value.\<close>

theorem avro_roundtrip:
  assumes "producer_schema cd p = Inr schema"
    and "GetSchema cd (sc_ID schema) = Inr schema" and "0 \<le> sc_ID schema" and "sc_ID schema < 2 ^ 32"
    and "sp_schemaType p = Avro" and "co_schemaType c = Avro"
    and "Codec cd schema = Some codec"
    and "serializePayload cd p payload cache = (cache', Ret rec)"
  shows "\<exists>n b. NativeFromTextual codec payload = Inr n \<and> BinaryFromNative codec n = Inr b \<and>
    deserializePayload cd c rec cache' = (cache', case NativeFromBinary codec b of
        Inl e \<Rightarrow> Fail (Wrapf ''unable to deserailize avro: %w'' [] e)
      | Inr n' \<Rightarrow> (case TextualFromNative codec n' of
            Inr t \<Rightarrow> Ret t | Inl e \<Rightarrow> Fail (Wrapf ''failed to convert to json: %w'' [] e))) \<and>
    (\<forall>t. NativeFromBinary codec b = Inr n \<and> TextualFromNative codec n = Inr t \<longrightarrow>
      deserializePayload cd c rec cache' = (cache', Ret t))"
proof -
  obtain n b where n: "NativeFromTextual codec payload = Inr n" "BinaryFromNative codec n = Inr b"
      "rec = [0] @ PutUint32 (word_of_int (sc_ID schema)) @ b"
    using assms(1,5,7,8)
    by (auto simp: serializePayload_def serializeAvro_def go_simps split: sum.splits)
  have "GetSchema cd (uint (word_of_int (sc_ID schema) :: uint32)) = Inr schema"
    using assms(2-4) uint_schema_id by simp
  then have "deserializePayload cd c rec cache' = (cache', deserializeAvro cd schema b)"
    unfolding n(3) using assms(6) by (subst deserialize_framed) simp_all
  then show ?thesis using n assms(7)
    by (auto simp: deserializeAvro_def split: sum.splits)
qed

definition flip_codec :: "bytes avro_codec" where
  "flip_codec = \<lparr>NativeFromTextual = Inr, BinaryFromNative = (\<lambda>n. Inr (rev n)),
     NativeFromBinary = (\<lambda>b. Inr (rev b)), TextualFromNative = Inr\<rparr>"

definition demo_cd :: "(bytes, bytes, bytes) codecs" where
  "demo_cd = \<lparr>GetSchemaByVersion = (\<lambda>_ _. Inr snack_schema), GetLatestSchema = (\<lambda>_. Inr snack_schema),
     GetSchema = (\<lambda>_. Inr snack_schema), Json_String = ''JSON'', Protobuf_String = ''PROTOBUF'',
     Codec = (\<lambda>_. Some flip_codec), CompileString = (\<lambda>_. Inr (\<lambda>_. None)), json_Unmarshal = Inr,
     behind = (\<lambda>_. []), pb = demo_lib [10, 1]\<rparr>"

definition demo_producer :: saramaProducer where
  "demo_producer = \<lparr>sp_sp = 0, sp_topic = ''t'', sp_saslOn = False, sp_tlsOn = False,
     sp_tlsSkipVerify = False, sp_schemaRegistryOn = True, sp_subjectName = ''s'', sp_schemaVersion = 0,
     sp_schemaType = Avro\<rparr>"

definition demo_consumer :: saramaConsumer where
  "demo_consumer = \<lparr>co_groupMode = True, co_topic = ''t'', co_saslOn = False, co_tlsOn = False,
     co_tlsSkipVerify = False, co_c = None, co_pc = None, co_cg = Some 0,
     co_fetchCh = OpenChannel, co_commitCh = OpenChannel, co_cancel = True, co_schemaRegistryOn = True,
     co_schemaType = Avro\<rparr>"

lemmas demo_defs = flip_codec_def demo_cd_def demo_producer_def demo_consumer_def snack_schema_def

theorem avro_roundtrip_witness:
  "deserializePayload demo_cd demo_consumer ([0] @ PutUint32 3 @ [2, 1]) [] = ([], Ret [1, 2])"
proof -
  let ?p = "demo_producer\<lparr>sp_schemaVersion := 2\<rparr>"
  have run: "serializePayload demo_cd ?p [1, 2] [] = ([], Ret ([0] @ PutUint32 3 @ [2, 1]))"
    by (simp add: demo_defs serializePayload_def producer_schema_def serializeAvro_def)
  have "producer_schema demo_cd ?p = Inr snack_schema" "GetSchema demo_cd (sc_ID snack_schema) = Inr snack_schema"
      "0 \<le> sc_ID snack_schema" "sc_ID snack_schema < 2 ^ 32" "sp_schemaType ?p = Avro" "co_schemaType demo_consumer = Avro"
      "Codec demo_cd snack_schema = Some flip_codec"
    by (simp_all add: demo_defs producer_schema_def)
  from avro_roundtrip [OF this run] show ?thesis by (auto simp: flip_codec_def)
qed

text \<open>A JSON payload survives the trip: whatever the producer frames, the consumer gives back unchanged,
  provided it validates against the schema it was written under.\<close>

theorem json_roundtrip:
  assumes "producer_schema cd p = Inr schema"
    and "GetSchema cd (sc_ID schema) = Inr schema" and "0 \<le> sc_ID schema" and "sc_ID schema < 2 ^ 32"
    and "sp_schemaType p = Json" and "co_schemaType c = Json"
  shows "\<exists>rec. serializePayload cd p payload cache = (cache, Ret rec) \<and>
    deserializePayload cd c rec cache = (cache, validateJSONSchema cd schema payload) \<and>
    (\<forall>v. validateJSONSchema cd schema payload = Ret v \<longrightarrow> v = payload)"
proof -
  let ?rec = "[0] @ PutUint32 (word_of_int (sc_ID schema)) @ payload"
  have "GetSchema cd (uint (word_of_int (sc_ID schema) :: uint32)) = Inr schema"
    using assms(2-4) uint_schema_id by simp
  then have "deserializePayload cd c ?rec cache = (cache, validateJSONSchema cd schema payload)"
    using assms(6) by (subst deserialize_framed) simp_all
  moreover have "serializePayload cd p payload cache = (cache, Ret ?rec)"
    using assms(1,5) by (simp add: serializePayload_def)
  moreover have "\<forall>v. validateJSONSchema cd schema payload = Ret v \<longrightarrow> v = payload"
    by (auto simp: validateJSONSchema_def split: sum.splits option.splits)
  ultimately show ?thesis by blast
qed

theorem json_roundtrip_witness:
  "\<exists>rec. serializePayload demo_cd (demo_producer\<lparr>sp_schemaType := Json\<rparr>) [5] [] = ([], Ret rec) \<and>
    deserializePayload demo_cd (demo_consumer\<lparr>co_schemaType := Json\<rparr>) rec [] =
      ([], validateJSONSchema demo_cd snack_schema [5]) \<and>
    (\<forall>v. validateJSONSchema demo_cd snack_schema [5] = Ret v \<longrightarrow> v = [5])"
  by (rule json_roundtrip) (auto simp: demo_defs producer_schema_def)

text \<open>With the schema registry on, a Kafka record shorter than the five-byte frame whose first byte is
  the magic byte, or an empty record, never becomes a message: \<^verbatim>\<open>Fetch\<close> panics, unless the bytes
  that follow the value in its buffer happen to complete an identifier that the registry does not
  know. When nothing follows it, it always panics.\<close>

theorem short_record_panics:
  assumes "co_schemaRegistryOn c" and "co_schemaType c \<noteq> NoSchemaType" and "length (cm_Value cmsg) < 5"
    and "cm_Value cmsg = [] \<or> hd (cm_Value cmsg) = 0"
  shows "\<exists>r. Fetch cd c (Arrived (Some cmsg)) cache = (cache, r) \<and>
    ((\<exists>p. r = Panic p) \<or> (\<exists>i e. GetSchema cd i = Inl e \<and> r = Fail e)) \<and>
    (length (cm_Value cmsg @ behind cd (cm_Value cmsg)) < 5 \<longrightarrow> (\<exists>p. r = Panic p))"
  using short_payload [OF assms(3,4,2), of cd cache] assms(1) by (auto simp: Fetch_def)

theorem short_record_panics_witness:
  "\<exists>p. Fetch demo_cd demo_consumer (Arrived (Some \<lparr>cm_Topic = ''t'', cm_Partition = 0, cm_Offset = 7,
      cm_Key = [], cm_Value = [], cm_Headers = []\<rparr>)) [] = ([], Panic p)"
proof -
  let ?m = "\<lparr>cm_Topic = ''t'', cm_Partition = 0, cm_Offset = 7, cm_Key = [], cm_Value = [], cm_Headers = []\<rparr>"
  have "co_schemaRegistryOn demo_consumer" "co_schemaType demo_consumer \<noteq> NoSchemaType" "length (cm_Value ?m) < 5"
      "cm_Value ?m = [] \<or> hd (cm_Value ?m) = 0"
    by (simp_all add: demo_defs)
  from short_record_panics [OF this, of demo_cd "[]"] show ?thesis by (auto simp: demo_cd_def)
qed

text \<open>C7. A write that reports success has made exactly one send and the broker accepted it: the record goes
  to the producer's topic, with the message's headers and the refined key, and carries the message's
  value, framed when the schema registry is on. A write that reports a failure has no accepted send.\<close>

theorem write_reports_delivery:
  assumes "Write env cd (SaramaProducer p) m (cache, w) = ((cache', w'), r)"
  shows "(r = Ret () \<longrightarrow> (\<exists>v. w' = w @ [(SendMessage (sp_sp p) \<lparr>pm_Topic = sp_topic p, pm_Value = v,
          pm_Key = refineKeyWithSubjectHeader (m_Key m) (m_Headers m), pm_Headers = m_Headers m\<rparr>, Err None)] \<and>
        (if sp_schemaRegistryOn p then serializePayload cd p (m_Value m) cache = (cache', Ret v) else v = m_Value m))) \<and>
    sends w' = sends w + (if r = Ret () then 1 else 0)"
proof
  show "r = Ret () \<longrightarrow> (\<exists>v. w' = w @ [(SendMessage (sp_sp p) \<lparr>pm_Topic = sp_topic p, pm_Value = v,
          pm_Key = refineKeyWithSubjectHeader (m_Key m) (m_Headers m), pm_Headers = m_Headers m\<rparr>, Err None)] \<and>
        (if sp_schemaRegistryOn p then serializePayload cd p (m_Value m) cache = (cache', Ret v) else v = m_Value m))"
    using assms
    by (auto simp: sarama_Write_def call_err_def Let_def split: prod.splits res.splits option.splits if_splits)
qed (rule prod.write_sends [OF assms])

theorem write_reports_delivery_witness:
  "\<exists>v w'. w' = [] @ [(SendMessage 0 \<lparr>pm_Topic = ''t'', pm_Value = v, pm_Key = [], pm_Headers = []\<rparr>, Err None)] \<and>
    Write calm_env demo_cd (SaramaProducer demo_producer)
      \<lparr>m_Topic = [], m_Partition = 0, m_Offset = 0, m_Key = [], m_Value = [1, 2], m_Headers = []\<rparr> ([], []) =
      (([], w'), Ret ()) \<and> sends w' = 1"
proof -
  let ?m = "\<lparr>m_Topic = [], m_Partition = 0, m_Offset = 0, m_Key = [], m_Value = [1, 2], m_Headers = []\<rparr>"
  have "serializePayload demo_cd demo_producer (m_Value ?m) [] = ([], Ret ([0] @ PutUint32 3 @ [2, 1]))"
    by (simp add: serializePayload_def producer_schema_def serializeAvro_def demo_defs)
  then obtain w where e: "Write calm_env demo_cd (SaramaProducer demo_producer) ?m ([], []) = (([], w), Ret ())"
    by (simp add: sarama_Write_def calm_env_def call_err_def demo_producer_def)
  show ?thesis using write_reports_delivery [OF e] e
    by (simp add: demo_producer_def refineKeyWithSubjectHeader_def accepted_def) blast
qed

end
