(* ===== verification/ConsumerGroup.thy ===== *)
theory ConsumerGroup
  imports KafkaClient
begin

text \<open>
  The goroutines of a consumer in group mode: one \<^verbatim>\<open>ConsumeClaim\<close> per assigned partition
  (\<^verbatim>\<open>server/kafka/consumer.go\<close>), all handing their messages to one listener
  (\<^verbatim>\<open>setUpListener\<close> in \<^verbatim>\<open>server/core/connector.go\<close>) over the unbuffered channel
  \<^verbatim>\<open>fetchCh\<close> and waiting for the commit on the unbuffered channel \<^verbatim>\<open>commitCh\<close>; and the loop of
  \<^verbatim>\<open>NewConsumer\<close> that joins the group again after each session and hands the errors of the library to
  the listener over \<^verbatim>\<open>consumeErrCh\<close>.

  A state holds, per claim, the messages the library has queued and where its goroutine stands;
  where the listener and the loop stand; whether the listener was told to finish (\<^verbatim>\<open>done\<close>) and its
  context is cancelled; and whether the session has ended and the channels are closed. Each step is one
  goroutine's progress to its next blocking point; a send on an unbuffered channel and its receipt are
  one step of both. Ghost fields record
  what was delivered to the listener, what was published to NATS and what failed to be, and the
  arguments of \<^verbatim>\<open>sess.MarkMessage\<close> (\<^verbatim>\<open>None\<close> for a nil message). A panic of one goroutine ends the
  process: \<open>g_panic\<close> tells that it happened, and no step follows it.
\<close>

section \<open>Definitions\<close>

datatype claim_pc =
    InSelect
  | Sending "ConsumerMessage option"
  | AwaitCommit
  | Returned
  | Crashed gopanic

record claim =
  cl_Messages :: "ConsumerMessage list"
  cl_pc :: claim_pc

datatype listener_pc =
    Fetching
  | Handling ConsumerMessage
  | Committing ConsumerMessage
  | Stopped

datatype loop_pc = Consuming | Reporting

record group =
  g_claims :: "claim list"
  g_listener :: listener_pc
  g_loop :: loop_pc
  g_done :: bool
  g_cancelled :: bool
  g_session_done :: bool
  g_closed :: bool
  g_panic :: "gopanic option"
  g_delivered :: "ConsumerMessage list"
  g_published :: "ConsumerMessage list"
  g_failed :: "ConsumerMessage list"
  g_marked :: "ConsumerMessage option list"

definition fresh_claims :: "ConsumerMessage list list \<Rightarrow> claim list" where
  "fresh_claims queues = map (\<lambda>q. \<lparr>cl_Messages = q, cl_pc = InSelect\<rparr>) queues"

definition group_init :: "ConsumerMessage list list \<Rightarrow> group" where
  "group_init queues = \<lparr>g_claims = fresh_claims queues,
     g_listener = Fetching, g_loop = Consuming, g_done = False, g_cancelled = False, g_session_done = False, g_closed = False,
     g_panic = None, g_delivered = [], g_published = [], g_failed = [], g_marked = []\<rparr>"

abbreviation initial_group :: "group \<Rightarrow> bool" where
  "initial_group s \<equiv> (\<exists>queues. s = group_init queues)"

definition set_pc :: "nat \<Rightarrow> claim_pc \<Rightarrow> group \<Rightarrow> group" where
  "set_pc i p s = s\<lparr>g_claims := (g_claims s)[i := (g_claims s ! i)\<lparr>cl_pc := p\<rparr>]\<rparr>"

definition pc_at :: "group \<Rightarrow> nat \<Rightarrow> claim_pc option" where
  "pc_at s i = (if i < length (g_claims s) then Some (cl_pc (g_claims s ! i)) else None)"

text \<open>
  The goroutine of one claim, alone: the two branches of the \<^verbatim>\<open>select\<close>, and what it does when it finds
  its channel closed. The library closes \<^verbatim>\<open>claim.Messages()\<close> when the session ends; the first branch
  then receives nil, which is sent on like a message, and the \<^verbatim>\<open>select\<close> may choose it although the other
  branch is ready too. A closed \<^verbatim>\<open>commitCh\<close> gives nil as well; what \<^verbatim>\<open>MarkMessage\<close> of the library makes
  of a nil message is left open: it may take it, or panic.
\<close>

inductive claim_step :: "group \<Rightarrow> group \<Rightarrow> bool" where
  receive: "pc_at s i = Some InSelect \<Longrightarrow> cl_Messages (g_claims s ! i) = m # ms \<Longrightarrow>
    claim_step s (s\<lparr>g_claims := (g_claims s)[i := \<lparr>cl_Messages = ms, cl_pc = Sending (Some m)\<rparr>]\<rparr>)"
| receive_closed: "pc_at s i = Some InSelect \<Longrightarrow> cl_Messages (g_claims s ! i) = [] \<Longrightarrow> g_session_done s \<Longrightarrow>
    claim_step s (set_pc i (Sending None) s)"
| session_done: "pc_at s i = Some InSelect \<Longrightarrow> g_session_done s \<Longrightarrow> claim_step s (set_pc i Returned s)"
| send_closed: "pc_at s i = Some (Sending m) \<Longrightarrow> g_closed s \<Longrightarrow>
    claim_step s ((set_pc i (Crashed SendOnClosed) s)\<lparr>g_panic := Some SendOnClosed\<rparr>)"
| mark_nil: "pc_at s i = Some AwaitCommit \<Longrightarrow> g_closed s \<Longrightarrow>
    claim_step s ((set_pc i InSelect s)\<lparr>g_marked := g_marked s @ [None]\<rparr>)"
| mark_nil_panics: "pc_at s i = Some AwaitCommit \<Longrightarrow> g_closed s \<Longrightarrow>
    claim_step s ((set_pc i (Crashed NilDeref) s)\<lparr>g_marked := g_marked s @ [None], g_panic := Some NilDeref\<rparr>)"

text \<open>The steps of the listener, and those it makes together with a claim. \<^verbatim>\<open>commitCh\<close> is shared:
  any claim that waits on it may receive the committed message. After each message the listener looks
  at \<^verbatim>\<open>done\<close>. \<^verbatim>\<open>Fetch\<close> dereferences what it receives, so a nil message panics; while a message is
  handled, \<^verbatim>\<open>Fetch\<close> may panic on a short record and a handler on a nil connection.\<close>

definition next_turn :: "group \<Rightarrow> listener_pc" where
  "next_turn s = (if g_done s then Stopped else Fetching)"

inductive listener_step :: "group \<Rightarrow> group \<Rightarrow> bool" where
  fetch: "pc_at s i = Some (Sending (Some m)) \<Longrightarrow> g_listener s = Fetching \<Longrightarrow> \<not> g_closed s \<Longrightarrow>
    listener_step s ((set_pc i AwaitCommit s)\<lparr>g_listener := Handling m, g_delivered := g_delivered s @ [m]\<rparr>)"
| fetch_nil: "pc_at s i = Some (Sending None) \<Longrightarrow> g_listener s = Fetching \<Longrightarrow> \<not> g_closed s \<Longrightarrow>
    listener_step s (s\<lparr>g_listener := Stopped, g_panic := Some NilDeref\<rparr>)"
| handling_panics: "g_listener s = Handling m \<Longrightarrow>
    listener_step s (s\<lparr>g_listener := Stopped, g_failed := g_failed s @ [m], g_panic := Some p\<rparr>)"
| fetch_error: "g_listener s = Handling m \<Longrightarrow> listener_step s (s\<lparr>g_listener := Stopped, g_failed := g_failed s @ [m]\<rparr>)"
| publish_ok: "g_listener s = Handling m \<Longrightarrow>
    listener_step s (s\<lparr>g_listener := Committing m, g_published := g_published s @ [m]\<rparr>)"
| publish_fail: "g_listener s = Handling m \<Longrightarrow>
    listener_step s (s\<lparr>g_listener := next_turn s, g_failed := g_failed s @ [m]\<rparr>)"
| commit: "pc_at s i = Some AwaitCommit \<Longrightarrow> g_listener s = Committing m \<Longrightarrow> \<not> g_closed s \<Longrightarrow>
    listener_step s ((set_pc i InSelect s)\<lparr>g_listener := next_turn s, g_marked := g_marked s @ [Some m]\<rparr>)"
| commit_cancelled: "g_listener s = Committing m \<Longrightarrow> g_cancelled s \<Longrightarrow>
    listener_step s (s\<lparr>g_listener := next_turn s\<rparr>)"
| commit_loop_error: "g_listener s = Committing m \<Longrightarrow> g_loop s = Reporting \<Longrightarrow>
    listener_step s (s\<lparr>g_listener := next_turn s, g_loop := Consuming\<rparr>)"
| fetch_loop_error: "g_listener s = Fetching \<Longrightarrow> g_loop s = Reporting \<Longrightarrow>
    listener_step s (s\<lparr>g_listener := Stopped, g_loop := Consuming\<rparr>)"
| fetch_cancelled: "g_listener s = Fetching \<Longrightarrow> g_cancelled s \<Longrightarrow> listener_step s (s\<lparr>g_listener := Stopped\<rparr>)"

text \<open>
  The rest of the system: the library ends the session (a rebalance) or fails; the connector's shutdown
  closes \<^verbatim>\<open>done\<close>, cancels the listener's context, waits for the listener to stop and then closes the
  consumer.
\<close>

inductive outer_step :: "group \<Rightarrow> group \<Rightarrow> bool" where
  session_end: "outer_step s (s\<lparr>g_session_done := True\<rparr>)"
| consume_fails: "g_loop s = Consuming \<Longrightarrow> outer_step s (s\<lparr>g_loop := Reporting\<rparr>)"
| close_done: "outer_step s (s\<lparr>g_done := True\<rparr>)"
| cancel: "g_done s \<Longrightarrow> outer_step s (s\<lparr>g_cancelled := True\<rparr>)"
| close: "g_cancelled s \<Longrightarrow> g_listener s = Stopped \<Longrightarrow> \<not> g_closed s \<Longrightarrow> outer_step s (s\<lparr>g_closed := True\<rparr>)"

text \<open>The loop joins the group again: the library ends \<^verbatim>\<open>Consume\<close> only after every \<^verbatim>\<open>ConsumeClaim\<close> has
  returned, and a closed group is not joined again. The new session has new claims.\<close>

inductive rejoin_step :: "group \<Rightarrow> group \<Rightarrow> bool" where
  rejoin: "g_loop s = Consuming \<Longrightarrow> \<forall>c \<in> set (g_claims s). cl_pc c = Returned \<Longrightarrow> \<not> g_closed s \<Longrightarrow>
    rejoin_step s (s\<lparr>g_claims := fresh_claims queues, g_session_done := False\<rparr>)"

text \<open>The steps within one session, and all steps, of a process that has not panicked.\<close>

inductive session_step :: "group \<Rightarrow> group \<Rightarrow> bool" where
  by_claim: "g_panic s = None \<Longrightarrow> claim_step s t \<Longrightarrow> session_step s t"
| by_listener: "g_panic s = None \<Longrightarrow> listener_step s t \<Longrightarrow> session_step s t"
| by_outer: "g_panic s = None \<Longrightarrow> outer_step s t \<Longrightarrow> session_step s t"

inductive group_step :: "group \<Rightarrow> group \<Rightarrow> bool" where
  by_session: "session_step s t \<Longrightarrow> group_step s t"
| by_rejoin: "g_panic s = None \<Longrightarrow> rejoin_step s t \<Longrightarrow> group_step s t"

section \<open>Lemmas\<close>

lemma pc_at_set_pc [simp]:
  "pc_at (set_pc i p s) j = (if j = i \<and> i < length (g_claims s) then Some p else pc_at s j)"
  by (auto simp: pc_at_def set_pc_def nth_list_update)

lemma set_pc_sel [simp]:
  "g_listener (set_pc i p s) = g_listener s" "g_delivered (set_pc i p s) = g_delivered s"
  "g_published (set_pc i p s) = g_published s" "g_failed (set_pc i p s) = g_failed s"
  "g_marked (set_pc i p s) = g_marked s" "g_closed (set_pc i p s) = g_closed s"
  "g_cancelled (set_pc i p s) = g_cancelled s" "length (g_claims (set_pc i p s)) = length (g_claims s)"
  "g_done (set_pc i p s) = g_done s" "g_loop (set_pc i p s) = g_loop s" "g_panic (set_pc i p s) = g_panic s"
  by (simp_all add: set_pc_def)

lemma pc_at_Some: "pc_at s i = Some p \<Longrightarrow> i < length (g_claims s) \<and> cl_pc (g_claims s ! i) = p"
  by (simp add: pc_at_def split: if_splits)

text \<open>The number of claims that wait for a commit, and how a step of claim \<open>i\<close> changes it.\<close>

definition waiting :: "group \<Rightarrow> nat" where
  "waiting s = length (filter (\<lambda>c. cl_pc c = AwaitCommit) (g_claims s))"

lemma waiting_upd [simp]:
  "waiting (s\<lparr>g_listener := a\<rparr>) = waiting s" "waiting (s\<lparr>g_delivered := b\<rparr>) = waiting s"
  "waiting (s\<lparr>g_published := b\<rparr>) = waiting s" "waiting (s\<lparr>g_failed := b\<rparr>) = waiting s"
  "waiting (s\<lparr>g_marked := d\<rparr>) = waiting s" "waiting (s\<lparr>g_session_done := e\<rparr>) = waiting s"
  "waiting (s\<lparr>g_cancelled := e\<rparr>) = waiting s" "waiting (s\<lparr>g_closed := e\<rparr>) = waiting s"
  "waiting (s\<lparr>g_done := e\<rparr>) = waiting s" "waiting (s\<lparr>g_loop := l\<rparr>) = waiting s"
  "waiting (s\<lparr>g_panic := q\<rparr>) = waiting s"
  by (simp_all add: waiting_def)

lemma filter_update:
  assumes "i < length xs"
  shows "length (filter P (xs[i := y])) + (if P (xs ! i) then 1 else 0) =
    length (filter P xs) + (if P y then 1 else 0)"
  using assms
proof (induction xs arbitrary: i)
  case (Cons x xs)
  then show ?case by (cases i) auto
qed simp

lemma waiting_set_pc:
  assumes "pc_at s i = Some p"
  shows "waiting (set_pc i q s) + (if p = AwaitCommit then 1 else 0) = waiting s + (if q = AwaitCommit then 1 else 0)"
  using filter_update [of i "g_claims s" "\<lambda>c. cl_pc c = AwaitCommit"] pc_at_Some [OF assms]
  by (simp add: waiting_def set_pc_def)

lemma waiting_receive:
  assumes "pc_at s i = Some InSelect"
  shows "waiting (s\<lparr>g_claims := (g_claims s)[i := \<lparr>cl_Messages = ms, cl_pc = Sending (Some m)\<rparr>]\<rparr>) = waiting s"
  using filter_update [of i "g_claims s" "\<lambda>c. cl_pc c = AwaitCommit"] pc_at_Some [OF assms]
  by (simp add: waiting_def)

lemma waiting_fresh [simp]: "waiting (s\<lparr>g_claims := fresh_claims qs\<rparr>) = 0"
  by (simp add: waiting_def fresh_claims_def filter_empty_conv)

lemma waiting_none: "\<forall>c \<in> set (g_claims s). cl_pc c = Returned \<Longrightarrow> waiting s = 0"
  by (auto simp: waiting_def filter_empty_conv)

lemma waiting_le: "waiting s \<le> length (g_claims s)"
  by (simp add: waiting_def)

lemma waiting_pos: "pc_at s i = Some AwaitCommit \<Longrightarrow> 0 < waiting s"
  using pc_at_Some [of s i] nth_mem [of i "g_claims s"] by (force simp: waiting_def filter_empty_conv)

section \<open>The invariant\<close>

text \<open>
  While the channels are open: every message delivered and not marked keeps one claim waiting; every
  delivered message is in the listener's hands, was published, or failed; and what was marked was
  published.
\<close>

definition in_hand :: "group \<Rightarrow> ConsumerMessage multiset" where
  "in_hand s = (case g_listener s of Handling m \<Rightarrow> {#m#} | _ \<Rightarrow> {#})"

definition group_inv :: "group \<Rightarrow> bool" where
  "group_inv s \<longleftrightarrow>
     mset (g_delivered s) = mset (g_published s) + mset (g_failed s) + in_hand s \<and>
     mset (List.map_filter id (g_marked s)) +
       (case g_listener s of Committing m \<Rightarrow> {#m#} | _ \<Rightarrow> {#}) \<subseteq># mset (g_published s) \<and>
     (\<not> g_closed s \<longrightarrow> waiting s + length (g_marked s) = length (g_delivered s) \<and> None \<notin> set (g_marked s)) \<and>
     (g_closed s \<longrightarrow> g_listener s = Stopped)"

lemma map_filter_append [simp]: "List.map_filter f (xs @ ys) = List.map_filter f xs @ List.map_filter f ys"
  by (simp add: List.map_filter_def)

lemma insert_subset_eq_left: "add_mset a A \<subseteq># B \<Longrightarrow> A \<subseteq># B"
  by (metis mset_subset_eq_insertD subset_mset.less_imp_le)

lemma group_inv_init: "initial_group s \<Longrightarrow> group_inv s"
  by (auto simp: group_inv_def group_init_def in_hand_def waiting_def fresh_claims_def filter_empty_conv)

lemma group_inv_claim:
  assumes "claim_step s t" and "group_inv s"
  shows "group_inv t"
  using assms
proof cases
  case (receive i m ms)
  then show ?thesis using assms(2) waiting_receive [OF receive(2)] by (simp add: group_inv_def in_hand_def)
next
  case (receive_closed i)
  then show ?thesis using assms(2) waiting_set_pc [OF receive_closed(2), of "Sending None"]
    by (simp add: group_inv_def in_hand_def)
next
  case (session_done i)
  then show ?thesis using assms(2) waiting_set_pc [OF session_done(2), of Returned]
    by (simp add: group_inv_def in_hand_def)
next
  case (send_closed i m)
  then show ?thesis using assms(2) waiting_set_pc [OF send_closed(2), of "Crashed SendOnClosed"]
    by (auto simp: group_inv_def in_hand_def)
next
  case (mark_nil i)
  then show ?thesis using assms(2) by (auto simp: group_inv_def in_hand_def)
next
  case (mark_nil_panics i)
  then show ?thesis using assms(2) by (auto simp: group_inv_def in_hand_def)
qed

lemma group_inv_listener:
  assumes "listener_step s t" and "group_inv s"
  shows "group_inv t"
  using assms
proof cases
  case (fetch i m)
  then show ?thesis using assms(2) waiting_set_pc [OF fetch(2), of AwaitCommit]
    by (simp add: group_inv_def in_hand_def next_turn_def)
next
  case (commit i m)
  then show ?thesis using assms(2) waiting_set_pc [OF commit(2), of InSelect]
    by (simp add: group_inv_def in_hand_def next_turn_def)
next
  case (commit_cancelled m)
  then show ?thesis using assms(2) by (auto simp: group_inv_def in_hand_def next_turn_def dest: insert_subset_eq_left)
next
  case (commit_loop_error m)
  then show ?thesis using assms(2) by (auto simp: group_inv_def in_hand_def next_turn_def dest: insert_subset_eq_left)
qed (auto simp: group_inv_def in_hand_def next_turn_def intro: subset_mset.add_increasing2)

lemma group_inv_outer: "outer_step s t \<Longrightarrow> group_inv s \<Longrightarrow> group_inv t"
  by (erule outer_step.cases) (simp_all add: group_inv_def in_hand_def)

lemma group_inv_session: "session_step s t \<Longrightarrow> group_inv s \<Longrightarrow> group_inv t"
  by (erule session_step.cases) (auto intro: group_inv_claim group_inv_listener group_inv_outer)

lemma group_inv_rejoin: "rejoin_step s t \<Longrightarrow> group_inv s \<Longrightarrow> group_inv t"
  by (erule rejoin_step.cases) (use waiting_none [of s] in \<open>auto simp: group_inv_def in_hand_def\<close>)

lemma group_inv_step: "group_inv s \<Longrightarrow> group_step s t \<Longrightarrow> group_inv t"
  by (erule group_step.cases) (auto intro: group_inv_session group_inv_rejoin)

interpretation grp: invariant_system initial_group group_step group_inv
  by unfold_locales (auto intro: group_inv_init group_inv_step)

section \<open>A single claim\<close>

text \<open>In a session with one claim the protocol is a strict alternation: deliver, mark, deliver, mark.\<close>

definition single_inv :: "ConsumerMessage list \<Rightarrow> group \<Rightarrow> bool" where
  "single_inv q s \<longleftrightarrow> length (g_claims s) = 1 \<and> (\<not> g_closed s \<longrightarrow>
     (let c = g_claims s ! 0 in
      q = g_delivered s @ (case cl_pc c of Sending (Some m) \<Rightarrow> [m] | _ \<Rightarrow> []) @ cl_Messages c \<and>
      (if cl_pc c = AwaitCommit
       then \<exists>m. map Some (g_delivered s) = g_marked s @ [Some m] \<and>
            g_listener s \<in> {Fetching, Handling m, Committing m, Stopped}
       else map Some (g_delivered s) = g_marked s \<and> g_listener s \<in> {Fetching, Stopped})))"

lemmas single_simps = single_inv_def pc_at_def set_pc_def next_turn_def fresh_claims_def Let_def

lemma single_inv_claim: "claim_step s t \<Longrightarrow> single_inv q s \<Longrightarrow> single_inv q t"
  by (erule claim_step.cases) (auto simp: single_simps split: if_splits)

lemma single_inv_listener: "listener_step s t \<Longrightarrow> single_inv q s \<Longrightarrow> single_inv q t"
  by (erule listener_step.cases) (auto simp: single_simps split: if_splits)

lemma single_inv_outer: "outer_step s t \<Longrightarrow> single_inv q s \<Longrightarrow> single_inv q t"
  by (erule outer_step.cases) (auto simp: single_simps split: if_splits)

interpretation single: invariant_system "\<lambda>s. s = group_init [q]" session_step "single_inv q" for q
proof
  show "s = group_init [q] \<Longrightarrow> single_inv q s" for s by (simp add: single_simps group_init_def)
  show "single_inv q s \<Longrightarrow> session_step s t \<Longrightarrow> single_inv q t" for s t
    by (erule session_step.cases) (auto intro: single_inv_claim single_inv_listener single_inv_outer)
qed

section \<open>A stalled group\<close>

definition stalled :: "ConsumerMessage list \<Rightarrow> ConsumerMessage list \<Rightarrow> ConsumerMessage list \<Rightarrow> group \<Rightarrow> bool" where
  "stalled d p k s \<longleftrightarrow> g_delivered s = d \<and> g_published s = p \<and> List.map_filter id (g_marked s) = k \<and>
     g_listener s \<in> {Fetching, Stopped} \<and>
     (g_closed s \<or> g_claims s \<noteq> [] \<and> (\<forall>i. pc_at s i = None \<or> pc_at s i = Some AwaitCommit))"

lemma stalled_closed: "stalled d p k s \<Longrightarrow> pc_at s i = Some c \<Longrightarrow> c \<noteq> AwaitCommit \<Longrightarrow> g_closed s"
  unfolding stalled_def by (metis option.distinct(1) option.inject)

lemma stalled_listener: "stalled d p k s \<Longrightarrow> g_listener s = Fetching \<or> g_listener s = Stopped"
  by (simp add: stalled_def)

lemma stalled_claim:
  assumes "claim_step s t" and "stalled d p k s"
  shows "stalled d p k t"
  using assms(1)
proof cases
  case (receive i m ms)
  then show ?thesis using stalled_closed [OF assms(2) receive(2)] assms(2) by (simp add: stalled_def)
next
  case (receive_closed i)
  then show ?thesis using stalled_closed [OF assms(2) receive_closed(2)] assms(2) by (simp add: stalled_def)
next
  case (session_done i)
  then show ?thesis using stalled_closed [OF assms(2) session_done(2)] assms(2) by (simp add: stalled_def)
next
  case (send_closed i m)
  then show ?thesis using assms(2) by (simp add: stalled_def)
next
  case (mark_nil i)
  then show ?thesis using assms(2) by (simp add: stalled_def)
next
  case (mark_nil_panics i)
  then show ?thesis using assms(2) by (simp add: stalled_def)
qed

lemma pc_at_listener [simp]: "pc_at (s\<lparr>g_listener := l\<rparr>) i = pc_at s i"
  by (simp add: pc_at_def)

lemma pc_at_outer [simp]:
  "pc_at (s\<lparr>g_cancelled := b\<rparr>) i = pc_at s i" "pc_at (s\<lparr>g_session_done := b\<rparr>) i = pc_at s i"
  "pc_at (s\<lparr>g_closed := b\<rparr>) i = pc_at s i" "pc_at (s\<lparr>g_delivered := d\<rparr>) i = pc_at s i"
  "pc_at (s\<lparr>g_published := d\<rparr>) i = pc_at s i" "pc_at (s\<lparr>g_failed := d\<rparr>) i = pc_at s i"
  "pc_at (s\<lparr>g_marked := e\<rparr>) i = pc_at s i" "pc_at (s\<lparr>g_done := b\<rparr>) i = pc_at s i" "pc_at (s\<lparr>g_loop := p\<rparr>) i = pc_at s i"
  "pc_at (s\<lparr>g_panic := q\<rparr>) i = pc_at s i"
  by (simp_all add: pc_at_def)

lemma stalled_listener_step:
  assumes "listener_step s t" and "stalled d p k s"
  shows "stalled d p k t"
  using assms(1) stalled_listener [OF assms(2)]
proof cases
  case (fetch i m)
  then show ?thesis using stalled_closed [OF assms(2) fetch(2)] by simp
next
  case (fetch_nil i)
  then show ?thesis using stalled_closed [OF assms(2) fetch_nil(2)] by simp
qed (use assms(2) in \<open>auto simp: stalled_def\<close>)

lemma stalled_outer: "outer_step s t \<Longrightarrow> stalled d p k s \<Longrightarrow> stalled d p k t"
  by (erule outer_step.cases) (simp_all add: stalled_def)

lemma stalled_rejoin: "rejoin_step s t \<Longrightarrow> stalled d p k s \<Longrightarrow> stalled d p k t"
proof (erule rejoin_step.cases)
  fix s' qs assume st: "stalled d p k s" and eq: "s = s'"
    and r: "\<forall>c \<in> set (g_claims s'). cl_pc c = Returned" "\<not> g_closed s'"
  then have "g_claims s \<noteq> []" "pc_at s 0 = None \<or> pc_at s 0 = Some AwaitCommit" by (auto simp: stalled_def)
  then show ?thesis using r eq by (cases "g_claims s") (auto simp: pc_at_def)
qed

lemma stalled_step: "stalled d p k s \<Longrightarrow> group_step s t \<Longrightarrow> stalled d p k t"
  by (erule group_step.cases) (auto elim!: session_step.cases intro: stalled_claim stalled_listener_step stalled_outer stalled_rejoin)

interpretation stall: invariant_system "stalled d p k" group_step "stalled d p k" for d p k
  by unfold_locales (auto intro: stalled_step)

lemma all_waiting:
  assumes "waiting s = length (g_claims s)"
  shows "pc_at s i = None \<or> pc_at s i = Some AwaitCommit"
proof -
  have "\<forall>c \<in> set (g_claims s). cl_pc c = AwaitCommit"
    using assms length_filter_less [of _ "g_claims s" "\<lambda>c. cl_pc c = AwaitCommit"]
    unfolding waiting_def by (metis less_irrefl)
  then show ?thesis by (simp add: pc_at_def)
qed

lemma map_filter_all: "None \<notin> set xs \<Longrightarrow> length (List.map_filter id xs) = length xs"
  by (induction xs) (auto split: option.splits, metis not_None_eq)

lemma stalled_after_failures:
  assumes "group_inv s" and "\<not> g_closed s" and "g_claims s \<noteq> []" and "length (g_claims s) \<le> length (g_failed s)"
  shows "stalled (g_delivered s) (g_published s) (List.map_filter id (g_marked s)) s"
proof -
  let ?c = "case g_listener s of Committing m \<Rightarrow> {#m#} | _ \<Rightarrow> {#}"
  have eq: "waiting s + length (g_marked s) = length (g_delivered s)"
    and "mset (g_delivered s) = mset (g_published s) + mset (g_failed s) + in_hand s"
    and "mset (List.map_filter id (g_marked s)) + ?c \<subseteq># mset (g_published s)" and none: "None \<notin> set (g_marked s)"
    using assms(1,2) by (auto simp: group_inv_def)
  then have "length (g_delivered s) = length (g_published s) + length (g_failed s) + size (in_hand s)"
    and "length (g_marked s) + size ?c \<le> length (g_published s)"
    using size_mset_mono map_filter_all [OF none] by (metis size_mset size_union)+
  with eq assms(4) waiting_le [of s]
  have "waiting s = length (g_claims s)" "size (in_hand s) = 0" "size ?c = 0" by linarith+
  then show ?thesis using all_waiting assms(3) by (cases "g_listener s") (auto simp: stalled_def in_hand_def)
qed

section \<open>Runs\<close>

text \<open>Runs within a session, and that they are runs.\<close>

lemma reach_claim: "reachable i session_step s \<Longrightarrow> claim_step s t \<Longrightarrow> g_panic s = None \<Longrightarrow> reachable i session_step t"
  by (blast intro: reach_step by_claim)

lemma reach_listener: "reachable i session_step s \<Longrightarrow> listener_step s t \<Longrightarrow> g_panic s = None \<Longrightarrow> reachable i session_step t"
  by (blast intro: reach_step by_listener)

lemma reach_outer: "reachable i session_step s \<Longrightarrow> outer_step s t \<Longrightarrow> g_panic s = None \<Longrightarrow> reachable i session_step t"
  by (blast intro: reach_step by_outer)

lemma reach_session: "reachable i session_step s \<Longrightarrow> reachable i group_step s"
  by (induction rule: reachable.induct) (auto intro: reach_init reach_step by_session)

lemma group_init_pc: "pc_at (group_init qs) i = (if i < length qs then Some InSelect else None)"
  by (simp add: pc_at_def group_init_def fresh_claims_def)

text \<open>A run in which the listener makes \<open>n\<close> steps and the other goroutines any number of them.\<close>

inductive listener_run :: "nat \<Rightarrow> group \<Rightarrow> group \<Rightarrow> bool" where
  start: "listener_run 0 s s"
| own: "listener_run n s t \<Longrightarrow> listener_step t u \<Longrightarrow> listener_run (Suc n) s u"
| other: "listener_run n s t \<Longrightarrow> claim_step t u \<or> outer_step t u \<or> rejoin_step t u \<Longrightarrow> listener_run n s u"

text \<open>How many steps a listener that was told to finish has left, and how many messages it may still publish.\<close>

fun steps_left :: "listener_pc \<Rightarrow> nat" where
  "steps_left Fetching = 3"
| "steps_left (Handling m) = 2"
| "steps_left (Committing m) = 1"
| "steps_left Stopped = 0"

fun publishable :: "listener_pc \<Rightarrow> nat" where
  "publishable Fetching = 1"
| "publishable (Handling m) = 1"
| "publishable _ = 0"

lemma finishing_step:
  assumes "listener_step s t" "g_done s" "g_cancelled s"
  shows "g_done t \<and> g_cancelled t \<and> steps_left (g_listener t) < steps_left (g_listener s) \<and>
    length (g_published t) + publishable (g_listener t) \<le> length (g_published s) + publishable (g_listener s)"
  using assms by cases (simp_all add: next_turn_def)

lemma others_keep:
  assumes "claim_step s t \<or> outer_step s t \<or> rejoin_step s t"
  shows "g_listener t = g_listener s \<and> g_published t = g_published s \<and> (g_done s \<longrightarrow> g_done t) \<and> (g_cancelled s \<longrightarrow> g_cancelled t)"
  using assms by (elim disjE claim_step.cases outer_step.cases rejoin_step.cases) simp_all

lemma finishing_run:
  assumes "listener_run n s t" "g_done s" "g_cancelled s"
  shows "g_done t \<and> g_cancelled t \<and> n + steps_left (g_listener t) \<le> steps_left (g_listener s) \<and>
    length (g_published t) + publishable (g_listener t) \<le> length (g_published s) + publishable (g_listener s)"
  using assms
proof (induction rule: listener_run.induct)
  case (own n s t u)
  then show ?case using finishing_step [OF own(2)] by fastforce
next
  case (other n s t u)
  then show ?case using others_keep [OF other(2)] by simp
qed simp

lemma finishing_progress: "g_cancelled s \<Longrightarrow> g_listener s \<noteq> Stopped \<Longrightarrow> \<exists>t. listener_step s t"
  by (cases "g_listener s") (blast intro: listener_step.intros)+

text \<open>A state written out field by field, for concrete runs.\<close>

definition mk_group ::
  "claim list \<Rightarrow> listener_pc \<Rightarrow> bool \<Rightarrow> bool \<Rightarrow> ConsumerMessage list \<Rightarrow> ConsumerMessage list \<Rightarrow>
   ConsumerMessage list \<Rightarrow> ConsumerMessage list \<Rightarrow> group" where
  "mk_group cs l cancelled closed d p f k = \<lparr>g_claims = cs, g_listener = l, g_loop = Consuming,
     g_done = cancelled, g_cancelled = cancelled,
     g_session_done = False, g_closed = closed, g_panic = None, g_delivered = d, g_published = p, g_failed = f,
     g_marked = map Some k\<rparr>"

abbreviation cl :: "ConsumerMessage list \<Rightarrow> claim_pc \<Rightarrow> claim" where
  "cl q p \<equiv> \<lparr>cl_Messages = q, cl_pc = p\<rparr>"

lemma mk_group_panic [simp]: "g_panic (mk_group cs l a b d p f k) = None"
  by (simp add: mk_group_def)

lemmas mk_simps = mk_group_def pc_at_def set_pc_def next_turn_def

lemma run_receive:
  assumes "i < length cs" and "cs ! i = cl (m # ms) InSelect"
  shows "claim_step (mk_group cs l a b d p f k) (mk_group (cs[i := cl ms (Sending (Some m))]) l a b d p f k)"
  using assms claim_step.receive [of "mk_group cs l a b d p f k" i m ms] by (simp add: mk_simps)

lemma run_fetch:
  assumes "i < length cs" and "cs ! i = cl ms (Sending (Some m))"
  shows "listener_step (mk_group cs Fetching a False d p f k)
    (mk_group (cs[i := cl ms AwaitCommit]) (Handling m) a False (d @ [m]) p f k)"
  using assms listener_step.fetch [of "mk_group cs Fetching a False d p f k" i m] by (simp add: mk_simps)

lemma run_publish:
  "listener_step (mk_group cs (Handling m) a b d p f k) (mk_group cs (Committing m) a b d (p @ [m]) f k)"
  "listener_step (mk_group cs (Handling m) False b d p f k) (mk_group cs Fetching False b d p (f @ [m]) k)"
  using listener_step.publish_ok [of "mk_group cs (Handling m) a b d p f k" m]
    listener_step.publish_fail [of "mk_group cs (Handling m) False b d p f k" m] by (simp_all add: mk_simps)

lemma run_commit:
  assumes "i < length cs" and "cs ! i = cl ms AwaitCommit"
  shows "listener_step (mk_group cs (Committing m) False False d p f k)
    (mk_group (cs[i := cl ms InSelect]) Fetching False False d p f (k @ [m]))"
  using assms listener_step.commit [of "mk_group cs (Committing m) False False d p f k" i m] by (simp add: mk_simps)

lemma run_shutdown:
  assumes "reachable init session_step (mk_group cs Fetching False False d p f k)"
  shows "reachable init session_step (mk_group cs Stopped True True d p f k)"
proof -
  let ?s = "(mk_group cs Fetching False False d p f k)\<lparr>g_done := True\<rparr>"
  have "reachable init session_step ?s" by (rule reach_outer [OF assms close_done]) simp
  from reach_outer [OF this cancel] have "reachable init session_step (?s\<lparr>g_cancelled := True\<rparr>)" by simp
  from reach_listener [OF this fetch_cancelled]
  have "reachable init session_step (?s\<lparr>g_cancelled := True, g_listener := Stopped\<rparr>)" by (simp add: mk_group_def)
  from reach_outer [OF this close] show ?thesis by (simp add: mk_group_def)
qed

lemma mk_group_init: "group_init qs = mk_group (map (\<lambda>q. cl q InSelect) qs) Fetching False False [] [] [] []"
  by (simp add: group_init_def fresh_claims_def mk_group_def)

lemma reach_start:
  "init (group_init qs) \<Longrightarrow> reachable init session_step (mk_group (map (\<lambda>q. cl q InSelect) qs) Fetching False False [] [] [] [])"
  unfolding mk_group_init [symmetric] by (rule reach_init)

text \<open>One message delivered, with the outcome of its publication.\<close>

lemma run_deliver:
  assumes "reachable init session_step (mk_group cs Fetching False False d p f k)"
    and "i < length cs" and "cs ! i = cl (m # ms) InSelect"
  shows "reachable init session_step (mk_group (cs[i := cl ms AwaitCommit]) (Committing m) False False (d @ [m]) (p @ [m]) f k)"
    and "reachable init session_step (mk_group (cs[i := cl ms AwaitCommit]) Fetching False False (d @ [m]) p (f @ [m]) k)"
proof -
  have "reachable init session_step (mk_group (cs[i := cl ms (Sending (Some m))]) Fetching False False d p f k)"
    using reach_claim [OF assms(1) run_receive [OF assms(2,3)]] by simp
  from reach_listener [OF this run_fetch, of i ms m] assms(2)
  have *: "reachable init session_step (mk_group (cs[i := cl ms AwaitCommit]) (Handling m) False False (d @ [m]) p f k)"
    by simp
  show "reachable init session_step (mk_group (cs[i := cl ms AwaitCommit]) (Committing m) False False (d @ [m]) (p @ [m]) f k)"
    by (rule reach_listener [OF * run_publish(1)]) simp
  show "reachable init session_step (mk_group (cs[i := cl ms AwaitCommit]) Fetching False False (d @ [m]) p (f @ [m]) k)"
    by (rule reach_listener [OF * run_publish(2)]) simp
qed

section \<open>Properties\<close>

text \<open>C5. Nothing is marked that was not published: in every reachable state of the claims and the listener, a
  message marked as consumed has been published to NATS before, counted with multiplicity; and at
  most one message per claim is delivered and not marked while the consumer is open.\<close>

theorem marked_only_published:
  assumes "reachable initial_group group_step s"
  shows "mset (List.map_filter id (g_marked s)) \<subseteq># mset (g_published s) \<and>
    (\<not> g_closed s \<longrightarrow> length (g_delivered s) \<le> length (g_marked s) + length (g_claims s))"
proof -
  have "group_inv s" using assms by (rule grp.reachable_inv)
  then show ?thesis using waiting_le [of s] subset_mset.order_trans [OF mset_subset_eq_add_left]
    by (auto simp: group_inv_def)
qed

definition at :: "int32 \<Rightarrow> int64 \<Rightarrow> ConsumerMessage" where
  "at p n = \<lparr>cm_Topic = ''t'', cm_Partition = p, cm_Offset = n, cm_Key = [], cm_Value = [], cm_Headers = []\<rparr>"

theorem marked_only_published_witness:
  "\<exists>s :: group. g_marked s = [Some (at 0 0)] \<and> mset (List.map_filter id (g_marked s)) \<subseteq># mset (g_published s) \<and>
    (\<not> g_closed s \<longrightarrow> length (g_delivered s) \<le> length (g_marked s) + length (g_claims s))"
proof -
  have "reachable initial_group session_step (mk_group (map (\<lambda>q. cl q InSelect) [[at 0 0]]) Fetching False False [] [] [] [])"
    by (rule reach_start) blast
  from run_deliver(1) [OF this, of 0 "at 0 0" "[]"]
  have "reachable initial_group session_step (mk_group [cl [] AwaitCommit] (Committing (at 0 0)) False False [at 0 0] [at 0 0] [] [])"
    by simp
  from reach_session [OF reach_listener [OF this run_commit, of 0 "[]"]]
  have r: "reachable initial_group group_step (mk_group [cl [] InSelect] Fetching False False [at 0 0] [at 0 0] [] [at 0 0])"
    by simp
  show ?thesis
    by (rule exI [of _ "mk_group [cl [] InSelect] Fetching False False [at 0 0] [at 0 0] [] [at 0 0]"])
      (use marked_only_published [OF r] in \<open>simp add: mk_group_def\<close>)
qed

text \<open>C21. With a single claim, messages are delivered and marked in the order of the claim throughout a session: what is marked is
  the first \<open>k\<close> messages, what is delivered the first \<open>k\<close> or \<open>k + 1\<close>.\<close>

theorem single_claim_in_order:
  assumes "reachable (\<lambda>s. s = group_init [q]) session_step s" and "\<not> g_closed s"
  shows "\<exists>k. g_marked s = map Some (take k q) \<and> (g_delivered s = take k q \<or> g_delivered s = take (Suc k) q)"
proof -
  have inv: "single_inv q s" using assms(1) by (rule single.reachable_inv)
  then obtain rest where q: "q = g_delivered s @ rest" using assms(2) by (auto simp: single_inv_def Let_def)
  consider m where "map Some (g_delivered s) = g_marked s @ [Some m]" | "map Some (g_delivered s) = g_marked s"
    using inv assms(2) by (auto simp: single_inv_def Let_def split: if_splits)
  then show ?thesis
  proof cases
    case (1 m)
    then obtain d where "g_delivered s = d @ [m]" "map Some d = g_marked s"
      by (auto simp: map_eq_append_conv)
    then show ?thesis using q by (intro exI [of _ "length d"]) simp
  next
    case 2
    then show ?thesis using q by (intro exI [of _ "length (g_delivered s)"]) simp
  qed
qed

theorem single_claim_in_order_witness:
  "\<exists>s. reachable (\<lambda>s. s = group_init [[at 0 0, at 0 1]]) session_step s \<and> g_delivered s = [at 0 0, at 0 1] \<and>
    (\<exists>k. g_marked s = map Some (take k [at 0 0, at 0 1]) \<and>
      (g_delivered s = take k [at 0 0, at 0 1] \<or> g_delivered s = take (Suc k) [at 0 0, at 0 1]))"
proof -
  let ?i = "\<lambda>s. s = group_init [[at 0 0, at 0 1]]"
  let ?s = "mk_group [cl [] AwaitCommit] (Committing (at 0 1)) False False [at 0 0, at 0 1] [at 0 0, at 0 1] [] [at 0 0]"
  have "reachable ?i session_step (mk_group (map (\<lambda>q. cl q InSelect) [[at 0 0, at 0 1]]) Fetching False False [] [] [] [])"
    by (rule reach_start) simp
  from run_deliver(1) [OF this, of 0 "at 0 0" "[at 0 1]"]
  have "reachable ?i session_step (mk_group [cl [at 0 1] AwaitCommit] (Committing (at 0 0)) False False [at 0 0] [at 0 0] [] [])"
    by simp
  from reach_listener [OF this run_commit, of 0 "[at 0 1]"]
  have "reachable ?i session_step (mk_group [cl [at 0 1] InSelect] Fetching False False [at 0 0] [at 0 0] [] [at 0 0])" by simp
  from run_deliver(1) [OF this, of 0 "at 0 1" "[]"] have r: "reachable ?i session_step ?s" by simp
  have "\<not> g_closed ?s" by (simp add: mk_group_def)
  from single_claim_in_order [OF r this] r show ?thesis by (intro exI [of _ ?s]) (simp add: mk_group_def)
qed

text \<open>C23. A failed publication is never recovered in group mode: each one leaves its claim waiting for a
  commit that does not come, and once as many publications have failed as there are claims, no
  message is ever delivered, published or marked again, whatever happens afterwards; the session
  cannot even be left for a rebalance, because the claims do not return.\<close>

theorem failed_publications_stall:
  assumes "reachable initial_group group_step s" and "\<not> g_closed s" and "g_claims s \<noteq> []"
    and "length (g_claims s) \<le> length (g_failed s)" and "group_step\<^sup>*\<^sup>* s t"
  shows "g_delivered t = g_delivered s \<and> g_published t = g_published s \<and>
    List.map_filter id (g_marked t) = List.map_filter id (g_marked s) \<and>
    (\<not> g_closed t \<longrightarrow> (\<forall>i < length (g_claims t). pc_at t i = Some AwaitCommit))"
proof -
  have "stalled (g_delivered s) (g_published s) (List.map_filter id (g_marked s)) s"
    using grp.reachable_inv [OF assms(1)] assms(2-4) by (rule stalled_after_failures)
  then have "stalled (g_delivered s) (g_published s) (List.map_filter id (g_marked s)) t"
    using stall.inv_steps [OF assms(5)] by blast
  then show ?thesis unfolding stalled_def by (metis pc_at_def option.distinct(1))
qed

theorem failed_publications_stall_witness:
  "\<exists>s :: group. g_failed s = [at 0 0] \<and> cl_Messages (g_claims s ! 0) = [at 0 1] \<and>
    (\<forall>t. group_step\<^sup>*\<^sup>* s t \<longrightarrow> g_delivered t = g_delivered s \<and> g_published t = g_published s \<and>
      List.map_filter id (g_marked t) = List.map_filter id (g_marked s))"
proof -
  let ?s = "mk_group [cl [at 0 1] AwaitCommit] Fetching False False [at 0 0] [] [at 0 0] []"
  have "reachable initial_group session_step (mk_group (map (\<lambda>q. cl q InSelect) [[at 0 0, at 0 1]]) Fetching False False [] [] [] [])"
    by (rule reach_start) blast
  from reach_session [OF run_deliver(2) [OF this, of 0 "at 0 0" "[at 0 1]"]]
  have r: "reachable initial_group group_step ?s" by simp
  have "\<not> g_closed ?s" "g_claims ?s \<noteq> []" "length (g_claims ?s) \<le> length (g_failed ?s)" by (simp_all add: mk_group_def)
  note * = failed_publications_stall [OF r this]
  show ?thesis by (rule exI [of _ ?s]) (use * in \<open>simp add: mk_group_def\<close>)
qed

text \<open>C22. Shutting a group consumer's connector down does not hang in \<^verbatim>\<open>wg.Wait()\<close>. Once \<^verbatim>\<open>done\<close> is closed and the
  context cancelled, whatever the claims, the library and the consume loop do, the listener stops after
  at most three steps of its own, it is never blocked before that, and at most one more message is
  published.\<close>

theorem shutdown_stops_listener:
  assumes "g_done s" and "g_cancelled s" and "listener_run n s t"
  shows "n \<le> 3 \<and> (g_listener t = Stopped \<or> n < 3 \<and> (\<exists>u. listener_step t u)) \<and>
    length (g_published t) \<le> length (g_published s) + 1"
proof -
  have le: "steps_left p \<le> 3" "publishable p \<le> 1" "steps_left p = 0 \<longleftrightarrow> p = Stopped" for p by (cases p; simp)+
  note run = finishing_run [OF assms(3,1,2)]
  have "n + steps_left (g_listener t) \<le> 3" "length (g_published t) \<le> length (g_published s) + 1"
    using run le(1) [of "g_listener s"] le(2) [of "g_listener s"] by linarith+
  moreover from this have "n < 3" if "g_listener t \<noteq> Stopped" using that le(3) [of "g_listener t"] by linarith
  ultimately show ?thesis using run finishing_progress [of t] by auto
qed

theorem shutdown_stops_listener_witness:
  "\<exists>s t u. g_done s \<and> g_cancelled s \<and> listener_run 2 s t \<and> listener_step t u \<and>
    length (g_published t) \<le> length (g_published s) + 1"
proof -
  let ?s = "mk_group [cl [] (Sending (Some (at 0 0)))] Fetching True False [] [] [] []"
  let ?t = "mk_group [cl [] AwaitCommit] (Committing (at 0 0)) True False [at 0 0] [at 0 0] [] []"
  have "listener_run (Suc (Suc 0)) ?s ?t"
    using own [OF own [OF start run_fetch [of 0 "[cl [] (Sending (Some (at 0 0)))]" "[]" "at 0 0" True "[]" "[]" "[]" "[]"]] run_publish(1)]
    by simp
  then have r: "listener_run 2 ?s ?t" by (simp add: numeral_2_eq_2)
  have d: "g_done ?s" "g_cancelled ?s" "g_listener ?t \<noteq> Stopped" by (simp_all add: mk_group_def)
  from shutdown_stops_listener [OF d(1,2) r] d r show ?thesis by blast
qed

text \<open>C36. Closing a group consumer whose claim still has messages can crash the process: from the start, for
  every non-empty claim, there is a run in which the connector is shut down in order (the listener
  is cancelled and has stopped before the channels are closed) and the claim's goroutine panics
  because it is blocked in a send on \<^verbatim>\<open>fetchCh\<close>.\<close>

theorem close_can_crash:
  "\<exists>s. reachable (\<lambda>s. s = group_init [m # ms]) group_step s \<and> pc_at s 0 = Some (Crashed SendOnClosed)"
proof -
  let ?i = "\<lambda>s. s = group_init [m # ms]"
  have "reachable ?i session_step (mk_group (map (\<lambda>q. cl q InSelect) [m # ms]) Fetching False False [] [] [] [])"
    by (rule reach_start) simp
  from reach_claim [OF this run_receive, of 0 m ms]
  have "reachable ?i session_step (mk_group [cl ms (Sending (Some m))] Fetching False False [] [] [] [])" by simp
  from run_shutdown [OF this]
  have r: "reachable ?i session_step (mk_group [cl ms (Sending (Some m))] Stopped True True [] [] [] [])" .
  let ?t = "mk_group [cl ms (Sending (Some m))] Stopped True True [] [] [] []"
  let ?u = "(set_pc 0 (Crashed SendOnClosed) ?t)\<lparr>g_panic := Some SendOnClosed\<rparr>"
  have "claim_step ?t ?u" using claim_step.send_closed [of ?t 0 "Some m"] by (simp add: mk_group_def pc_at_def)
  from reach_session [OF reach_claim [OF r this]] have "reachable ?i group_step ?u" by simp
  moreover have "pc_at ?u 0 = Some (Crashed SendOnClosed)" by (simp add: mk_group_def)
  ultimately show ?thesis by blast
qed

text \<open>C37. The claims share the commit channel, so with two claims a message whose publication failed can be
  skipped for good. For any messages \<open>a\<close>, \<open>b\<close> queued in this order in one claim and \<open>c\<close> in another, there is a
  run within one session that delivers \<open>a\<close>, \<open>c\<close> and \<open>b\<close>, in which the publication of \<open>a\<close> fails and
  exactly \<open>c\<close> and \<open>b\<close> are published and marked: the claim that waits for the commit of \<open>a\<close> takes that
  of \<open>c\<close>, goes on, and its later message \<open>b\<close> is marked over \<open>a\<close>.\<close>

theorem failed_message_skipped:
  "\<exists>s. reachable (\<lambda>s. s = group_init [[a, b], [c]]) session_step s \<and> g_delivered s = [a, c, b] \<and>
    g_failed s = [a] \<and> g_published s = [c, b] \<and> g_marked s = [Some c, Some b]"
proof -
  let ?r = "reachable (\<lambda>s. s = group_init [[a, b], [c]]) session_step"
  let ?last = "mk_group [cl [] InSelect, cl [] AwaitCommit] Fetching False False [a, c, b] [c, b] [a] [c, b]"
  have "?r (mk_group (map (\<lambda>q. cl q InSelect) [[a, b], [c]]) Fetching False False [] [] [] [])"
    by (rule reach_start) simp
  from run_deliver(2) [OF this, of 0 a "[b]"]
  have "?r (mk_group [cl [b] AwaitCommit, cl [c] InSelect] Fetching False False [a] [] [a] [])" by simp
  from run_deliver(1) [OF this, of 1 c "[]"]
  have "?r (mk_group [cl [b] AwaitCommit, cl [] AwaitCommit] (Committing c) False False [a, c] [c] [a] [])" by simp
  from reach_listener [OF this run_commit, of 0 "[b]"]
  have "?r (mk_group [cl [b] InSelect, cl [] AwaitCommit] Fetching False False [a, c] [c] [a] [c])" by simp
  from run_deliver(1) [OF this, of 0 b "[]"]
  have "?r (mk_group [cl [] AwaitCommit, cl [] AwaitCommit] (Committing b) False False [a, c, b] [c, b] [a] [c])" by simp
  from reach_listener [OF this run_commit, of 0 "[]"] have "?r ?last" by simp
  then show ?thesis by (intro exI [of _ ?last]) (simp add: mk_group_def)
qed

text \<open>A session with one claim in which every message is delivered, published and marked.\<close>

lemma run_all:
  "\<exists>s. reachable (\<lambda>s. s = group_init [ms @ rest]) session_step s \<and>
    s = mk_group [cl rest InSelect] Fetching False False ms ms [] ms"
proof (induction ms arbitrary: rest rule: rev_induct)
  case Nil
  show ?case using reach_start [of "\<lambda>s. s = group_init [rest]" "[rest]"] by simp
next
  case (snoc m ms)
  let ?r = "reachable (\<lambda>s. s = group_init [ms @ m # rest]) session_step"
  have "?r (mk_group [cl (m # rest) InSelect] Fetching False False ms ms [] ms)" using snoc [of "m # rest"] by simp
  from run_deliver(1) [OF this, of 0 m rest]
  have "?r (mk_group [cl rest AwaitCommit] (Committing m) False False (ms @ [m]) (ms @ [m]) [] ms)" by simp
  from reach_listener [OF this run_commit, of 0 rest] show ?case by simp
qed

text \<open>C40. A rebalance can crash the process. For every claim, there is a run within one session in which all its
  messages are delivered, published and marked, nobody shuts the connector down, and the end of the
  session makes the process panic: the library closes the claim's channel, the goroutine of the claim
  receives nil from it and hands it to \<^verbatim>\<open>Fetch\<close>, which dereferences it.\<close>

theorem rebalance_can_crash:
  "\<exists>s. reachable (\<lambda>s. s = group_init [ms]) session_step s \<and> g_marked s = map Some ms \<and> g_failed s = [] \<and>
    \<not> g_done s \<and> \<not> g_closed s \<and> g_panic s = Some NilDeref"
proof -
  let ?r = "reachable (\<lambda>s. s = group_init [ms]) session_step"
  let ?s = "mk_group [cl [] InSelect] Fetching False False ms ms [] ms"
  have "?r ?s" using run_all [of ms "[]"] by simp
  from reach_outer [OF this session_end] have r: "?r (?s\<lparr>g_session_done := True\<rparr>)" by simp
  let ?t = "set_pc 0 (Sending None) (?s\<lparr>g_session_done := True\<rparr>)"
  have "claim_step (?s\<lparr>g_session_done := True\<rparr>) ?t" by (rule receive_closed) (simp_all add: mk_simps)
  from reach_claim [OF r this] have t: "?r ?t" by simp
  let ?u = "?t\<lparr>g_listener := Stopped, g_panic := Some NilDeref\<rparr>"
  have "listener_step ?t ?u" by (rule fetch_nil [of _ 0]) (simp_all add: mk_simps)
  from reach_listener [OF t this] have "?r ?u" by simp
  then show ?thesis by (intro exI [of _ ?u]) (simp add: mk_group_def)
qed

end
