(* ===== verification/Cells.thy ===== *)
theory Cells
  imports World
begin

text \<open>
  The connections of the bridge to its NATS clusters: \<^verbatim>\<open>server/core/nats.go\<close> and the accessors of
  \<^verbatim>\<open>server/core/server.go\<close> that read them. A cell is the connection state of one cluster; the
  bridge keeps a map from cluster names to cells (the default cluster has the empty name) and one
  streaming connection. What \<^verbatim>\<open>natsLock\<close> guards is the record \<open>conns\<close>; every function below
  runs under that lock, except the dial in the middle of \<open>redialCell\<close>, which is why that function
  is composed of three phases. The cells are shared by pointer: updating a cell updates the map's
  entry of its name. The order in which Go ranges over the map is the argument \<open>order\<close>.
\<close>

section \<open>Definitions\<close>

record natsCell =
  cell_config :: NATSConfig
  cell_nc :: "nat option"
  cell_js :: "nat option"

record conns =
  bn_cells :: "(string, natsCell) gomap"
  bn_stan :: "nat option"

definition displayName :: "natsCell \<Rightarrow> string" where
  "displayName cell = (if nats_Name (cell_config cell) = [] then ''default'' else nats_Name (cell_config cell))"

definition isConnected :: "env \<Rightarrow> natsCell \<Rightarrow> history \<Rightarrow> history \<times> bool" where
  "isConnected env cell w =
     (case cell_nc cell of
        None \<Rightarrow> (w, False)
      | Some nc \<Rightarrow> (case call_url env (ConnectedUrl nc) w of (w, u) \<Rightarrow> (w, u \<noteq> [])))"

definition NATSFor :: "string \<Rightarrow> conns \<Rightarrow> nat option" where
  "NATSFor cluster b = (case map_of (bn_cells b) cluster of Some cell \<Rightarrow> cell_nc cell | None \<Rightarrow> None)"

definition NATS :: "conns \<Rightarrow> nat option" where
  "NATS b = NATSFor [] b"

definition Stan :: "conns \<Rightarrow> nat option" where
  "Stan b = bn_stan b"

definition JetStreamFor :: "string \<Rightarrow> conns \<Rightarrow> nat option" where
  "JetStreamFor cluster b = (case map_of (bn_cells b) cluster of Some cell \<Rightarrow> cell_js cell | None \<Rightarrow> None)"

definition JetStream :: "conns \<Rightarrow> nat option" where
  "JetStream b = JetStreamFor [] b"

definition CheckNATSFor :: "env \<Rightarrow> string \<Rightarrow> conns \<Rightarrow> history \<Rightarrow> history \<times> bool" where
  "CheckNATSFor env cluster b w =
     (case map_of (bn_cells b) cluster of Some cell \<Rightarrow> isConnected env cell w | None \<Rightarrow> (w, False))"

definition CheckNATS :: "env \<Rightarrow> conns \<Rightarrow> history \<Rightarrow> history \<times> bool" where
  "CheckNATS env b w = CheckNATSFor env [] b w"

definition CheckStan :: "env \<Rightarrow> conns \<Rightarrow> history \<Rightarrow> history \<times> bool" where
  "CheckStan env b w =
     (case map_of (bn_cells b) [] of
        Some cell \<Rightarrow>
          (if cell_nc cell \<noteq> None then
             (case isConnected env cell w of
                (w, False) \<Rightarrow> (w, False)
              | (w, True) \<Rightarrow> (w, bn_stan b \<noteq> None))
           else (w, bn_stan b \<noteq> None))
      | None \<Rightarrow> (w, bn_stan b \<noteq> None))"

definition CheckJetStreamFor :: "env \<Rightarrow> string \<Rightarrow> conns \<Rightarrow> history \<Rightarrow> history \<times> bool" where
  "CheckJetStreamFor env cluster b w =
     (case map_of (bn_cells b) cluster of
        None \<Rightarrow> (w, False)
      | Some cell \<Rightarrow>
         (case isConnected env cell w of
            (w, False) \<Rightarrow> (w, False)
          | (w, True) \<Rightarrow> (w, cell_js cell \<noteq> None)))"

definition CheckJetStream :: "env \<Rightarrow> conns \<Rightarrow> history \<Rightarrow> history \<times> bool" where
  "CheckJetStream env b w = CheckJetStreamFor env [] b w"

text \<open>\<open>dialCell\<close>: the options of the client, in the order they are appended, and the dial.\<close>

definition client_name :: "NATSConfig \<Rightarrow> string" where
  "client_name config =
     (if nats_Name config \<noteq> [] then nats_ClientName config @ '' ['' @ nats_Name config @ '']''
      else nats_ClientName config)"

definition dial_options :: "NATSConfig \<Rightarrow> nats_option list" where
  "dial_options config =
     (let options = [Name (client_name config), MaxReconnects (nats_MaxReconnects config),
            ReconnectWait (milliseconds (nats_ReconnectWait config)),
            Timeout (milliseconds (nats_ConnectTimeout config)),
            ErrorHandler, DiscoveredServersHandler, DisconnectHandler, ReconnectHandler, ClosedHandler,
            NoCallbacksAfterClientClose];
          options = (if tls_Root (nats_TLS config) \<noteq> []
            then options @ [RootCAs (tls_Root (nats_TLS config))] else options);
          options = (if tls_Cert (nats_TLS config) \<noteq> []
            then options @ [ClientCert (tls_Cert (nats_TLS config)) (tls_Key (nats_TLS config))] else options)
      in if nats_UserCredentials config \<noteq> [] then options @ [UserCredentials (nats_UserCredentials config)]
         else options)"

definition dialCell :: "env \<Rightarrow> natsCell \<Rightarrow> history \<Rightarrow> history \<times> (goerr + nat)" where
  "dialCell env cell w =
     (let config = cell_config cell;
          connect = (\<lambda>options w. call_handle env (NatsConnect (Join (nats_Servers config) (CHR '','')) options) w)
      in if nats_UserNKEY config \<noteq> [] then
           (case call_err env (NkeyOptionFromSeed (nats_UserNKEY config)) w of
              (w, Some e) \<Rightarrow> (w, Inl e)
            | (w, None) \<Rightarrow> connect (dial_options config @ [Nkey (nats_UserNKEY config)]) w)
         else connect (dial_options config) w)"

definition new_cell :: "NATSConfig \<Rightarrow> natsCell" where
  "new_cell c = \<lparr>cell_config = c, cell_nc = None, cell_js = None\<rparr>"

definition build_cells :: "NATSKafkaBridgeConfig \<Rightarrow> (string, natsCell) gomap" where
  "build_cells cfg =
     fold (\<lambda>c m. map_put (nats_Name c) (new_cell c) m) (b_NATSClusters cfg) [([], new_cell (b_NATS cfg))]"

definition update_cell :: "string \<Rightarrow> natsCell \<Rightarrow> conns \<Rightarrow> conns" where
  "update_cell name cell b = b\<lparr>bn_cells := map_put name cell (bn_cells b)\<rparr>"

fun dial_cells :: "env \<Rightarrow> (string \<times> natsCell) list \<Rightarrow> conns \<Rightarrow> history \<Rightarrow> (conns \<times> history) \<times> goerr option" where
  "dial_cells env [] b w = ((b, w), None)"
| "dial_cells env ((name, cell) # rest) b w =
     (case dialCell env cell w of
        (w, Inl e) \<Rightarrow>
          if nats_Name (cell_config cell) = [] then ((b, w), Some e)
          else dial_cells env rest b w
      | (w, Inr nc) \<Rightarrow> dial_cells env rest (update_cell name (cell\<lparr>cell_nc := Some nc\<rparr>) b) w)"

definition connectToNATS ::
  "env \<Rightarrow> ((string, natsCell) gomap \<Rightarrow> (string \<times> natsCell) list) \<Rightarrow> bool \<Rightarrow> NATSKafkaBridgeConfig \<Rightarrow>
   conns \<Rightarrow> history \<Rightarrow> (conns \<times> history) \<times> goerr option" where
  "connectToNATS env order running cfg b w =
     (if \<not> running then ((b, w), None)
      else let b = b\<lparr>bn_cells := build_cells cfg\<rparr> in dial_cells env (order (bn_cells b)) b w)"

definition connectToSTAN ::
  "env \<Rightarrow> string \<Rightarrow> NATSKafkaBridgeConfig \<Rightarrow> conns \<Rightarrow> history \<Rightarrow> (conns \<times> history) \<times> goerr option" where
  "connectToSTAN env DefaultDiscoverPrefix cfg b w =
     (if bn_stan b \<noteq> None then ((b, w), None)
      else if stan_ClusterID (b_STAN cfg) = [] then ((b, w), None)
      else case NATSFor [] b of
        None \<Rightarrow> ((b, w), Some (Errorf ''default NATS connection is not available for NATS streaming'' []))
      | Some nc \<Rightarrow>
         (let config = b_STAN cfg;
              config = (if stan_DiscoverPrefix config = []
                then config\<lparr>stan_DiscoverPrefix := DefaultDiscoverPrefix\<rparr> else config)
          in case call_handle env (StanConnect \<lparr>so_ClusterID = stan_ClusterID config,
                    so_ClientID = stan_ClientID config, so_NatsConn = nc,
                    so_PubAckWait = milliseconds (stan_PubAckWait config),
                    so_MaxPubAcksInflight = stan_MaxPubAcksInflight config,
                    so_ConnectWait = milliseconds (stan_ConnectWait config),
                    so_DiscoverPrefix = stan_DiscoverPrefix config\<rparr>) w of
               (w, Inl e) \<Rightarrow> ((b, w), Some e)
             | (w, Inr sc) \<Rightarrow> ((b\<lparr>bn_stan := Some sc\<rparr>, w), None)))"

definition cellHasJetStream :: "NATSKafkaBridgeConfig \<Rightarrow> string \<Rightarrow> bool" where
  "cellHasJetStream cfg name =
     list_ex (\<lambda>c. cc_NATSConnection c = name \<and> Contains (cc_Type c) ''JetStream'') (b_Connect cfg)"

definition js_options :: "JetStreamConfig \<Rightarrow> js_option list" where
  "js_options c =
     (if 0 < js_MaxWait c then [MaxWait (milliseconds (js_MaxWait c))] else []) @
     (if 0 < js_PublishAsyncMaxPending c then [PublishAsyncMaxPending (js_PublishAsyncMaxPending c)] else [])"

definition connectCellJetStream ::
  "env \<Rightarrow> NATSKafkaBridgeConfig \<Rightarrow> string \<Rightarrow> natsCell \<Rightarrow> conns \<Rightarrow> history \<Rightarrow> (conns \<times> history) \<times> unit res" where
  "connectCellJetStream env cfg name cell b w =
     (case cell_nc cell of
        None \<Rightarrow> ((b, w), Panic NilDeref)
      | Some nc \<Rightarrow>
         (case call_handle env (NewJetStream nc (js_options (b_JetStream cfg))) w of
            (w, Inl e) \<Rightarrow> ((b, w), Fail e)
          | (w, Inr js) \<Rightarrow> ((update_cell name (cell\<lparr>cell_js := Some js\<rparr>) b, w), Ret ())))"

fun connect_js ::
  "env \<Rightarrow> NATSKafkaBridgeConfig \<Rightarrow> (string \<times> natsCell) list \<Rightarrow> conns \<Rightarrow> history \<Rightarrow> (conns \<times> history) \<times> unit res" where
  "connect_js env cfg [] b w = ((b, w), Ret ())"
| "connect_js env cfg ((name, cell) # rest) b w =
     (if \<not> cellHasJetStream cfg (nats_Name (cell_config cell)) then connect_js env cfg rest b w
      else if cell_js cell \<noteq> None \<or> cell_nc cell = None then connect_js env cfg rest b w
      else case connectCellJetStream env cfg name cell b w of
        ((b, w), Ret _) \<Rightarrow> connect_js env cfg rest b w
      | ((b, w), r) \<Rightarrow> ((b, w), r))"

definition connectToJetStream ::
  "env \<Rightarrow> ((string, natsCell) gomap \<Rightarrow> (string \<times> natsCell) list) \<Rightarrow> NATSKafkaBridgeConfig \<Rightarrow>
   conns \<Rightarrow> history \<Rightarrow> (conns \<times> history) \<times> unit res" where
  "connectToJetStream env order cfg b w = connect_js env cfg (order (bn_cells b)) b w"

text \<open>
  \<open>redialCell\<close> in its phases. The first runs under the lock and decides whether to dial; the dial
  runs without the lock; the second takes the lock, and keeps or closes what was dialled; the third
  gives the cell its JetStream context.
\<close>

definition redial_begin :: "env \<Rightarrow> string \<Rightarrow> natsCell \<Rightarrow> conns \<Rightarrow> history \<Rightarrow> (conns \<times> history) \<times> bool" where
  "redial_begin env name cell b w =
     (case (case cell_nc cell of None \<Rightarrow> (w, True) | Some nc \<Rightarrow> call_flag env (IsClosed nc) w) of
        (w, needDial) \<Rightarrow>
          ((if needDial then update_cell name (cell\<lparr>cell_js := None\<rparr>) b else b, w), needDial))"

definition redial_store ::
  "env \<Rightarrow> string \<Rightarrow> natsCell \<Rightarrow> nat \<Rightarrow> conns \<Rightarrow> history \<Rightarrow> (conns \<times> history) \<times> bool" where
  "redial_store env name cell nc b w =
     (case (case cell_nc cell of None \<Rightarrow> (w, False)
              | Some old \<Rightarrow> (case call_flag env (IsClosed old) w of (w, closed) \<Rightarrow> (w, \<not> closed))) of
        (w, True) \<Rightarrow> ((b, fst (call_err env (NatsClose nc) w)), False)
      | (w, False) \<Rightarrow> ((update_cell name (cell\<lparr>cell_nc := Some nc\<rparr>) b, w), True))"

definition redial_js ::
  "env \<Rightarrow> NATSKafkaBridgeConfig \<Rightarrow> string \<Rightarrow> natsCell \<Rightarrow> conns \<Rightarrow> history \<Rightarrow> (conns \<times> history) \<times> unit res" where
  "redial_js env cfg name cell b w =
     (if cell_js cell = None \<and> cellHasJetStream cfg (nats_Name (cell_config cell))
      then connectCellJetStream env cfg name cell b w else ((b, w), Ret ()))"

abbreviation the_cell :: "conns \<Rightarrow> string \<Rightarrow> natsCell" where
  "the_cell b name \<equiv> the (map_of (bn_cells b) name)"

definition redialCell ::
  "env \<Rightarrow> NATSKafkaBridgeConfig \<Rightarrow> string \<Rightarrow> conns \<Rightarrow> history \<Rightarrow> (conns \<times> history) \<times> unit res" where
  "redialCell env cfg name b w =
     (case map_of (bn_cells b) name of
        None \<Rightarrow> ((b, w), Fail (Errorf ''unknown nats cluster %q'' [AStr name]))
      | Some cell \<Rightarrow>
         (case redial_begin env name cell b w of
            ((b, w), False) \<Rightarrow> redial_js env cfg name (the_cell b name) b w
          | ((b, w), True) \<Rightarrow>
             (case dialCell env (the_cell b name) w of
                (w, Inl e) \<Rightarrow> ((b, w), Fail e)
              | (w, Inr nc) \<Rightarrow>
                 (case redial_store env name (the_cell b name) nc b w of
                    ((b, w), False) \<Rightarrow> ((b, w), Ret ())
                  | ((b, w), True) \<Rightarrow> redial_js env cfg name (the_cell b name) b w))))"

section \<open>Lemmas\<close>

lemma update_cell_sel [simp]:
  "map_of (bn_cells (update_cell n c b)) m = (if m = n then Some c else map_of (bn_cells b) m)"
  "bn_stan (update_cell n c b) = bn_stan b"
  "keys (bn_cells (update_cell n c b)) = insert n (keys (bn_cells b))"
  by (simp_all add: update_cell_def update_conv')

lemma NATSFor_update [simp]: "NATSFor m (update_cell n c b) = (if m = n then cell_nc c else NATSFor m b)"
  by (simp add: NATSFor_def)

lemma NATSFor_Some: "NATSFor n b = Some nc \<Longrightarrow> n \<in> keys (bn_cells b)"
  by (auto simp: NATSFor_def map_of_keys [symmetric] split: option.splits)

definition cells_named :: "(string \<times> natsCell) list \<Rightarrow> bool" where
  "cells_named xs \<longleftrightarrow> (\<forall>(n, c) \<in> set xs. nats_Name (cell_config c) = n)"

lemma cells_named_Cons [simp]: "cells_named ((n, c) # xs) \<longleftrightarrow> nats_Name (cell_config c) = n \<and> cells_named xs"
  by (auto simp: cells_named_def)

lemma cells_named_Nil [simp]: "cells_named []"
  by (simp add: cells_named_def)

lemma dial_cells_frame:
  "dial_cells env xs b w = ((b', w'), r) \<Longrightarrow> n \<notin> fst ` set xs \<Longrightarrow> map_of (bn_cells b') n = map_of (bn_cells b) n"
  by (induction env xs b w rule: dial_cells.induct) (auto split: prod.splits sum.splits if_splits)

lemma dial_cells_keys:
  "dial_cells env xs b w = ((b', w'), r) \<Longrightarrow> fst ` set xs \<subseteq> keys (bn_cells b) \<Longrightarrow>
   keys (bn_cells b') = keys (bn_cells b) \<and> bn_stan b' = bn_stan b"
  by (induction env xs b w rule: dial_cells.induct)
    (auto simp: insert_absorb split: prod.splits sum.splits if_splits)

lemma dial_cells_named:
  "dial_cells env xs b w = ((b', w'), r) \<Longrightarrow> [] \<notin> fst ` set xs \<Longrightarrow> cells_named xs \<Longrightarrow> r = None"
  by (induction env xs b w rule: dial_cells.induct) (auto split: prod.splits sum.splits if_splits)

lemma dial_cells_default:
  assumes "dial_cells env xs b w = ((b', w'), r)" and "distinct (map fst xs)" and "cells_named xs"
    and "[] \<in> fst ` set xs" and "NATSFor [] b = None"
  shows "r = None \<longleftrightarrow> NATSFor [] b' \<noteq> None"
  using assms
proof (induction env xs b w rule: dial_cells.induct)
  case (2 env name cell rest b w)
  obtain w1 d where d: "dialCell env cell w = (w1, d)" by (cases "dialCell env cell w")
  show ?case
  proof (cases "name = []")
    case True
    show ?thesis
    proof (cases d)
      case (Inl e)
      then show ?thesis using 2 d True by (auto simp: NATSFor_def)
    next
      case (Inr nc)
      let ?b = "update_cell name (cell\<lparr>cell_nc := Some nc\<rparr>) b"
      have run: "dial_cells env rest ?b w1 = ((b', w'), r)" using "2.prems"(1) d Inr by simp
      have "[] \<notin> fst ` set rest" using "2.prems"(2) True by simp
      then have "NATSFor [] b' = Some nc" using dial_cells_frame [OF run] True by (simp add: NATSFor_def)
      moreover have "r = None" using dial_cells_named [OF run] \<open>[] \<notin> fst ` set rest\<close> "2.prems"(3) by simp
      ultimately show ?thesis by simp
    qed
  next
    case False
    then show ?thesis using 2 d by (auto split: sum.splits)
  qed
qed simp

abbreviation put_cells :: "NATSConfig list \<Rightarrow> (string, natsCell) gomap \<Rightarrow> (string, natsCell) gomap" where
  "put_cells cs m \<equiv> fold (\<lambda>c m. map_put (nats_Name c) (new_cell c) m) cs m"

lemma put_cells_wf: "map_wf m \<Longrightarrow> map_wf (put_cells cs m)"
  by (induction cs arbitrary: m) simp_all

lemma put_cells_keys: "keys (put_cells cs m) = keys m \<union> nats_Name ` set cs"
  by (induction cs arbitrary: m) auto

lemma put_cells_all:
  assumes "\<And>n c. map_of m n = Some c \<Longrightarrow> P n c" and "\<And>k. k \<in> set cs \<Longrightarrow> P (nats_Name k) (new_cell k)"
    and "map_of (put_cells cs m) n = Some c"
  shows "P n c"
  using assms
proof (induction cs arbitrary: m)
  case (Cons k cs)
  show ?case
  proof (rule Cons.IH [of "map_put (nats_Name k) (new_cell k) m"])
    fix n' c'
    assume "map_of (map_put (nats_Name k) (new_cell k) m) n' = Some c'"
    then show "P n' c'" using Cons.prems(1) [of n' c'] Cons.prems(2) [of k]
      by (simp add: update_conv' split: if_splits)
  qed (use Cons.prems in simp_all)
qed simp

lemma build_cells_spec:
  assumes "nats_Name (b_NATS cfg) = []"
  shows "map_wf (build_cells cfg)" and "keys (build_cells cfg) = insert [] (nats_Name ` set (b_NATSClusters cfg))"
    and "cells_named (build_cells cfg)" and "map_of (build_cells cfg) n = Some c \<Longrightarrow> cell_nc c = None"
proof -
  show w: "map_wf (build_cells cfg)" unfolding build_cells_def by (rule put_cells_wf) (simp add: map_wf_def)
  show "keys (build_cells cfg) = insert [] (nats_Name ` set (b_NATSClusters cfg))"
    unfolding build_cells_def put_cells_keys by (simp add: keys_def)
  have all: "nats_Name (cell_config c) = n \<and> cell_nc c = None" if "map_of (build_cells cfg) n = Some c" for n c
    using that unfolding build_cells_def
    by (rule put_cells_all [rotated 2]) (use assms in \<open>auto simp: new_cell_def split: if_splits\<close>)
  then show "map_of (build_cells cfg) n = Some c \<Longrightarrow> cell_nc c = None" by blast
  show "cells_named (build_cells cfg)" using all map_of_in [OF w] by (auto simp: cells_named_def)
qed

text \<open>The cells are filed under their names, and a start keeps that.\<close>

definition cells_right :: "conns \<Rightarrow> bool" where
  "cells_right b \<longleftrightarrow> (\<forall>n c. map_of (bn_cells b) n = Some c \<longrightarrow> nats_Name (cell_config c) = n)"

lemma dial_cells_right:
  "dial_cells env xs b w = ((b', w'), r) \<Longrightarrow> cells_right b \<Longrightarrow> cells_named xs \<Longrightarrow> cells_right b'"
proof (induction env xs b w rule: dial_cells.induct)
  case (2 env name cell rest b w)
  obtain w1 d where d: "dialCell env cell w = (w1, d)" by (metis surj_pair)
  have "cells_right (update_cell name (cell\<lparr>cell_nc := nc\<rparr>) b)" for nc
    using "2.prems"(2,3) by (simp add: cells_right_def)
  then show ?case using 2 d by (cases d) (auto split: if_splits)
qed simp

lemma dial_cells_wf: "dial_cells env xs b w = ((b', w'), r) \<Longrightarrow> map_wf (bn_cells b) \<Longrightarrow> map_wf (bn_cells b')"
  by (induction env xs b w rule: dial_cells.induct) (auto simp: update_cell_def split: prod.splits sum.splits if_splits)

lemma connectToNATS_spec:
  assumes "well_wired cfg" and "map_order order"
    and "connectToNATS env order True cfg b w = ((b', w'), r)"
  shows "keys (bn_cells b') = insert [] (nats_Name ` set (b_NATSClusters cfg)) \<and>
    (r = None \<longleftrightarrow> NATSFor [] b' \<noteq> None) \<and> cells_right b' \<and> map_wf (bn_cells b') \<and> bn_stan b' = bn_stan b"
proof -
  note C = build_cells_spec [of cfg, OF assms(1) [unfolded well_wired_def, THEN conjunct1]]
  let ?b = "b\<lparr>bn_cells := build_cells cfg\<rparr>"
  have run: "dial_cells env (order (build_cells cfg)) ?b w = ((b', w'), r)"
    using assms(3) by (simp add: connectToNATS_def)
  have set: "set (order (build_cells cfg)) = set (build_cells cfg)" using assms(2) by (rule map_order.set_order)
  have dom: "fst ` set (order (build_cells cfg)) = insert [] (nats_Name ` set (b_NATSClusters cfg))"
    unfolding set using C(2) by (simp add: keys_def)
  have "NATSFor [] ?b = None" using C(4) by (auto simp: NATSFor_def split: option.splits)
  moreover have "cells_named (order (build_cells cfg))" using C(3) set by (simp add: cells_named_def)
  moreover have "distinct (map fst (order (build_cells cfg)))" using assms(2) C(1) by (rule map_order.distinct_order)
  ultimately have "r = None \<longleftrightarrow> NATSFor [] b' \<noteq> None" using dial_cells_default [OF run] dom by simp
  moreover have "cells_right ?b" using C(3) by (auto simp: cells_right_def cells_named_def dest!: map_of_SomeD)
  ultimately show ?thesis using dial_cells_keys [OF run] dom C(2,3) dial_cells_right [OF run]
      dial_cells_wf [OF run] C(1) set by (simp add: cells_named_def)
qed

text \<open>The phases of \<open>redialCell\<close>: what each leaves in the cell, and that the rest is untouched.\<close>

definition same_but :: "string \<Rightarrow> conns \<Rightarrow> conns \<Rightarrow> bool" where
  "same_but name b b' \<longleftrightarrow> bn_stan b' = bn_stan b \<and>
     (\<forall>n. n \<noteq> name \<longrightarrow> map_of (bn_cells b') n = map_of (bn_cells b) n)"

lemma same_but_trans: "same_but n a b \<Longrightarrow> same_but n b c \<Longrightarrow> same_but n a c"
  by (simp add: same_but_def)

lemma same_but_update [simp]: "same_but n b (update_cell n c b)" "same_but n b b"
  by (simp_all add: same_but_def)

lemma connectCellJetStream_spec:
  assumes "connectCellJetStream env cfg name cell b w = ((b', w'), r)"
  shows "same_but name b b'" and "cell_nc cell \<noteq> None \<Longrightarrow> \<not> is_panic r"
    and "r = Ret () \<Longrightarrow> NATSFor name b' = cell_nc cell \<and> cell_nc cell \<noteq> None \<and> JetStreamFor name b' \<noteq> None"
  using assms by (auto simp: connectCellJetStream_def JetStreamFor_def split: option.splits prod.splits sum.splits)

lemma redial_js_spec:
  assumes "redial_js env cfg name cell b w = ((b', w'), r)" and "map_of (bn_cells b) name = Some cell"
    and "cell_nc cell \<noteq> None"
  shows "same_but name b b' \<and> \<not> is_panic r \<and> (r = Ret () \<longrightarrow> NATSFor name b' \<noteq> None \<and>
      (cellHasJetStream cfg (nats_Name (cell_config cell)) \<longrightarrow> JetStreamFor name b' \<noteq> None))"
proof (cases "cell_js cell = None \<and> cellHasJetStream cfg (nats_Name (cell_config cell))")
  case True
  then have run: "connectCellJetStream env cfg name cell b w = ((b', w'), r)"
    using assms(1) by (simp add: redial_js_def)
  show ?thesis using connectCellJetStream_spec [OF run] assms(3) by simp
next
  case False
  then have "b' = b" "r = Ret ()" using assms(1) by (auto simp: redial_js_def split: if_splits)
  then show ?thesis using False assms(2,3) by (auto simp: NATSFor_def JetStreamFor_def)
qed

lemma redial_begin_spec:
  assumes "redial_begin env name cell b w = ((b', w'), d)" and "map_of (bn_cells b) name = Some cell"
  shows "same_but name b b'" and "\<exists>c. map_of (bn_cells b') name = Some c \<and> cell_config c = cell_config cell"
    and "\<not> d \<Longrightarrow> b' = b \<and> cell_nc cell \<noteq> None"
  using assms by (auto simp: redial_begin_def split: option.splits prod.splits)

lemma redial_store_spec:
  assumes "redial_store env name cell nc b w = ((b', w'), k)" and "map_of (bn_cells b) name = Some cell"
  shows "same_but name b b'"
    and "k \<Longrightarrow> map_of (bn_cells b') name = Some (cell\<lparr>cell_nc := Some nc\<rparr>)"
    and "\<not> k \<Longrightarrow> b' = b \<and> cell_nc cell \<noteq> None \<and> (\<exists>e. last w' = (NatsClose nc, e))"
  using assms by (auto simp: redial_store_def call_err_def Let_def split: option.splits prod.splits bool.splits)

text \<open>The whole of \<open>redialCell\<close>: either it kept a client someone else had installed (and closed its own),
  or the cell ends with a client and the JetStream context it needs.\<close>

lemma redialCell_spec:
  assumes "redialCell env cfg name b w = ((b', w'), r)" and "map_of (bn_cells b) name = Some cell"
  shows "same_but name b b' \<and> \<not> is_panic r \<and> (r = Ret () \<longrightarrow> NATSFor name b' \<noteq> None \<and>
      (cellHasJetStream cfg (nats_Name (cell_config cell)) \<longrightarrow>
        JetStreamFor name b' \<noteq> None \<or> (\<exists>nc e. last w' = (NatsClose nc, e))))"
proof -
  obtain b1 w1 d where start: "redial_begin env name cell b w = ((b1, w1), d)" by (metis surj_pair)
  note B = redial_begin_spec [OF start assms(2)]
  obtain c where c: "map_of (bn_cells b1) name = Some c" "cell_config c = cell_config cell" using B(2) by blast
  show ?thesis
  proof (cases d)
    case False
    then have "redial_js env cfg name cell b w1 = ((b', w'), r)" "cell_nc cell \<noteq> None"
      using assms start B(3) by (auto simp: redialCell_def)
    then show ?thesis using redial_js_spec assms(2) by blast
  next
    case True
    obtain w2 dial where dial: "dialCell env c w1 = (w2, dial)" by (metis surj_pair)
    show ?thesis
    proof (cases dial)
      case (Inl e)
      then have "b' = b1" "r = Fail e" using assms start True c(1) dial by (auto simp: redialCell_def)
      then show ?thesis using B(1) by simp
    next
      case (Inr nc)
      obtain b2 w3 k where store: "redial_store env name c nc b1 w2 = ((b2, w3), k)" by (metis surj_pair)
      note S = redial_store_spec [OF store c(1)]
      show ?thesis
      proof (cases k)
        case True
        then have "redial_js env cfg name (c\<lparr>cell_nc := Some nc\<rparr>) b2 w3 = ((b', w'), r)"
          using assms start \<open>d\<close> c(1) dial Inr store S(2) by (simp add: redialCell_def)
        from redial_js_spec [OF this S(2) [OF True]] show ?thesis
          using B(1) S(1) c(2) same_but_trans by auto
      next
        case False
        then have "b' = b2" "w' = w3" "r = Ret ()" using assms start \<open>d\<close> c(1) dial Inr store
          by (simp_all add: redialCell_def)
        then show ?thesis using B(1) S(1,3) False c(1) by (auto simp: NATSFor_def)
      qed
    qed
  qed
qed

section \<open>Properties\<close>

text \<open>C14. At startup only the default cluster decides: for a configuration that validation accepts, whatever
  the order in which the cells are dialled and whatever happens to the named clusters, the bridge has
  one cell per configured cluster and the default one, and \<^verbatim>\<open>connectToNATS\<close> reports success exactly
  when the default cluster is connected.\<close>

theorem default_cluster_decides:
  assumes "well_wired cfg" and "map_order order"
    and "connectToNATS env order True cfg b w = ((b', w'), r)"
  shows "keys (bn_cells b') = insert [] (nats_Name ` set (b_NATSClusters cfg)) \<and>
    (r = None \<longleftrightarrow> NATSFor [] b' \<noteq> None)"
  using connectToNATS_spec [OF assms] by blast

definition no_conns :: conns where
  "no_conns = \<lparr>bn_cells = [], bn_stan = None\<rparr>"

theorem default_cluster_decides_witness:
  "\<exists>b' w' r. connectToNATS calm_env (\<lambda>m. m) True two_cells no_conns [] = ((b', w'), r) \<and>
    keys (bn_cells b') = insert [] (nats_Name ` set (b_NATSClusters two_cells)) \<and>
    (r = None \<longleftrightarrow> NATSFor [] b' \<noteq> None)"
proof -
  obtain b' w' r where run: "connectToNATS calm_env (\<lambda>m. m) True two_cells no_conns [] = ((b', w'), r)"
    by (metis surj_pair)
  from default_cluster_decides [OF two_cells_wired insertion_order.map_order_axioms run] run
  show ?thesis by (intro exI conjI) (assumption | simp)+
qed

text \<open>C15. Re-dialling a cluster never panics and never touches another cluster or the streaming connection.
  When it reports success the cluster has a client; it also has the JetStream context its connectors
  need, unless the dial lost the race against another one and its own connection was closed.\<close>

theorem redial_restores_cell:
  assumes "redialCell env cfg name b w = ((b', w'), r)" and "map_of (bn_cells b) name = Some cell"
  shows "\<not> is_panic r \<and> bn_stan b' = bn_stan b \<and>
    (\<forall>n. n \<noteq> name \<longrightarrow> map_of (bn_cells b') n = map_of (bn_cells b) n) \<and>
    (r = Ret () \<longrightarrow> NATSFor name b' \<noteq> None \<and>
      (cellHasJetStream cfg (nats_Name (cell_config cell)) \<longrightarrow>
        JetStreamFor name b' \<noteq> None \<or> (\<exists>nc e. last w' = (NatsClose nc, e))))"
  using redialCell_spec [OF assms] by (simp add: same_but_def)

definition js_cell :: natsCell where
  "js_cell = new_cell (zero_NATSConfig\<lparr>nats_Name := ''cell-b''\<rparr>)"

definition js_config :: NATSKafkaBridgeConfig where
  "js_config = DefaultBridgeConfig\<lparr>b_Connect :=
     [zero_ConnectorConfig\<lparr>cc_NATSConnection := ''cell-b'', cc_Type := JetStreamToKafka\<rparr>]\<rparr>"

theorem redial_restores_cell_witness:
  "\<exists>b' w'. redialCell calm_env js_config ''cell-b'' \<lparr>bn_cells = [(''cell-b'', js_cell)], bn_stan = None\<rparr> [] =
      ((b', w'), Ret ()) \<and> NATSFor ''cell-b'' b' \<noteq> None \<and>
      (JetStreamFor ''cell-b'' b' \<noteq> None \<or> (\<exists>nc e. last w' = (NatsClose nc, e)))"
proof -
  let ?b = "\<lparr>bn_cells = [(''cell-b'', js_cell)], bn_stan = None\<rparr>"
  have cell: "map_of (bn_cells ?b) ''cell-b'' = Some js_cell" by simp
  have js: "cellHasJetStream js_config (nats_Name (cell_config js_cell))"
    by (simp add: cellHasJetStream_def js_config_def js_cell_def new_cell_def DefaultBridgeConfig_def
        zero_config_defs connector_type_defs)
  obtain b' w' where run: "redialCell calm_env js_config ''cell-b'' ?b [] = ((b', w'), Ret ())"
    using js by (simp add: redialCell_def redial_begin_def redial_store_def redial_js_def dialCell_def
        connectCellJetStream_def js_cell_def new_cell_def zero_config_defs)
  note ok = redial_restores_cell [OF run cell, THEN conjunct2, THEN conjunct2, THEN conjunct2, THEN mp, OF refl]
  show ?thesis
  proof (intro exI conjI)
    show "redialCell calm_env js_config ''cell-b'' ?b [] = ((b', w'), Ret ())" by (rule run)
    show "NATSFor ''cell-b'' b' \<noteq> None" using ok by (rule conjunct1)
    show "JetStreamFor ''cell-b'' b' \<noteq> None \<or> (\<exists>nc e. last w' = (NatsClose nc, e))"
      using ok [THEN conjunct2] js by (rule mp)
  qed
qed

end
