(* ===== verification/Float64.thy ===== *)
theory Float64
  imports Complex_Main "HOL-Library.Log_Nat" Prelude
begin

text \<open>
  Go's \<^verbatim>\<open>float64\<close> arithmetic. A finite float64 is the rational number it denotes, and every
  operation is the exact rational operation followed by a rounding \<open>fl\<close>; the definitions of the
  components that compute with floats take \<open>fl\<close> as an argument. \<open>fl64\<close> is the rounding of
  IEEE 754 binary64: to the nearest multiple of the unit in the last place of a 53-bit
  significand (with gradual underflow), ties to even. Infinities and NaN are not represented:
  every value the bridge computes stays far below \<open>2 ^ 1024\<close> (durations in nanoseconds, message
  counts and their products), and it never divides by zero.

  The locale \<open>float_rounding\<close> is what the proofs need of a rounding: it is monotone and leaves
  every \<open>m * 2 ^ k\<close> with \<open>m\<close> up to \<open>2 ^ 53\<close> alone. \<open>fl64\<close> satisfies it, and so does exact
  arithmetic, the identity.
\<close>

type_synonym rounding = "rat \<Rightarrow> rat"

section \<open>Definitions\<close>

definition pow2 :: "int \<Rightarrow> rat" where
  "pow2 e = (if 0 \<le> e then 2 ^ nat e else 1 / 2 ^ nat (- e))"

text \<open>The exponent of a positive rational: \<open>pow2 (ilog x) \<le> x < pow2 (ilog x + 1)\<close>.\<close>

definition ilog :: "rat \<Rightarrow> int" where
  "ilog x = (case quotient_of x of (a, b) \<Rightarrow>
     let k = bitlen a - bitlen b in if pow2 k \<le> x then k else k - 1)"

definition round_half_even :: "rat \<Rightarrow> int" where
  "round_half_even r =
     (let f = \<lfloor>r\<rfloor>; d = r - of_int f in
      if d < 1 / 2 then f else if 1 / 2 < d then f + 1 else if even f then f else f + 1)"

definition ulp_exp :: "rat \<Rightarrow> int" where
  "ulp_exp x = max (ilog x - 52) (- 1074)"

definition fl_pos :: "rat \<Rightarrow> rat" where
  "fl_pos x = of_int (round_half_even (x / pow2 (ulp_exp x))) * pow2 (ulp_exp x)"

definition fl64 :: rounding where
  "fl64 x = (if x = 0 then 0 else if 0 < x then fl_pos x else - fl_pos (- x))"

section \<open>The contract of a rounding\<close>

locale float_rounding =
  fixes fl :: rounding
  assumes fl_mono: "x \<le> y \<Longrightarrow> fl x \<le> fl y"
    and fl_exact: "\<bar>m\<bar> \<le> 2 ^ 53 \<Longrightarrow> fl (of_int m * 2 ^ k) = of_int m * 2 ^ k"
begin

lemma fl_int: "\<bar>m\<bar> \<le> 2 ^ 53 \<Longrightarrow> fl (of_int m) = of_int m"
  using fl_exact [of m 0] by simp

lemma fl_nat: "n \<le> 2 ^ 53 \<Longrightarrow> fl (of_nat n) = of_nat n"
  using fl_int [of "int n"] by (metis abs_of_nat of_int_of_nat_eq of_nat_le_iff of_nat_numeral of_nat_power)

lemma fl_0: "fl 0 = 0"
  using fl_int [of 0] by simp

lemma fl_nonneg: "0 \<le> x \<Longrightarrow> 0 \<le> fl x"
  using fl_mono [of 0 x] by (simp add: fl_0)

lemma fl_le_nat: "x \<le> of_nat n \<Longrightarrow> n \<le> 2 ^ 53 \<Longrightarrow> fl x \<le> of_nat n"
  using fl_mono [of x "of_nat n"] by (simp add: fl_nat)

lemma fl_le_scaled: "x \<le> of_nat n * 2 ^ k \<Longrightarrow> n \<le> 2 ^ 53 \<Longrightarrow> fl x \<le> of_nat n * 2 ^ k"
  using fl_mono [of x "of_nat n * 2 ^ k"] fl_exact [of "int n" k]
  by (metis abs_of_nat of_int_of_nat_eq of_nat_le_iff of_nat_numeral of_nat_power)

end

interpretation exact: float_rounding "\<lambda>x. x"
  by unfold_locales auto

section \<open>binary64 satisfies it\<close>

lemma pow2_pos [simp]: "0 < pow2 e"
  by (simp add: pow2_def)

lemma pow2_add: "pow2 (a + b) = pow2 a * pow2 b"
proof -
  have "pow2 e = power_int 2 e" for e
    by (simp add: pow2_def power_int_def inverse_eq_divide power_one_over)
  then show ?thesis by (simp add: power_int_add)
qed

lemma pow2_nonneg: "0 \<le> e \<Longrightarrow> pow2 e = of_int (2 ^ nat e)"
  by (simp add: pow2_def)

lemma pow2_diff: "pow2 a / pow2 b = pow2 (a - b)"
  using pow2_add [of "a - b" b] by (simp add: field_simps) (metis less_irrefl pow2_pos)

lemma pow2_mono: "a \<le> b \<Longrightarrow> pow2 a \<le> pow2 b"
proof -
  assume "a \<le> b"
  then have "1 \<le> pow2 (b - a)" by (simp add: pow2_def)
  then have "1 * pow2 a \<le> pow2 (b - a) * pow2 a" by (intro mult_right_mono) (simp_all add: less_imp_le)
  then show ?thesis using pow2_add [of "b - a" a] by simp
qed

lemma ilog_bounds: "0 < x \<Longrightarrow> pow2 (ilog x) \<le> x \<and> x < pow2 (ilog x + 1)"
proof -
  assume x: "0 < x"
  obtain a b where q: "quotient_of x = (a, b)" by (cases "quotient_of x")
  have xq: "x = of_int a / of_int b" and b: "0 < b" using q quotient_of_div quotient_of_denom_pos by auto
  with x have a: "0 < a" by (simp add: zero_less_divide_iff)
  have ba: "2 ^ nat (bitlen a - 1) \<le> a \<and> a < 2 ^ nat (bitlen a)" using bitlen_bounds [OF a] .
  have bb: "2 ^ nat (bitlen b - 1) \<le> b \<and> b < 2 ^ nat (bitlen b)" using bitlen_bounds [OF b] .
  have pa: "0 < bitlen a" and pb: "0 < bitlen b" using a b bitlen_eq_zero_iff bitlen_nonneg
    by (metis less_le not_le)+
  have la: "pow2 (bitlen a - 1) \<le> of_int a" "of_int a < pow2 (bitlen a)"
    using ba pa by (metis of_int_le_iff pow2_nonneg diff_ge_0_iff_ge int_one_le_iff_zero_less)
      (use ba pa in \<open>metis of_int_less_iff pow2_nonneg less_imp_le\<close>)
  have lb: "pow2 (bitlen b - 1) \<le> of_int b" "of_int b < pow2 (bitlen b)"
    using bb pb by (metis of_int_le_iff pow2_nonneg diff_ge_0_iff_ge int_one_le_iff_zero_less)
      (use bb pb in \<open>metis of_int_less_iff pow2_nonneg less_imp_le\<close>)
  let ?k = "bitlen a - bitlen b"
  have "x < pow2 (bitlen a) / pow2 (bitlen b - 1)"
    unfolding xq using la lb b by (intro frac_less) (auto simp: less_imp_le a)
  then have up: "x < pow2 (?k + 1)" by (simp add: pow2_diff algebra_simps)
  have "pow2 (bitlen a - 1) / pow2 (bitlen b) < x"
    unfolding xq using la lb b by (intro frac_less2) auto
  then have lo: "pow2 (?k - 1) \<le> x" by (simp add: pow2_diff algebra_simps)
  show ?thesis using up lo by (simp add: ilog_def q Let_def not_le)
qed

lemma ilog_eqI: "pow2 e \<le> x \<Longrightarrow> x < pow2 (e + 1) \<Longrightarrow> ilog x = e"
proof (rule ccontr)
  assume h: "pow2 e \<le> x" "x < pow2 (e + 1)" and ne: "ilog x \<noteq> e"
  have "0 < x" using h(1) pow2_pos [of e] by linarith
  then have b: "pow2 (ilog x) \<le> x" "x < pow2 (ilog x + 1)" using ilog_bounds by auto
  show False
  proof (cases "ilog x < e")
    case True
    then show False using b(2) h(1) pow2_mono [of "ilog x + 1" e] by simp
  next
    case False
    then show False using ne b(1) h(2) pow2_mono [of "e + 1" "ilog x"] by simp
  qed
qed

lemma ilog_mono: "0 < x \<Longrightarrow> x \<le> y \<Longrightarrow> ilog x \<le> ilog y"
proof (rule ccontr)
  assume h: "0 < x" "x \<le> y" and "\<not> ilog x \<le> ilog y"
  then have "pow2 (ilog y + 1) \<le> pow2 (ilog x)" by (intro pow2_mono) simp
  then show False using ilog_bounds [of x] ilog_bounds [of y] h by linarith
qed

lemma round_half_even_int [simp]: "round_half_even (of_int n) = n"
  by (simp add: round_half_even_def)

lemma round_half_even_floor: "\<lfloor>r\<rfloor> \<le> round_half_even r \<and> round_half_even r \<le> \<lfloor>r\<rfloor> + 1"
  by (simp add: round_half_even_def Let_def)

lemma round_half_even_mono: "r \<le> s \<Longrightarrow> round_half_even r \<le> round_half_even s"
proof (cases "\<lfloor>r\<rfloor> = \<lfloor>s\<rfloor>")
  case True
  assume "r \<le> s"
  then show ?thesis using True by (auto simp: round_half_even_def Let_def)
next
  case False
  assume "r \<le> s"
  then have "\<lfloor>r\<rfloor> + 1 \<le> \<lfloor>s\<rfloor>" using False floor_mono [of r s] by linarith
  then show ?thesis using round_half_even_floor [of r] round_half_even_floor [of s] by linarith
qed

lemma round_half_even_le: "r \<le> of_int n \<Longrightarrow> round_half_even r \<le> n"
  using round_half_even_mono [of r "of_int n"] by simp

lemma round_half_even_ge: "of_int n \<le> r \<Longrightarrow> n \<le> round_half_even r"
  using round_half_even_mono [of "of_int n" r] by simp

text \<open>A power of two at or above the unit in the last place bounds the rounding from either side.\<close>

lemma fl_pos_le_pow2:
  assumes "x \<le> pow2 e" and "ulp_exp x \<le> e"
  shows "fl_pos x \<le> pow2 e"
proof -
  let ?u = "pow2 (ulp_exp x)"
  have r: "pow2 e / ?u = of_int (2 ^ nat (e - ulp_exp x))"
    using assms(2) by (simp only: pow2_diff pow2_nonneg diff_ge_0_iff_ge)
  have "x / ?u \<le> of_int (2 ^ nat (e - ulp_exp x))"
    using assms(1) r by (metis divide_right_mono less_imp_le pow2_pos)
  then have "round_half_even (x / ?u) \<le> 2 ^ nat (e - ulp_exp x)" by (rule round_half_even_le)
  then have "of_int (round_half_even (x / ?u)) \<le> pow2 e / ?u" unfolding r by (simp only: of_int_le_iff)
  then show ?thesis by (simp add: fl_pos_def pos_le_divide_eq)
qed

lemma fl_pos_ge_pow2:
  assumes "pow2 e \<le> x" and "ulp_exp x \<le> e"
  shows "pow2 e \<le> fl_pos x"
proof -
  let ?u = "pow2 (ulp_exp x)"
  have r: "pow2 e / ?u = of_int (2 ^ nat (e - ulp_exp x))"
    using assms(2) by (simp only: pow2_diff pow2_nonneg diff_ge_0_iff_ge)
  have "of_int (2 ^ nat (e - ulp_exp x)) \<le> x / ?u"
    using assms(1) r by (metis divide_right_mono less_imp_le pow2_pos)
  then have "2 ^ nat (e - ulp_exp x) \<le> round_half_even (x / ?u)" by (rule round_half_even_ge)
  then have "pow2 e / ?u \<le> of_int (round_half_even (x / ?u))" unfolding r by (simp only: of_int_le_iff)
  then show ?thesis by (simp add: fl_pos_def pos_divide_le_eq)
qed

lemma fl_pos_mono:
  assumes "0 < x" and "x \<le> y"
  shows "fl_pos x \<le> fl_pos y"
proof (cases "ulp_exp x = ulp_exp y")
  case True
  have "x / pow2 (ulp_exp y) \<le> y / pow2 (ulp_exp y)"
    using assms(2) by (intro divide_right_mono) (simp_all add: less_imp_le)
  then have "round_half_even (x / pow2 (ulp_exp y)) \<le> round_half_even (y / pow2 (ulp_exp y))"
    by (rule round_half_even_mono)
  then show ?thesis unfolding fl_pos_def True
    by (intro mult_right_mono) (simp_all add: less_imp_le)
next
  case False
  have le: "ilog x \<le> ilog y" using assms by (rule ilog_mono)
  with False have lt: "ilog x + 1 \<le> ilog y" and uy: "ulp_exp y = ilog y - 52" and
    ux: "ulp_exp x \<le> ilog y" by (auto simp: ulp_exp_def max_def split: if_splits)
  have "x \<le> pow2 (ilog y)"
    using ilog_bounds [OF assms(1)] pow2_mono [OF lt] by linarith
  then have "fl_pos x \<le> pow2 (ilog y)" using ux by (rule fl_pos_le_pow2)
  also have "\<dots> \<le> fl_pos y" using ilog_bounds [of y] assms uy by (intro fl_pos_ge_pow2) auto
  finally show ?thesis .
qed

lemma fl_pos_nonneg: "0 < x \<Longrightarrow> 0 \<le> fl_pos x"
  unfolding fl_pos_def by (intro mult_nonneg_nonneg) (simp_all add: less_imp_le round_half_even_ge)

lemma fl64_mono: "x \<le> y \<Longrightarrow> fl64 x \<le> fl64 y"
  using fl_pos_mono [of x y] fl_pos_mono [of "- y" "- x"] fl_pos_nonneg [of y] fl_pos_nonneg [of "- x"]
  by (auto simp: fl64_def)

lemma fl_pos_exact:
  assumes "0 < m" and "m \<le> 2 ^ 53"
  shows "fl_pos (of_int m * 2 ^ k) = of_int m * 2 ^ k"
proof -
  let ?x = "of_int m * 2 ^ k :: rat"
  have k: "(2 :: rat) ^ k = pow2 (int k)" by (simp add: pow2_def)
  have x1: "1 \<le> ?x" using assms(1) mult_mono [of 1 "of_int m :: rat" 1 "2 ^ k"] by simp
  have il0: "0 \<le> ilog ?x" using ilog_mono [of 1 ?x] ilog_eqI [of 0 1] x1 by (simp add: pow2_def)
  have ue: "ulp_exp ?x = ilog ?x - 52" using il0 by (simp add: ulp_exp_def)
  have "\<exists>n. ?x / pow2 (ulp_exp ?x) = of_int n"
  proof (cases "ilog ?x - 52 \<le> int k")
    case True
    have "?x / pow2 (ulp_exp ?x) = of_int m * pow2 (int k - (ilog ?x - 52))"
      using ue by (simp only: k times_divide_eq_right [symmetric] pow2_diff)
    also have "\<dots> = of_int (m * 2 ^ nat (int k - (ilog ?x - 52)))"
      using True by (simp add: pow2_nonneg)
    finally show ?thesis by blast
  next
    case False
    have "pow2 (ilog ?x) \<le> ?x" using ilog_bounds [of ?x] x1 by linarith
    also have "?x \<le> pow2 53 * pow2 (int k)"
      unfolding k using assms(2) by (intro mult_right_mono) (simp_all add: less_imp_le pow2_def of_int_le_numeral_power_cancel_iff)
    also have "\<dots> = pow2 (53 + int k)" by (simp only: pow2_add)
    finally have "\<not> 53 + int k + 1 \<le> ilog ?x"
      using pow2_mono [of "53 + int k + 1" "ilog ?x"] pow2_add [of "53 + int k" 1] pow2_pos [of "53 + int k"]
      by (auto simp: pow2_def)
    with False have il: "ilog ?x = 53 + int k" by simp
    have "pow2 (53 + int k) \<le> ?x" using ilog_bounds [of ?x] x1 il by auto
    with \<open>?x \<le> pow2 53 * pow2 (int k)\<close> have "?x = pow2 (53 + int k)" by (simp add: pow2_add)
    then have "?x / pow2 (ulp_exp ?x) = pow2 52" unfolding ue il by (simp add: pow2_diff)
    then have "?x / pow2 (ulp_exp ?x) = of_int (2 ^ 52)" by (simp add: pow2_def)
    then show ?thesis by blast
  qed
  then obtain n where n: "?x / pow2 (ulp_exp ?x) = of_int n" by blast
  then have "fl_pos ?x = of_int n * pow2 (ulp_exp ?x)" by (simp add: fl_pos_def)
  also have "\<dots> = ?x" unfolding n [symmetric] by (metis less_irrefl nonzero_eq_divide_eq pow2_pos)
  finally show ?thesis .
qed

lemma fl64_exact: "\<bar>m\<bar> \<le> 2 ^ 53 \<Longrightarrow> fl64 (of_int m * 2 ^ k) = of_int m * 2 ^ k"
proof -
  assume h: "\<bar>m\<bar> \<le> 2 ^ 53"
  consider "m = 0" | "0 < m" | "m < 0" by linarith
  then show ?thesis
  proof cases
    case 2
    then show ?thesis using h fl_pos_exact [of m k] by (simp add: fl64_def)
  next
    case 3
    then have "of_int m * (2 :: rat) ^ k < 0" by (simp add: mult_neg_pos)
    then show ?thesis using h 3 fl_pos_exact [of "- m" k] by (simp add: fl64_def)
  qed (simp add: fl64_def)
qed

interpretation b64: float_rounding fl64
  by unfold_locales (simp_all add: fl64_mono fl64_exact)

end
