(* ===== verification/Histogram.thy ===== *)
theory Histogram
  imports Float64
begin

text \<open>
  The streaming histogram of \<^verbatim>\<open>server/core/histogram.go\<close>, which a connector's statistics use
  to estimate quantiles of the request times. A bin's value and count are \<^verbatim>\<open>float64\<close>
  numbers, the total is a \<^verbatim>\<open>uint64\<close> and wraps around. Every float operation is rounded by
  the argument \<open>fl\<close> (see \<open>Float64\<close>), in the order the source evaluates it and with no fused
  multiply-add. Reading the bin at index \<open>-1\<close>, which \<open>trim\<close> does when it has found no pair of
  neighbours closer than \<open>1e99\<close>, is a panic.
\<close>

section \<open>Definitions\<close>

record Bin =
  Value :: rat
  Count :: rat

record Histogram =
  Bins :: "Bin list"
  MaxBins :: int
  Total :: uint64

definition NewHistogram :: "int \<Rightarrow> Histogram" where
  "NewHistogram n = \<lparr>Bins = [], MaxBins = n, Total = 0\<rparr>"

definition Scale :: "rounding \<Rightarrow> rat \<Rightarrow> Histogram \<Rightarrow> Histogram" where
  "Scale fl s h = h\<lparr>Bins := map (\<lambda>b. b\<lparr>Value := fl (Value b * s)\<rparr>) (Bins h)\<rparr>"

text \<open>The search of \<^verbatim>\<open>trim\<close> for the closest neighbours, at the pair with right index \<open>i\<close>.\<close>

fun min_delta_index :: "rounding \<Rightarrow> nat \<Rightarrow> rat \<Rightarrow> nat \<Rightarrow> Bin list \<Rightarrow> nat" where
  "min_delta_index fl i minDelta minDeltaIndex (a # b # bs) =
     (let delta = fl (Value b - Value a) in
      if delta < minDelta then min_delta_index fl (Suc i) delta i (b # bs)
      else min_delta_index fl (Suc i) minDelta minDeltaIndex (b # bs))"
| "min_delta_index fl i minDelta minDeltaIndex _ = minDeltaIndex"

definition merge_bins :: "rounding \<Rightarrow> Bin \<Rightarrow> Bin \<Rightarrow> Bin" where
  "merge_bins fl a b =
     (let totalCount = fl (Count a + Count b) in
      \<lparr>Value = fl (fl (fl (Value a * Count a) + fl (Value b * Count b)) / totalCount),
       Count = totalCount\<rparr>)"

definition merge_closest :: "rounding \<Rightarrow> Bin list \<Rightarrow> Bin list res" where
  "merge_closest fl bins =
     (let i = min_delta_index fl 1 (fl (10 ^ 99)) 0 bins in
      if i = 0 \<or> length bins \<le> i then Panic IndexOutOfRange
      else Ret (take (i - 1) bins @ merge_bins fl (bins ! (i - 1)) (bins ! i) # drop (i + 1) bins))"

lemma length_merge_closest: "merge_closest fl bins = Ret bins' \<Longrightarrow> length bins = Suc (length bins')"
  by (auto simp: merge_closest_def Let_def split: if_splits)

function trim_loop :: "rounding \<Rightarrow> int \<Rightarrow> Bin list \<Rightarrow> Bin list res" where
  "trim_loop fl maxBins bins =
     (if maxBins < int (length bins)
      then case merge_closest fl bins of
             Ret bins' \<Rightarrow> trim_loop fl maxBins bins'
           | Fail e \<Rightarrow> Fail e
           | Panic p \<Rightarrow> Panic p
      else Ret bins)"
  by pat_completeness auto
termination
  by (relation "measure (\<lambda>(fl, m, bins). length bins)") (auto dest: length_merge_closest)

declare trim_loop.simps [simp del]

definition trim :: "rounding \<Rightarrow> Histogram \<Rightarrow> Histogram res" where
  "trim fl h = bind_res (trim_loop fl (MaxBins h) (Bins h)) (\<lambda>bins. Ret (h\<lparr>Bins := bins\<rparr>))"

fun add_bin :: "rounding \<Rightarrow> rat \<Rightarrow> Bin list \<Rightarrow> Bin list" where
  "add_bin fl n [] = [\<lparr>Value = n, Count = 1\<rparr>]"
| "add_bin fl n (b # bs) =
     (if Value b = n then b\<lparr>Count := fl (Count b + 1)\<rparr> # bs
      else if n < Value b then \<lparr>Value = n, Count = 1\<rparr> # b # bs
      else b # add_bin fl n bs)"

definition Add :: "rounding \<Rightarrow> rat \<Rightarrow> Histogram \<Rightarrow> Histogram res" where
  "Add fl n h = trim fl (h\<lparr>Total := Total h + 1, Bins := add_bin fl n (Bins h)\<rparr>)"

fun quantile_loop :: "rounding \<Rightarrow> rat \<Rightarrow> Bin list \<Rightarrow> rat" where
  "quantile_loop fl cnt [] = - 1"
| "quantile_loop fl cnt (b # bs) =
     (let cnt' = fl (cnt - Count b) in
      if cnt' \<le> 0 then Value b else quantile_loop fl cnt' bs)"

definition Quantile :: "rounding \<Rightarrow> rat \<Rightarrow> Histogram \<Rightarrow> rat" where
  "Quantile fl q h = quantile_loop fl (fl (q * fl (of_nat (unat (Total h))))) (Bins h)"

fun mean_sum :: "rounding \<Rightarrow> rat \<Rightarrow> Bin list \<Rightarrow> rat" where
  "mean_sum fl acc [] = acc"
| "mean_sum fl acc (b # bs) = mean_sum fl (fl (acc + fl (Value b * Count b))) bs"

definition Mean :: "rounding \<Rightarrow> Histogram \<Rightarrow> rat" where
  "Mean fl h =
     (if Total h = 0 then 0 else fl (mean_sum fl 0 (Bins h) / fl (of_nat (unat (Total h)))))"

definition HCount :: "rounding \<Rightarrow> Histogram \<Rightarrow> rat" where
  "HCount fl h = fl (of_nat (unat (Total h)))"

section \<open>Well-formed histograms\<close>

definition counted :: "Bin \<Rightarrow> bool" where
  "counted b \<longleftrightarrow> (\<exists>k. 0 < k \<and> Count b = of_nat k)"

definition in_range :: "nat \<Rightarrow> Bin \<Rightarrow> bool" where
  "in_range k b \<longleftrightarrow> 0 \<le> Value b \<and> Value b \<le> 2 ^ k"

abbreviation bin_total :: "Bin list \<Rightarrow> rat" where
  "bin_total bins \<equiv> sum_list (map Count bins)"

abbreviation weighted :: "Bin list \<Rightarrow> rat" where
  "weighted bins \<equiv> sum_list (map (\<lambda>b. Value b * Count b) bins)"

abbreviation ascending :: "Bin list \<Rightarrow> bool" where
  "ascending bins \<equiv> sorted_wrt (<) (map Value bins)"

definition hist_ok :: "Histogram \<Rightarrow> bool" where
  "hist_ok h \<longleftrightarrow>
     0 < MaxBins h \<and> int (length (Bins h)) \<le> MaxBins h \<and>
     list_all counted (Bins h) \<and> list_all (in_range 63) (Bins h) \<and>
     bin_total (Bins h) = of_nat (unat (Total h))"

section \<open>Lemmas on lists of bins\<close>

lemma neighbours:
  assumes "0 < i" and "i < length bins"
  obtains xs a b ys where "bins = xs @ a # b # ys" and "length xs = i - 1"
proof -
  have "bins = take (i - 1) bins @ drop (i - 1) bins" by simp
  moreover have "drop (i - 1) bins = bins ! (i - 1) # bins ! i # drop (Suc i) bins"
    using assms Cons_nth_drop_Suc [of "i - 1" bins] Cons_nth_drop_Suc [of i bins] by simp
  ultimately show thesis using assms that [of "take (i - 1) bins"] by (metis length_take min.absorb2 less_imp_le less_imp_diff_less)
qed

lemma merge_closest_Ret:
  assumes "merge_closest fl bins = Ret bins'"
  obtains xs a b ys where "bins = xs @ a # b # ys" and "bins' = xs @ merge_bins fl a b # ys"
proof -
  let ?i = "min_delta_index fl 1 (fl (10 ^ 99)) 0 bins"
  have i: "0 < ?i" "?i < length bins"
    and b': "bins' = take (?i - 1) bins @ merge_bins fl (bins ! (?i - 1)) (bins ! ?i) # drop (?i + 1) bins"
    using assms by (auto simp: merge_closest_def Let_def split: if_splits)
  obtain xs a b ys where d: "bins = xs @ a # b # ys" "length xs = ?i - 1" using i by (rule neighbours)
  from i(1) d(2) have n: "?i = Suc (length xs)" by simp
  have "bins' = xs @ merge_bins fl a b # ys" unfolding b' n unfolding d(1) by (simp add: nth_append)
  with d(1) that show thesis by blast
qed

lemma min_delta_index_bound:
  "min_delta_index fl i md mi (a # bs) = mi \<or>
   (i \<le> min_delta_index fl i md mi (a # bs) \<and> min_delta_index fl i md mi (a # bs) < i + length bs)"
proof (induction bs arbitrary: i md mi a)
  case (Cons b bs)
  show ?case using Cons.IH [of "Suc i" _ _ b] by (auto simp: Let_def) (metis Suc_leD add_Suc le_refl less_add_Suc1 less_imp_le)+
qed simp

lemma counted_ge1: "counted b \<Longrightarrow> 1 \<le> Count b"
  by (auto simp: counted_def)

lemma bin_total_nat: "list_all counted bs \<Longrightarrow> \<exists>k. bin_total bs = of_nat k \<and> length bs \<le> k"
proof (induction bs)
  case (Cons b bs)
  then obtain k j where "bin_total bs = of_nat k" "length bs \<le> k" "0 < j" "Count b = of_nat j"
    by (auto simp: counted_def)
  then show ?case by (intro exI [of _ "j + k"]) auto
qed simp

lemma bin_total_nonneg: "list_all counted bs \<Longrightarrow> 0 \<le> bin_total bs"
  using bin_total_nat [of bs] by auto

section \<open>Adding a value, under any rounding\<close>

context float_rounding
begin

lemma merge_bins_Count:
  assumes "counted a" and "counted b" and "Count a + Count b \<le> 2 ^ 53"
  shows "Count (merge_bins fl a b) = Count a + Count b" and "counted (merge_bins fl a b)"
proof -
  obtain i j where c: "0 < i" "Count a = of_nat i" "Count b = of_nat j"
    using assms by (auto simp: counted_def)
  have "(of_nat (i + j) :: rat) \<le> of_nat (2 ^ 53)" using assms(3) c by simp
  then have "i + j \<le> 2 ^ 53" by (simp only: of_nat_le_iff)
  then have "fl (Count a + Count b) = of_nat (i + j)" using fl_nat [of "i + j"] c by simp
  then show "Count (merge_bins fl a b) = Count a + Count b" "counted (merge_bins fl a b)"
    using c by (auto simp: merge_bins_def Let_def counted_def intro!: exI [of _ "i + j"])
qed

lemma merge_bins_in_range:
  assumes "counted a" and "counted b" and "Count a + Count b \<le> 2 ^ 53"
    and "in_range k a" and "in_range k b"
  shows "in_range k (merge_bins fl a b)"
proof -
  obtain i j where c: "0 < i" "0 < j" "Count a = of_nat i" "Count b = of_nat j"
    using assms by (auto simp: counted_def)
  have "(of_nat (i + j) :: rat) \<le> of_nat (2 ^ 53)" using assms(3) c by simp
  then have n: "i + j \<le> 2 ^ 53" by (simp only: of_nat_le_iff)
  have v: "0 \<le> Value a" "Value a \<le> 2 ^ k" "0 \<le> Value b" "Value b \<le> 2 ^ k"
    using assms by (auto simp: in_range_def)
  let ?p = "fl (Value a * of_nat i)" and ?q = "fl (Value b * of_nat j)"
  have p: "0 \<le> ?p" "?p \<le> of_nat i * 2 ^ k" and q: "0 \<le> ?q" "?q \<le> of_nat j * 2 ^ k"
    using v n by (auto intro!: fl_nonneg fl_le_scaled mult_left_mono simp: mult.commute [of "Value _"])
  have s: "0 \<le> fl (?p + ?q)" "fl (?p + ?q) \<le> of_nat (i + j) * 2 ^ k"
  proof -
    show "0 \<le> fl (?p + ?q)" using p q by (simp add: fl_nonneg)
    have "?p + ?q \<le> of_nat (i + j) * 2 ^ k" using p q by (simp add: distrib_right)
    then show "fl (?p + ?q) \<le> of_nat (i + j) * 2 ^ k" using n by (rule fl_le_scaled)
  qed
  have t: "Count (merge_bins fl a b) = of_nat (i + j)" using merge_bins_Count(1) [OF assms(1-3)] c by simp
  have d: "0 \<le> fl (?p + ?q) / of_nat (i + j)" "fl (?p + ?q) / of_nat (i + j) \<le> of_nat 1 * 2 ^ k"
    using s c by (simp_all add: pos_divide_le_eq mult.commute)
  have "0 \<le> fl (fl (?p + ?q) / of_nat (i + j))" "fl (fl (?p + ?q) / of_nat (i + j)) \<le> of_nat 1 * 2 ^ k"
    using fl_nonneg [OF d(1)] fl_le_scaled [OF d(2)] by simp_all
  then show ?thesis using t c by (simp add: in_range_def merge_bins_def Let_def)
qed

lemma delta_small:
  assumes "in_range 63 a" and "in_range 63 b"
  shows "fl (Value b - Value a) < fl (10 ^ 99)"
proof -
  have "fl (Value b - Value a) \<le> of_nat 1 * 2 ^ 63"
    using assms by (intro fl_le_scaled) (auto simp: in_range_def)
  moreover have "fl (of_int 1 * 2 ^ 64) \<le> fl (10 ^ 99)" by (intro fl_mono) simp
  moreover have "fl (of_int 1 * 2 ^ 64) = of_int 1 * 2 ^ 64" by (rule fl_exact) simp
  ultimately show ?thesis by simp
qed

lemma merge_closest_returns:
  assumes "list_all (in_range 63) bins" and "2 \<le> length bins"
  shows "\<exists>bins'. merge_closest fl bins = Ret bins'"
proof -
  obtain a b bs where l: "bins = a # b # bs" using assms(2) by (cases bins; cases "tl bins") auto
  then have d: "fl (Value b - Value a) < fl (10 ^ 99)" using assms(1) delta_small by simp
  let ?r = "min_delta_index fl 2 (fl (Value b - Value a)) 1 (b # bs)"
  have r: "min_delta_index fl 1 (fl (10 ^ 99)) 0 bins = ?r"
    using d by (simp add: l Let_def numeral_2_eq_2)
  have "0 < ?r \<and> ?r < length bins"
    using min_delta_index_bound [of fl 2 "fl (Value b - Value a)" 1 b bs] by (auto simp: l)
  then show ?thesis unfolding merge_closest_def Let_def r by auto
qed

lemma merge_closest_keeps:
  assumes "merge_closest fl bins = Ret bins'"
    and "list_all counted bins" and "list_all (in_range 63) bins" and "bin_total bins \<le> 2 ^ 53"
  shows "list_all counted bins' \<and> list_all (in_range 63) bins' \<and> bin_total bins' = bin_total bins"
proof -
  obtain xs a b ys where d: "bins = xs @ a # b # ys" "bins' = xs @ merge_bins fl a b # ys"
    using assms(1) by (rule merge_closest_Ret)
  have c: "counted a" "counted b" "in_range 63 a" "in_range 63 b" using assms d by auto
  have "Count a + Count b \<le> 2 ^ 53"
    using assms(2,4) bin_total_nonneg [of xs] bin_total_nonneg [of ys] by (simp add: d)
  then show ?thesis
    using assms(2,3) d c merge_bins_Count [of a b] merge_bins_in_range [of a b 63] by auto
qed

lemma trim_loop_returns:
  assumes "0 < m" and "list_all counted bins" and "list_all (in_range 63) bins"
    and "bin_total bins \<le> 2 ^ 53"
  shows "\<exists>bins'. trim_loop fl m bins = Ret bins' \<and> int (length bins') \<le> m \<and>
    list_all counted bins' \<and> list_all (in_range 63) bins' \<and> bin_total bins' = bin_total bins"
  using assms
proof (induction "length bins" arbitrary: bins)
  case 0
  then show ?case by (simp add: trim_loop.simps)
next
  case (Suc n)
  show ?case
  proof (cases "m < int (length bins)")
    case True
    then have "2 \<le> length bins" using Suc.prems(1) by linarith
    then obtain bs where bs: "merge_closest fl bins = Ret bs"
      using merge_closest_returns Suc.prems by blast
    then show ?thesis
      using Suc.hyps(1) [of bs] Suc.hyps(2) Suc.prems length_merge_closest [OF bs]
        merge_closest_keeps [OF bs] True by (simp add: trim_loop.simps [of _ _ bins])
  qed (use Suc.prems in \<open>simp add: trim_loop.simps\<close>)
qed

lemma add_bin_keeps:
  assumes "list_all counted bins" and "list_all (in_range k) bins" and "0 \<le> n" and "n \<le> 2 ^ k"
    and "bin_total bins < 2 ^ 53"
  shows "list_all counted (add_bin fl n bins) \<and> list_all (in_range k) (add_bin fl n bins) \<and>
    bin_total (add_bin fl n bins) = bin_total bins + 1"
  using assms
proof (induction bins)
  case Nil
  then show ?case by (auto simp: counted_def in_range_def intro: exI [of _ 1])
next
  case (Cons b bs)
  then obtain i where i: "0 < i" "Count b = of_nat i" by (auto simp: counted_def)
  have ge: "0 \<le> bin_total bs" using Cons.prems bin_total_nonneg [of bs] by simp
  have "(of_nat i :: rat) < of_nat (2 ^ 53)" using Cons.prems(5) ge i by simp
  then have "i < 2 ^ 53" by (simp only: of_nat_less_iff)
  then have "fl (Count b + 1) = of_nat (Suc i)" using fl_nat [of "Suc i"] i by (simp add: add.commute)
  moreover have "bin_total bs < 2 ^ 53" using Cons.prems(5) i counted_ge1 [of b] Cons.prems(1) by simp
  moreover have "counted \<lparr>Value = n, Count = 1\<rparr>" by (auto simp: counted_def intro: exI [of _ 1])
  ultimately show ?case using Cons i
    by (auto simp: in_range_def counted_def intro!: exI [of _ "Suc i"])
qed

lemma Add_ok:
  assumes "hist_ok h" and "0 \<le> n" and "n \<le> 2 ^ 63" and "unat (Total h) < 2 ^ 53"
  shows "\<exists>h'. Add fl n h = Ret h' \<and> hist_ok h' \<and> MaxBins h' = MaxBins h \<and> Total h' = Total h + 1"
proof -
  have t: "bin_total (Bins h) = of_nat (unat (Total h))" using assms(1) by (simp add: hist_ok_def)
  have "(of_nat (unat (Total h)) :: rat) < of_nat (2 ^ 53)" using assms(4) by (simp only: of_nat_less_iff)
  then have lt: "bin_total (Bins h) < 2 ^ 53" unfolding t by simp
  have u: "unat (Total h + 1) = Suc (unat (Total h))"
    using assms(4) by (simp add: unat_word_ariths)
  let ?bins = "add_bin fl n (Bins h)"
  have a: "list_all counted ?bins \<and> list_all (in_range 63) ?bins \<and>
      bin_total ?bins = bin_total (Bins h) + 1"
    using assms lt by (intro add_bin_keeps) (auto simp: hist_ok_def)
  have "bin_total ?bins \<le> 2 ^ 53"
  proof -
    have "(of_nat (Suc (unat (Total h))) :: rat) \<le> of_nat (2 ^ 53)"
      using assms(4) by (simp only: of_nat_le_iff Suc_le_eq)
    then show ?thesis using a t by (simp add: add.commute)
  qed
  moreover have "0 < MaxBins h" using assms(1) by (simp add: hist_ok_def)
  ultimately obtain bs where "trim_loop fl (MaxBins h) ?bins = Ret bs" "int (length bs) \<le> MaxBins h"
    "list_all counted bs" "list_all (in_range 63) bs" "bin_total bs = bin_total ?bins"
    using trim_loop_returns a by blast
  then show ?thesis using a t u \<open>0 < MaxBins h\<close>
    by (simp add: Add_def trim_def hist_ok_def del: of_nat_unat)
qed

lemma quantile_loop_bin:
  assumes "cnt \<le> bin_total bs" and "list_all counted bs" and "bin_total bs \<le> 2 ^ 53" and "bs \<noteq> []"
  shows "\<exists>b \<in> set bs. quantile_loop fl cnt bs = Value b"
  using assms
proof (induction bs arbitrary: cnt)
  case (Cons b bs)
  obtain k where k: "bin_total bs = of_nat k" using Cons.prems bin_total_nat [of bs] by auto
  have c: "1 \<le> Count b" using Cons.prems counted_ge1 by auto
  have "(of_nat k :: rat) \<le> of_nat (2 ^ 53)" using Cons.prems(3) k c by simp
  then have "k \<le> 2 ^ 53" by (simp only: of_nat_le_iff)
  then have le: "fl (cnt - Count b) \<le> bin_total bs"
    using fl_le_nat [of "cnt - Count b" k] Cons.prems(1) k by simp
  show ?case
  proof (cases "bs = []")
    case True
    then show ?thesis using le by (simp add: Let_def)
  next
    case False
    then show ?thesis using Cons.IH [OF le] Cons.prems c by (auto simp: Let_def)
  qed
qed simp

lemma Quantile_bin:
  assumes "hist_ok h" and "Bins h \<noteq> []" and "q \<le> 1" and "unat (Total h) \<le> 2 ^ 53"
  shows "\<exists>b \<in> set (Bins h). Quantile fl q h = Value b"
proof -
  have t: "bin_total (Bins h) = of_nat (unat (Total h))" using assms(1) by (simp add: hist_ok_def)
  have f: "fl (of_nat (unat (Total h))) = of_nat (unat (Total h))" using assms(4) by (rule fl_nat)
  have "q * of_nat (unat (Total h)) \<le> 1 * of_nat (unat (Total h))"
    using assms(3) by (intro mult_right_mono) (simp_all del: of_nat_unat)
  then have "fl (q * of_nat (unat (Total h))) \<le> bin_total (Bins h)"
    unfolding t using fl_le_nat [of "q * of_nat (unat (Total h))"] assms(4) by (simp del: of_nat_unat)
  moreover have "(of_nat (unat (Total h)) :: rat) \<le> of_nat (2 ^ 53)" using assms(4) by (simp only: of_nat_le_iff)
  ultimately show ?thesis unfolding Quantile_def f
    using assms(1,2) t by (intro quantile_loop_bin) (auto simp: hist_ok_def)
qed

end

section \<open>Exact arithmetic\<close>

text \<open>Without rounding errors merging keeps the bins in order and the weighted sum unchanged.\<close>

lemma merge_bins_exact:
  assumes "counted a" and "counted b"
  shows "Value (merge_bins (\<lambda>x. x) a b) * Count (merge_bins (\<lambda>x. x) a b) = Value a * Count a + Value b * Count b"
    and "Count (merge_bins (\<lambda>x. x) a b) = Count a + Count b"
    and "Value a < Value b \<Longrightarrow> Value a < Value (merge_bins (\<lambda>x. x) a b) \<and> Value (merge_bins (\<lambda>x. x) a b) < Value b"
proof -
  have c: "0 < Count a" "0 < Count b" using assms counted_ge1 [of a] counted_ge1 [of b] by auto
  then show "Value (merge_bins (\<lambda>x. x) a b) * Count (merge_bins (\<lambda>x. x) a b) = Value a * Count a + Value b * Count b"
    by (simp add: merge_bins_def Let_def)
  show "Count (merge_bins (\<lambda>x. x) a b) = Count a + Count b" by (simp add: merge_bins_def Let_def)
  assume "Value a < Value b"
  then show "Value a < Value (merge_bins (\<lambda>x. x) a b) \<and> Value (merge_bins (\<lambda>x. x) a b) < Value b"
    using c by (simp add: merge_bins_def Let_def pos_less_divide_eq pos_divide_less_eq distrib_left)
qed

definition exact_inv :: "Bin list \<Rightarrow> bool" where
  "exact_inv bins \<longleftrightarrow> list_all counted bins \<and> ascending bins"

lemma counted_merge_exact: "counted a \<Longrightarrow> counted b \<Longrightarrow> counted (merge_bins (\<lambda>x. x) a b)"
  unfolding counted_def merge_bins_def Let_def
  by (metis Bin.select_convs(2) add_gr_0 of_nat_add)

lemma merge_closest_exact:
  assumes "merge_closest (\<lambda>x. x) bins = Ret bins'" and "exact_inv bins"
  shows "exact_inv bins' \<and> bin_total bins' = bin_total bins \<and> weighted bins' = weighted bins"
proof -
  obtain xs a b ys where d: "bins = xs @ a # b # ys" "bins' = xs @ merge_bins (\<lambda>x. x) a b # ys"
    using assms(1) by (rule merge_closest_Ret)
  have c: "counted a" "counted b" "Value a < Value b" using assms(2) d by (auto simp: exact_inv_def sorted_wrt_append)
  note m = merge_bins_exact [OF c(1,2)]
  have "ascending bins'"
    using assms(2) m(3) [OF c(3)] by (fastforce simp: d exact_inv_def sorted_wrt_append)
  then show ?thesis using assms(2) m(1,2) counted_merge_exact [OF c(1,2)] by (simp add: d exact_inv_def)
qed

lemma trim_loop_exact:
  assumes "trim_loop (\<lambda>x. x) m bins = Ret bins'" and "exact_inv bins"
  shows "exact_inv bins' \<and> bin_total bins' = bin_total bins \<and> weighted bins' = weighted bins"
  using assms
proof (induction "length bins" arbitrary: bins rule: less_induct)
  case less
  show ?case
  proof (cases "m < int (length bins)")
    case True
    then obtain bs where bs: "merge_closest (\<lambda>x. x) bins = Ret bs" "trim_loop (\<lambda>x. x) m bs = Ret bins'"
      using less.prems(1) by (auto simp: trim_loop.simps [of _ _ bins] split: res.splits)
    then show ?thesis
      using less.hyps [of bs] length_merge_closest [OF bs(1)] merge_closest_exact [OF bs(1) less.prems(2)]
      by simp
  next
    case False
    then show ?thesis using less.prems by (simp add: trim_loop.simps [of _ _ bins])
  qed
qed

lemma add_bin_exact:
  assumes "exact_inv bins"
  shows "exact_inv (add_bin (\<lambda>x. x) n bins) \<and> weighted (add_bin (\<lambda>x. x) n bins) = weighted bins + n \<and>
    Value ` set (add_bin (\<lambda>x. x) n bins) = insert n (Value ` set bins)"
  using assms
proof (induction bins)
  case Nil
  then show ?case by (auto simp: exact_inv_def counted_def intro: exI [of _ 1])
next
  case (Cons b bs)
  then have i: "exact_inv bs" and cb: "counted b" and lt: "\<forall>v \<in> Value ` set bs. Value b < v"
    by (auto simp: exact_inv_def)
  obtain k where k: "0 < k" "Count b = of_nat k" using cb by (auto simp: counted_def)
  have one: "counted \<lparr>Value = n, Count = 1\<rparr>" by (auto simp: counted_def intro: exI [of _ 1])
  have inc: "counted (b\<lparr>Count := Count b + 1\<rparr>)" using k by (auto simp: counted_def intro: exI [of _ "Suc k"])
  consider "Value b = n" | "n < Value b" | "Value b < n" by linarith
  then show ?case
  proof cases
    case 1
    then show ?thesis using inc i lt by (auto simp: exact_inv_def distrib_left)
  next
    case 2
    then show ?thesis using one cb i lt by (force simp: exact_inv_def)
  next
    case 3
    then show ?thesis using Cons.IH [OF i] cb lt by (auto simp: exact_inv_def)
  qed
qed

lemma mean_sum_exact: "mean_sum (\<lambda>x. x) acc bins = acc + weighted bins"
  by (induction bins arbitrary: acc) simp_all

lemma Add_exact:
  assumes "Add (\<lambda>x. x) n h = Ret h'" and "exact_inv (Bins h)"
  shows "exact_inv (Bins h') \<and> weighted (Bins h') = weighted (Bins h) + n \<and> Total h' = Total h + 1"
proof -
  obtain bs where "trim_loop (\<lambda>x. x) (MaxBins h) (add_bin (\<lambda>x. x) n (Bins h)) = Ret bs"
    "h' = h\<lparr>Total := Total h + 1, Bins := bs\<rparr>"
    using assms(1) by (auto simp: Add_def trim_def go_simps)
  then show ?thesis using trim_loop_exact add_bin_exact [OF assms(2), of n] by simp
qed

fun Adds :: "rounding \<Rightarrow> rat list \<Rightarrow> Histogram \<Rightarrow> Histogram res" where
  "Adds fl [] h = Ret h"
| "Adds fl (n # ns) h = bind_res (Add fl n h) (Adds fl ns)"

lemma Adds_ok:
  assumes "float_rounding fl" and "hist_ok h" and "\<forall>n \<in> set ns. 0 \<le> n \<and> n \<le> 2 ^ 63"
    and "unat (Total h) + length ns \<le> 2 ^ 53"
  shows "\<exists>h'. Adds fl ns h = Ret h' \<and> hist_ok h' \<and> unat (Total h') = unat (Total h) + length ns \<and>
    MaxBins h' = MaxBins h"
  using assms(2-)
proof (induction ns arbitrary: h)
  case (Cons n ns)
  then have "unat (Total h) < 2 ^ 53" by simp
  then obtain h1 where h1: "Add fl n h = Ret h1" "hist_ok h1" "MaxBins h1 = MaxBins h" "Total h1 = Total h + 1"
    using float_rounding.Add_ok [OF assms(1), of h n] Cons.prems by auto
  have "unat (Total h1) = Suc (unat (Total h))"
    using h1(4) \<open>unat (Total h) < 2 ^ 53\<close> by (simp add: unat_word_ariths)
  then show ?case using Cons.IH [of h1] Cons.prems h1 by simp
qed simp

lemma Adds_exact:
  assumes "Adds (\<lambda>x. x) ns h = Ret h'" and "exact_inv (Bins h)"
  shows "exact_inv (Bins h') \<and> weighted (Bins h') = weighted (Bins h) + sum_list ns"
  using assms
proof (induction ns arbitrary: h)
  case (Cons n ns)
  then obtain h1 where "Add (\<lambda>x. x) n h = Ret h1" "Adds (\<lambda>x. x) ns h1 = Ret h'"
    by (auto simp: go_simps)
  then show ?case using Cons.IH [of h1] Add_exact [of n h h1] Cons.prems(2) by simp
qed simp

lemma hist_ok_New: "0 < n \<Longrightarrow> hist_ok (NewHistogram n)"
  by (simp add: hist_ok_def NewHistogram_def)

section \<open>Properties\<close>

text \<open>C24. The histogram is safe on real floats: starting empty with at least one bin allowed, adding any
  sequence of at most \<open>2 ^ 53\<close> values between 0 and \<open>2 ^ 63\<close> under IEEE double rounding never panics,
  never leaves more bins than allowed, and the counts of the bins add up to the number of values.\<close>

theorem histogram_safe:
  assumes "0 < maxBins" and "\<forall>n \<in> set ns. 0 \<le> n \<and> n \<le> 2 ^ 63" and "length ns \<le> 2 ^ 53"
  shows "\<exists>h. Adds fl64 ns (NewHistogram maxBins) = Ret h \<and> int (length (Bins h)) \<le> maxBins \<and>
    bin_total (Bins h) = of_nat (length ns)"
proof -
  have "unat (Total (NewHistogram maxBins)) = 0" by (simp add: NewHistogram_def)
  then obtain h where "Adds fl64 ns (NewHistogram maxBins) = Ret h" "hist_ok h" "unat (Total h) = length ns"
      "MaxBins h = maxBins"
    using Adds_ok [OF b64.float_rounding_axioms hist_ok_New [OF assms(1)] assms(2)] assms(3)
    by (auto simp: NewHistogram_def)
  then show ?thesis by (auto simp: hist_ok_def)
qed

theorem histogram_safe_witness:
  "\<exists>h. Adds fl64 [5, 3, 5] (NewHistogram 2) = Ret h \<and> int (length (Bins h)) \<le> 2 \<and>
    bin_total (Bins h) = of_nat (length [5, 3, 5 :: rat])"
  by (rule histogram_safe) simp_all

text \<open>C25. In exact arithmetic merging bins loses no mass and no order: after any sequence of additions the
  bins are in strictly ascending order, and the mean the histogram reports is the arithmetic mean of
  all the values added, however many bins were merged.\<close>

theorem histogram_mean_exact:
  assumes "Adds (\<lambda>x. x) ns (NewHistogram maxBins) = Ret h" and "0 < maxBins" and "ns \<noteq> []"
    and "\<forall>n \<in> set ns. 0 \<le> n \<and> n \<le> 2 ^ 63" and "length ns \<le> 2 ^ 53"
  shows "ascending (Bins h) \<and> Mean (\<lambda>x. x) h = sum_list ns / of_nat (length ns)"
proof -
  have "unat (Total (NewHistogram maxBins)) = 0" by (simp add: NewHistogram_def)
  then have t: "unat (Total h) = length ns"
    using Adds_ok [OF exact.float_rounding_axioms hist_ok_New [OF assms(2)] assms(4)] assms(1,5)
    by (auto simp: NewHistogram_def)
  have "exact_inv (Bins (NewHistogram maxBins))" by (simp add: NewHistogram_def exact_inv_def)
  then have "exact_inv (Bins h) \<and> weighted (Bins h) = sum_list ns"
    using Adds_exact [OF assms(1)] by (simp add: NewHistogram_def)
  moreover have "Total h \<noteq> 0" using t assms(3) by auto
  ultimately show ?thesis using t by (simp add: exact_inv_def Mean_def mean_sum_exact)
qed

theorem histogram_mean_exact_witness:
  "\<exists>h. Adds (\<lambda>x. x) [5, 3, 7] (NewHistogram 2) = Ret h \<and> ascending (Bins h) \<and> Mean (\<lambda>x. x) h = 5"
proof -
  obtain h where h: "Adds (\<lambda>x. x) [5, 3, 7] (NewHistogram 2) = Ret h"
    using Adds_ok [OF exact.float_rounding_axioms hist_ok_New, of 2 "[5, 3, 7]"] by (auto simp: NewHistogram_def)
  have "ascending (Bins h) \<and> Mean (\<lambda>x. x) h = sum_list [5, 3, 7] / of_nat (length [5, 3, 7 :: rat])"
    by (rule histogram_mean_exact [OF h]) simp_all
  with h show ?thesis by simp
qed

text \<open>A reported quantile is never the error value: after at least one addition, for every \<open>q\<close> up to 1, the
  quantile computed with IEEE double rounding is the value of one of the bins, between the limits of
  the values added.\<close>

theorem quantile_is_bin_value:
  assumes "Adds fl64 ns (NewHistogram maxBins) = Ret h" and "0 < maxBins" and "ns \<noteq> []" and "q \<le> 1"
    and "\<forall>n \<in> set ns. 0 \<le> n \<and> n \<le> 2 ^ 63" and "length ns \<le> 2 ^ 53"
  shows "\<exists>b \<in> set (Bins h). Quantile fl64 q h = Value b \<and> 0 \<le> Value b \<and> Value b \<le> 2 ^ 63"
proof -
  have "unat (Total (NewHistogram maxBins)) = 0" by (simp add: NewHistogram_def)
  then have h: "hist_ok h" "unat (Total h) = length ns"
    using Adds_ok [OF b64.float_rounding_axioms hist_ok_New [OF assms(2)] assms(5)] assms(1,6)
    by (auto simp: NewHistogram_def)
  then have "Bins h \<noteq> []" using assms(3) by (auto simp: hist_ok_def)
  then obtain b where "b \<in> set (Bins h)" "Quantile fl64 q h = Value b"
    using b64.Quantile_bin [OF h(1) _ assms(4)] h(2) assms(6) by auto
  then show ?thesis using h(1) by (auto simp: hist_ok_def in_range_def list_all_iff)
qed

theorem quantile_is_bin_value_witness:
  "\<exists>h. Adds fl64 [5, 3] (NewHistogram 60) = Ret h \<and>
    (\<exists>b \<in> set (Bins h). Quantile fl64 (1 / 2) h = Value b \<and> 0 \<le> Value b \<and> Value b \<le> 2 ^ 63)"
proof -
  obtain h where h: "Adds fl64 [5, 3] (NewHistogram 60) = Ret h"
    using Adds_ok [OF b64.float_rounding_axioms hist_ok_New, of 60 "[5, 3]"] by (auto simp: NewHistogram_def)
  have "\<exists>b \<in> set (Bins h). Quantile fl64 (1 / 2) h = Value b \<and> 0 \<le> Value b \<and> Value b \<le> 2 ^ 63"
    by (rule quantile_is_bin_value [OF h]) simp_all
  with h show ?thesis by blast
qed

end
