(* ===== verification/Stats.thy ===== *)
theory Stats
  imports Histogram
begin

text \<open>
  Connector statistics: \<^verbatim>\<open>server/core/stats.go\<close>. The counters are \<^verbatim>\<open>int64\<close> (and
  \<^verbatim>\<open>uint64\<close>) words and wrap around; the moving average and the quantiles are floats,
  rounded by the argument \<open>fl\<close>. Each method of the holder runs under the holder's lock and is
  one step from a holder to a holder; a panic of the histogram's \<open>trim\<close> is a panic of the
  method. A duration is its number of nanoseconds, an \<^verbatim>\<open>int64\<close>.
\<close>

section \<open>Definitions\<close>

record NATSConnectionStats =
  ns_Name :: string
  ns_Connected :: bool
  ns_ConnectedURL :: string

record ConnectorStats =
  st_Name :: string
  st_ID :: string
  st_NATSConnection :: string
  st_Connected :: bool
  st_Connects :: int64
  st_Disconnects :: int64
  st_BytesIn :: int64
  st_BytesOut :: int64
  st_MessagesIn :: int64
  st_MessagesOut :: int64
  st_RequestCount :: int64
  st_MovingAverage :: rat
  st_Quintile50 :: rat
  st_Quintile75 :: rat
  st_Quintile90 :: rat
  st_Quintile95 :: rat
  st_NumPending :: uint64

record BridgeStats =
  bs_StartTime :: int
  bs_ServerTime :: int
  bs_UpTime :: int
  bs_RequestCount :: int64
  bs_NATS :: "NATSConnectionStats list"
  bs_Connections :: "ConnectorStats list"
  bs_HTTPRequests :: "(string, int64) gomap"

record ConnectorStatsHolder =
  h_stats :: ConnectorStats
  h_histogram :: Histogram

definition NewConnectorStatsHolder :: "string \<Rightarrow> string \<Rightarrow> ConnectorStatsHolder" where
  "NewConnectorStatsHolder name ident =
     \<lparr>h_stats = \<lparr>st_Name = name, st_ID = ident, st_NATSConnection = [], st_Connected = False,
        st_Connects = 0, st_Disconnects = 0, st_BytesIn = 0, st_BytesOut = 0, st_MessagesIn = 0,
        st_MessagesOut = 0, st_RequestCount = 0, st_MovingAverage = 0, st_Quintile50 = 0,
        st_Quintile75 = 0, st_Quintile90 = 0, st_Quintile95 = 0, st_NumPending = 0\<rparr>,
      h_histogram = NewHistogram 60\<rparr>"

definition holder_Name :: "ConnectorStatsHolder \<Rightarrow> string" where
  "holder_Name h = st_Name (h_stats h)"

definition holder_ID :: "ConnectorStatsHolder \<Rightarrow> string" where
  "holder_ID h = st_ID (h_stats h)"

definition SetNATSConnection :: "string \<Rightarrow> ConnectorStatsHolder \<Rightarrow> ConnectorStatsHolder" where
  "SetNATSConnection cluster h = h\<lparr>h_stats := (h_stats h)\<lparr>st_NATSConnection := cluster\<rparr>\<rparr>"

definition AddMessageIn :: "int64 \<Rightarrow> ConnectorStatsHolder \<Rightarrow> ConnectorStatsHolder" where
  "AddMessageIn bytes h =
     (let s = h_stats h in
      h\<lparr>h_stats := s\<lparr>st_MessagesIn := st_MessagesIn s + 1, st_BytesIn := st_BytesIn s + bytes\<rparr>\<rparr>)"

definition AddMessageOut :: "int64 \<Rightarrow> ConnectorStatsHolder \<Rightarrow> ConnectorStatsHolder" where
  "AddMessageOut bytes h =
     (let s = h_stats h in
      h\<lparr>h_stats := s\<lparr>st_MessagesOut := st_MessagesOut s + 1, st_BytesOut := st_BytesOut s + bytes\<rparr>\<rparr>)"

definition AddDisconnect :: "ConnectorStatsHolder \<Rightarrow> ConnectorStatsHolder" where
  "AddDisconnect h =
     (let s = h_stats h in
      h\<lparr>h_stats := s\<lparr>st_Disconnects := st_Disconnects s + 1, st_Connected := False\<rparr>\<rparr>)"

definition AddConnect :: "ConnectorStatsHolder \<Rightarrow> ConnectorStatsHolder" where
  "AddConnect h =
     (let s = h_stats h in
      h\<lparr>h_stats := s\<lparr>st_Connects := st_Connects s + 1, st_Connected := True\<rparr>\<rparr>)"

text \<open>The running moving average after one more request, as the three methods below compute it.\<close>

definition rma :: "rounding \<Rightarrow> int64 \<Rightarrow> rat \<Rightarrow> rat \<Rightarrow> rat" where
  "rma fl requestCount movingAverage reqns =
     fl (fl (fl (fl (of_int (sint (requestCount - 1))) * movingAverage) + reqns) /
         fl (of_int (sint requestCount)))"

definition AddRequestTime ::
  "rounding \<Rightarrow> int64 \<Rightarrow> ConnectorStatsHolder \<Rightarrow> ConnectorStatsHolder res" where
  "AddRequestTime fl reqTime h =
     (let reqns = fl (of_int (sint reqTime));
          s = h_stats h;
          cnt = st_RequestCount s + 1;
          s = s\<lparr>st_RequestCount := cnt,
                st_MovingAverage := rma fl cnt (st_MovingAverage s) reqns\<rparr>
      in bind_res (Add fl reqns (h_histogram h)) (\<lambda>hist.
           Ret (h\<lparr>h_stats := s, h_histogram := hist\<rparr>)))"

definition AddRequest ::
  "rounding \<Rightarrow> int64 \<Rightarrow> int64 \<Rightarrow> int64 \<Rightarrow> ConnectorStatsHolder \<Rightarrow> ConnectorStatsHolder res" where
  "AddRequest fl bytesIn bytesOut reqTime h =
     (let s = h_stats h;
          s = s\<lparr>st_MessagesIn := st_MessagesIn s + 1, st_BytesIn := st_BytesIn s + bytesIn,
                st_MessagesOut := st_MessagesOut s + 1, st_BytesOut := st_BytesOut s + bytesOut\<rparr>;
          reqns = fl (of_int (sint reqTime));
          cnt = st_RequestCount s + 1;
          s = s\<lparr>st_RequestCount := cnt,
                st_MovingAverage := rma fl cnt (st_MovingAverage s) reqns\<rparr>
      in bind_res (Add fl reqns (h_histogram h)) (\<lambda>hist.
           Ret (h\<lparr>h_stats := s, h_histogram := hist\<rparr>)))"

definition AddStreamRequest ::
  "rounding \<Rightarrow> int64 \<Rightarrow> int64 \<Rightarrow> int64 \<Rightarrow> uint64 \<Rightarrow> ConnectorStatsHolder \<Rightarrow> ConnectorStatsHolder res" where
  "AddStreamRequest fl bytesIn bytesOut reqTime numPending h =
     (let s = h_stats h;
          s = s\<lparr>st_MessagesIn := st_MessagesIn s + 1, st_BytesIn := st_BytesIn s + bytesIn,
                st_MessagesOut := st_MessagesOut s + 1, st_BytesOut := st_BytesOut s + bytesOut\<rparr>;
          reqns = fl (of_int (sint reqTime));
          cnt = st_RequestCount s + 1;
          s = s\<lparr>st_RequestCount := cnt,
                st_MovingAverage := rma fl cnt (st_MovingAverage s) reqns\<rparr>
      in bind_res (Add fl reqns (h_histogram h)) (\<lambda>hist.
           Ret (h\<lparr>h_stats := s\<lparr>st_NumPending := numPending\<rparr>, h_histogram := hist\<rparr>)))"

definition Stats :: "rounding \<Rightarrow> ConnectorStatsHolder \<Rightarrow> ConnectorStatsHolder \<times> ConnectorStats" where
  "Stats fl h =
     (let q = (\<lambda>x. Quantile fl (fl x) (h_histogram h));
          s = (h_stats h)\<lparr>st_Quintile50 := q (1 / 2), st_Quintile75 := q (3 / 4),
                st_Quintile90 := q (9 / 10), st_Quintile95 := q (95 / 100)\<rparr>
      in (h\<lparr>h_stats := s\<rparr>, s))"

section \<open>Sequences of statistics operations\<close>

text \<open>The operations of the holder that change it. The connectors call all of them but \<^verbatim>\<open>AddMessageOut\<close> and
  \<^verbatim>\<open>AddRequestTime\<close>, which only the tests call on their own.\<close>

datatype stats_op =
    OpMessageIn int64
  | OpMessageOut int64
  | OpRequestTime int64
  | OpConnect
  | OpDisconnect
  | OpRequest int64 int64 int64
  | OpStreamRequest int64 int64 int64 uint64

fun apply_op :: "rounding \<Rightarrow> stats_op \<Rightarrow> ConnectorStatsHolder \<Rightarrow> ConnectorStatsHolder res" where
  "apply_op fl (OpMessageIn l) h = Ret (AddMessageIn l h)"
| "apply_op fl (OpMessageOut l) h = Ret (AddMessageOut l h)"
| "apply_op fl (OpRequestTime t) h = AddRequestTime fl t h"
| "apply_op fl OpConnect h = Ret (AddConnect h)"
| "apply_op fl OpDisconnect h = Ret (AddDisconnect h)"
| "apply_op fl (OpRequest i o' t) h = AddRequest fl i o' t h"
| "apply_op fl (OpStreamRequest i o' t n) h = AddStreamRequest fl i o' t n h"

fun apply_ops :: "rounding \<Rightarrow> stats_op list \<Rightarrow> ConnectorStatsHolder \<Rightarrow> ConnectorStatsHolder res" where
  "apply_ops fl [] h = Ret h"
| "apply_ops fl (x # xs) h = bind_res (apply_op fl x h) (apply_ops fl xs)"

text \<open>The request times an operation sequence reports.\<close>

fun req_time :: "stats_op \<Rightarrow> rat option" where
  "req_time (OpRequestTime t) = Some (of_int (sint t))"
| "req_time (OpRequest i o' t) = Some (of_int (sint t))"
| "req_time (OpStreamRequest i o' t n) = Some (of_int (sint t))"
| "req_time _ = None"

abbreviation req_times :: "stats_op list \<Rightarrow> rat list" where
  "req_times ops \<equiv> List.map_filter req_time ops"

text \<open>What each operation adds to the counters.\<close>

fun msgs_in :: "stats_op \<Rightarrow> int64" where
  "msgs_in (OpMessageIn l) = 1"
| "msgs_in (OpRequest i o' t) = 1"
| "msgs_in (OpStreamRequest i o' t n) = 1"
| "msgs_in _ = 0"

fun msgs_out :: "stats_op \<Rightarrow> int64" where
  "msgs_out (OpMessageOut l) = 1"
| "msgs_out (OpRequest i o' t) = 1"
| "msgs_out (OpStreamRequest i o' t n) = 1"
| "msgs_out _ = 0"

fun bytes_in :: "stats_op \<Rightarrow> int64" where
  "bytes_in (OpMessageIn l) = l"
| "bytes_in (OpRequest i o' t) = i"
| "bytes_in (OpStreamRequest i o' t n) = i"
| "bytes_in _ = 0"

fun bytes_out :: "stats_op \<Rightarrow> int64" where
  "bytes_out (OpMessageOut l) = l"
| "bytes_out (OpRequest i o' t) = o'"
| "bytes_out (OpStreamRequest i o' t n) = o'"
| "bytes_out _ = 0"

fun reqs :: "stats_op \<Rightarrow> int64" where
  "reqs (OpRequestTime t) = 1"
| "reqs (OpRequest i o' t) = 1"
| "reqs (OpStreamRequest i o' t n) = 1"
| "reqs _ = 0"

fun by_connector :: "stats_op \<Rightarrow> bool" where
  "by_connector (OpMessageOut l) = False"
| "by_connector (OpRequestTime t) = False"
| "by_connector _ = True"

section \<open>Lemmas\<close>

lemmas stats_defs =
  AddMessageIn_def AddMessageOut_def AddConnect_def AddDisconnect_def AddRequest_def
  AddStreamRequest_def AddRequestTime_def

lemma Add_Total: "Add fl n h = Ret h' \<Longrightarrow> Total h' = Total h + 1"
  by (auto simp: Add_def trim_def go_simps)

lemma apply_op_counts:
  assumes "apply_op fl x h = Ret h'"
  shows "st_MessagesIn (h_stats h') = st_MessagesIn (h_stats h) + msgs_in x"
    and "st_MessagesOut (h_stats h') = st_MessagesOut (h_stats h) + msgs_out x"
    and "st_BytesIn (h_stats h') = st_BytesIn (h_stats h) + bytes_in x"
    and "st_BytesOut (h_stats h') = st_BytesOut (h_stats h) + bytes_out x"
    and "st_RequestCount (h_stats h') = st_RequestCount (h_stats h) + reqs x"
    and "Total (h_histogram h') = Total (h_histogram h) + reqs x"
  using assms by (cases x; auto simp: stats_defs Let_def go_simps dest: Add_Total)+

lemma apply_ops_counts:
  assumes "apply_ops fl xs h = Ret h'"
  shows "st_MessagesIn (h_stats h') = st_MessagesIn (h_stats h) + sum_list (map msgs_in xs)"
    and "st_MessagesOut (h_stats h') = st_MessagesOut (h_stats h) + sum_list (map msgs_out xs)"
    and "st_BytesIn (h_stats h') = st_BytesIn (h_stats h) + sum_list (map bytes_in xs)"
    and "st_BytesOut (h_stats h') = st_BytesOut (h_stats h) + sum_list (map bytes_out xs)"
    and "st_RequestCount (h_stats h') = st_RequestCount (h_stats h) + sum_list (map reqs xs)"
    and "Total (h_histogram h') = Total (h_histogram h) + sum_list (map reqs xs)"
  using assms
  by (induction xs arbitrary: h) (force simp: go_simps dest: apply_op_counts)+

lemma by_connector_counts: "list_all by_connector xs \<Longrightarrow> sum_list (map msgs_out xs) = sum_list (map reqs xs)"
proof (induction xs)
  case (Cons x xs)
  then show ?case by (cases x) simp_all
qed simp

text \<open>With non-negative durations every operation returns, and the histogram stays well-formed.\<close>

fun timely :: "stats_op \<Rightarrow> bool" where
  "timely (OpRequestTime t) = (0 \<le> sint t)"
| "timely (OpRequest i o' t) = (0 \<le> sint t)"
| "timely (OpStreamRequest i o' t n) = (0 \<le> sint t)"
| "timely _ = True"

context float_rounding
begin

lemma duration_in_range:
  assumes "0 \<le> sint (t :: int64)"
  shows "0 \<le> fl (of_int (sint t))" and "fl (of_int (sint t)) \<le> 2 ^ 63"
proof -
  show "0 \<le> fl (of_int (sint t))" using assms by (intro fl_nonneg) (simp only: of_int_0_le_iff)
  have "sint t < 2 ^ 63" using sint_lt [of t] by simp
  then have "(of_int (sint t) :: rat) \<le> of_int (2 ^ 63)" by (simp only: of_int_le_iff less_imp_le)
  then show "fl (of_int (sint t)) \<le> 2 ^ 63" using fl_le_scaled [of "of_int (sint t)" 1 63] by simp
qed

lemma apply_op_returns:
  assumes "timely x" and "hist_ok (h_histogram h)" and "unat (Total (h_histogram h)) < 2 ^ 53"
  shows "\<exists>h'. apply_op fl x h = Ret h' \<and> hist_ok (h_histogram h')"
proof -
  have "\<exists>h'. Add fl (fl (of_int (sint t))) (h_histogram h) = Ret h' \<and> hist_ok h'" if "0 \<le> sint t" for t :: int64
    using Add_ok [OF assms(2) duration_in_range [OF that] assms(3)] by blast
  then show ?thesis using assms(1,2)
    by (cases x) (force simp: stats_defs Let_def)+
qed

lemma apply_ops_returns:
  assumes "list_all timely xs" and "hist_ok (h_histogram h)"
    and "unat (Total (h_histogram h)) + length xs \<le> 2 ^ 53"
  shows "\<exists>h'. apply_ops fl xs h = Ret h' \<and> hist_ok (h_histogram h')"
  using assms
proof (induction xs arbitrary: h)
  case (Cons x xs)
  then obtain h1 where h1: "apply_op fl x h = Ret h1" "hist_ok (h_histogram h1)"
    using apply_op_returns [of x h] by auto
  have "unat (reqs x) \<le> 1" by (cases x) simp_all
  then have "unat (Total (h_histogram h1)) \<le> unat (Total (h_histogram h)) + 1"
    unfolding apply_op_counts(6) [OF h1(1)] by (simp add: unat_word_ariths)
  then show ?case using Cons.IH [of h1] Cons.prems h1 by simp
qed simp

end

lemma hist_ok_fresh [simp]: "hist_ok (h_histogram (NewConnectorStatsHolder name i))"
  by (simp add: NewConnectorStatsHolder_def hist_ok_New)

lemma fresh_zero [simp]:
  "st_MessagesIn (h_stats (NewConnectorStatsHolder name i)) = 0"
  "st_MessagesOut (h_stats (NewConnectorStatsHolder name i)) = 0"
  "st_BytesIn (h_stats (NewConnectorStatsHolder name i)) = 0"
  "st_BytesOut (h_stats (NewConnectorStatsHolder name i)) = 0"
  "st_RequestCount (h_stats (NewConnectorStatsHolder name i)) = 0"
  "st_MovingAverage (h_stats (NewConnectorStatsHolder name i)) = 0"
  "Total (h_histogram (NewConnectorStatsHolder name i)) = 0"
  by (simp_all add: NewConnectorStatsHolder_def NewHistogram_def)

section \<open>The moving average in exact arithmetic\<close>

lemma sint_of_nat64: "n < 2 ^ 63 \<Longrightarrow> sint (of_nat n :: int64) = int n"
  by (simp add: signed_of_nat signed_take_bit_int_eq_self)

lemma rma_exact:
  assumes "n < 2 ^ 62"
  shows "rma (\<lambda>x. x) (of_nat n + 1) ma t * of_nat (Suc n) = of_nat n * ma + t"
proof -
  have "sint (of_nat (Suc n) :: int64) = int (Suc n)" "sint (of_nat n :: int64) = int n"
    using assms by (intro sint_of_nat64; simp)+
  then show ?thesis by (simp add: rma_def add.commute)
qed

lemma apply_op_rma:
  assumes "apply_op (\<lambda>x. x) x h = Ret h'" and "st_RequestCount (h_stats h) = of_nat n" and "n < 2 ^ 62"
  shows "case req_time x of
      None \<Rightarrow> st_RequestCount (h_stats h') = of_nat n \<and>
              st_MovingAverage (h_stats h') = st_MovingAverage (h_stats h)
    | Some t \<Rightarrow> st_RequestCount (h_stats h') = of_nat (Suc n) \<and>
              st_MovingAverage (h_stats h') * of_nat (Suc n) = of_nat n * st_MovingAverage (h_stats h) + t"
  using assms rma_exact [OF assms(3)] by (cases x) (auto simp: stats_defs Let_def go_simps add.commute)

lemma apply_ops_rma:
  assumes "apply_ops (\<lambda>x. x) xs h = Ret h'" and "st_RequestCount (h_stats h) = of_nat n"
    and "n + length xs < 2 ^ 62"
  shows "st_MovingAverage (h_stats h') * of_nat (n + length (req_times xs)) =
    of_nat n * st_MovingAverage (h_stats h) + sum_list (req_times xs)"
  using assms
proof (induction xs arbitrary: h n)
  case (Cons x xs)
  then obtain h1 where h1: "apply_op (\<lambda>x. x) x h = Ret h1" "apply_ops (\<lambda>x. x) xs h1 = Ret h'"
    by (auto simp: go_simps)
  have n: "n < 2 ^ 62" using Cons.prems by simp
  show ?case
  proof (cases "req_time x")
    case None
    then show ?thesis using Cons.IH [OF h1(2), of n] apply_op_rma [OF h1(1) Cons.prems(2) n] Cons.prems
      by (simp add: List.map_filter_simps)
  next
    case (Some t)
    then show ?thesis using Cons.IH [OF h1(2), of "Suc n"] apply_op_rma [OF h1(1) Cons.prems(2) n] Cons.prems
      by (simp add: List.map_filter_simps add.assoc mult.commute)
  qed
qed (simp add: List.map_filter_simps mult.commute)

section \<open>Properties\<close>

text \<open>C30. The counters of a connector are exact and agree: after any sequence of at most \<open>2 ^ 53\<close> statistics
  calls, all with non-negative durations, on a fresh holder, none panics; the messages and bytes in
  and out and the requests are those of the calls made (modulo the width of the counters); and the total of the histogram is
  the number of requests. For the calls the connectors make, the messages out are the requests.\<close>

theorem counters_agree:
  assumes "list_all timely ops" and "length ops \<le> 2 ^ 53"
  shows "\<exists>h. apply_ops fl64 ops (NewConnectorStatsHolder name i) = Ret h \<and>
    st_MessagesIn (h_stats h) = sum_list (map msgs_in ops) \<and> st_MessagesOut (h_stats h) = sum_list (map msgs_out ops) \<and>
    st_BytesIn (h_stats h) = sum_list (map bytes_in ops) \<and> st_BytesOut (h_stats h) = sum_list (map bytes_out ops) \<and>
    st_RequestCount (h_stats h) = sum_list (map reqs ops) \<and> Total (h_histogram h) = st_RequestCount (h_stats h) \<and>
    (list_all by_connector ops \<longrightarrow> st_MessagesOut (h_stats h) = st_RequestCount (h_stats h))"
proof -
  obtain h where h: "apply_ops fl64 ops (NewConnectorStatsHolder name i) = Ret h"
    using b64.apply_ops_returns [OF assms(1) hist_ok_fresh] assms(2) by fastforce
  then show ?thesis using apply_ops_counts [OF h] by_connector_counts [of ops] by simp
qed

theorem counters_agree_witness:
  "\<exists>h. apply_ops fl64 [OpConnect, OpRequest 3 4 10, OpMessageIn 2, OpStreamRequest 5 6 20 1] (NewConnectorStatsHolder ''n'' ''i'') = Ret h \<and>
    st_MessagesIn (h_stats h) = 3 \<and> st_BytesIn (h_stats h) = 10 \<and> st_BytesOut (h_stats h) = 10 \<and>
    st_RequestCount (h_stats h) = 2 \<and> st_MessagesOut (h_stats h) = 2 \<and> Total (h_histogram h) = 2"
  using counters_agree [of "[OpConnect, OpRequest 3 4 10, OpMessageIn 2, OpStreamRequest 5 6 20 1]" "''n''" "''i''"] by auto

text \<open>The running moving average is the mean: in exact arithmetic, after any sequence of statistics calls
  on a fresh holder, the reported average times the number of completed requests is the sum of their
  durations.\<close>

theorem moving_average_is_mean:
  assumes "apply_ops (\<lambda>x. x) ops (NewConnectorStatsHolder name i) = Ret h" and "length ops < 2 ^ 62"
  shows "st_MovingAverage (h_stats h) * of_nat (length (req_times ops)) = sum_list (req_times ops)"
  using apply_ops_rma [OF assms(1), of 0] assms(2) by simp

theorem moving_average_is_mean_witness:
  "\<exists>h. apply_ops (\<lambda>x. x) [OpRequest 3 3 10, OpMessageIn 2, OpRequest 1 1 20] (NewConnectorStatsHolder ''n'' ''i'') = Ret h \<and>
    st_MovingAverage (h_stats h) * 2 = 30"
proof -
  let ?ops = "[OpRequest 3 3 10, OpMessageIn 2, OpRequest 1 1 20]"
  obtain h where h: "apply_ops (\<lambda>x. x) ?ops (NewConnectorStatsHolder ''n'' ''i'') = Ret h"
    using exact.apply_ops_returns [of ?ops "NewConnectorStatsHolder ''n'' ''i''"] by auto
  have "st_MovingAverage (h_stats h) * of_nat (length (req_times ?ops)) = sum_list (req_times ?ops)"
    by (rule moving_average_is_mean [OF h]) simp
  with h show ?thesis by (simp add: List.map_filter_simps)
qed

end
