(* ===== verification/Connector.thy ===== *)
theory Connector
  imports KafkaClient Cells Stats
begin

text \<open>
  What all connectors share: \<^verbatim>\<open>server/core/connector.go\<close>. A \<open>BridgeConnector\<close> holds its
  configuration, its statistics, its Kafka writers (one per destination topic, under a short hash of
  the topic's name) and its destination template. The message callbacks are the closures the
  subscriptions and the Kafka listener call for every message; they take the connector, the cache of
  protobuf descriptors and the history, and return them changed. Logging is left out.

  The code outside the repository is collected in the record \<open>ext\<close>: the Kafka codecs and default
  configuration, the digest and regular-expression packages, the template parser, the header and
  metadata accessors of the NATS client, the orders in which Go ranges over the maps involved, and
  the rounding of float operations.
\<close>

section \<open>The surroundings of a connector\<close>

record msg_metadata =
  md_NumPending :: uint64
  md_Timestamp :: string
  md_StreamSeq :: uint64
  md_ConsumerSeq :: uint64

type_synonym dest_template = "any_msg \<Rightarrow> goerr + string"

record template_funcs =
  tf_replace :: "string \<Rightarrow> string \<Rightarrow> string \<Rightarrow> string"
  tf_substring :: "int \<Rightarrow> int \<Rightarrow> string \<Rightarrow> string res"

record ('n, 'j, 'm) ext =
  x_cd :: "('n, 'j, 'm) codecs"
  x_NewConfig :: sarama_config
  x_io :: tls_io
  x_Sum256 :: "bytes \<Rightarrow> bytes"
  x_regexp :: "string \<Rightarrow> goerr + (string \<Rightarrow> string list)"
  x_template :: "template_funcs \<Rightarrow> string \<Rightarrow> goerr + dest_template"
  x_Header_Add :: "nats_header \<Rightarrow> string \<Rightarrow> string \<Rightarrow> nats_header"
  x_Metadata :: "nats_msg \<Rightarrow> goerr + msg_metadata"
  x_header_order :: "nats_header \<Rightarrow> (string \<times> string list option) list"
  x_meta_order :: "(string, string) gomap \<Rightarrow> (string \<times> string) list"
  x_writer_order :: "(string, Producer) gomap \<Rightarrow> (string \<times> Producer) list"
  x_fl :: rounding

record BridgeConnector =
  k_config :: ConnectorConfig
  k_stats :: ConnectorStatsHolder
  k_writers :: "(string, Producer) gomap"
  k_dest :: dest_template

section \<open>Construction\<close>

definition validateStanConfig :: "ConnectorConfig \<Rightarrow> goerr option" where
  "validateStanConfig config =
     (if cc_Channel config = [] then
        Some (Errorf ''STAN channel name not specified for config type %q - ID %q''
          [AStr (cc_Type config), AStr (cc_ID config)])
      else None)"

text \<open>\<^verbatim>\<open>strings.Replace(src, old, new, -1)\<close>; an empty \<open>old\<close> matches before every character and at the end.\<close>

function replace_all :: "string \<Rightarrow> string \<Rightarrow> string \<Rightarrow> string" where
  "replace_all old new src =
     (if old = [] then new @ concat (map (\<lambda>c. c # new) src)
      else if src = [] then []
      else if take (length old) src = old then new @ replace_all old new (drop (length old) src)
      else hd src # replace_all old new (tl src))"
  by pat_completeness auto
termination by (relation "measure (\<lambda>(old, new, src). length src)") (auto simp: length_greater_0_conv [symmetric] simp del: length_greater_0_conv)

declare replace_all.simps [simp del]

definition tpl_replace :: "string \<Rightarrow> string \<Rightarrow> string \<Rightarrow> string" where
  "tpl_replace old new src = replace_all old new src"

text \<open>\<^verbatim>\<open>s[a:b]\<close>, which panics unless \<open>0 \<le> a \<le> b \<le> len(s)\<close>.\<close>

definition slice :: "'a list \<Rightarrow> int \<Rightarrow> int \<Rightarrow> 'a list res" where
  "slice s a b =
     (if 0 \<le> a \<and> a \<le> b \<and> b \<le> int (length s) then Ret (take (nat (b - a)) (drop (nat a) s))
      else Panic SliceBounds)"

definition tpl_substring :: "int \<Rightarrow> int \<Rightarrow> string \<Rightarrow> string res" where
  "tpl_substring start stop s =
     (if start < 0 then slice s 0 stop
      else if stop < 0 \<or> int (length s) < stop then slice s start (int (length s))
      else slice s start stop)"

definition initDestTemplate :: "('n, 'j, 'm) ext \<Rightarrow> string \<Rightarrow> dest_template res" where
  "initDestTemplate x destTpl =
     (case x_template x \<lparr>tf_replace = tpl_replace, tf_substring = tpl_substring\<rparr> destTpl of
        Inl e \<Rightarrow> Panic FatalExit
      | Inr t \<Rightarrow> Ret t)"

text \<open>\<open>init\<close>: \<open>fresh\<close> is what \<^verbatim>\<open>nuid.Next()\<close> returns, used when the configuration has no id.\<close>

definition init_connector ::
  "('n, 'j, 'm) ext \<Rightarrow> string \<Rightarrow> ConnectorConfig \<Rightarrow> string \<Rightarrow> string \<Rightarrow> BridgeConnector res" where
  "init_connector x fresh config destTpl name =
     (let name = (if cc_NATSConnection config \<noteq> [] then ''['' @ cc_NATSConnection config @ ''] '' @ name else name);
          ident = (if cc_ID config = [] then fresh else cc_ID config);
          stats = SetNATSConnection (cc_NATSConnection config) (NewConnectorStatsHolder name ident)
      in bind_res (initDestTemplate x destTpl) (\<lambda>t.
           Ret \<lparr>k_config = config, k_stats = stats, k_writers = [], k_dest = t\<rparr>))"

definition conn_String :: "BridgeConnector \<Rightarrow> string" where
  "conn_String conn = holder_Name (k_stats conn)"

definition conn_ID :: "BridgeConnector \<Rightarrow> string" where
  "conn_ID conn = holder_ID (k_stats conn)"

definition conn_NATSConnection :: "BridgeConnector \<Rightarrow> string" where
  "conn_NATSConnection conn = cc_NATSConnection (k_config conn)"

definition conn_Stats :: "rounding \<Rightarrow> BridgeConnector \<Rightarrow> BridgeConnector \<times> ConnectorStats" where
  "conn_Stats fl conn = (case Stats fl (k_stats conn) of (h, s) \<Rightarrow> (conn\<lparr>k_stats := h\<rparr>, s))"

definition dest :: "BridgeConnector \<Rightarrow> any_msg \<Rightarrow> string" where
  "dest conn msg = (case k_dest conn msg of Inl e \<Rightarrow> [] | Inr s \<Rightarrow> s)"

section \<open>Keys and headers\<close>

definition regex_key :: "('n, 'j, 'm) ext \<Rightarrow> string \<Rightarrow> string \<Rightarrow> bytes" where
  "regex_key x keyValue text =
     (case x_regexp x keyValue of
        Inl e \<Rightarrow> []
      | Inr FindStringSubmatch \<Rightarrow>
         (let result = FindStringSubmatch text in
          if 1 < length result then str_bytes (result ! 1) else []))"

definition calculateKey :: "('n, 'j, 'm) ext \<Rightarrow> BridgeConnector \<Rightarrow> string \<Rightarrow> string \<Rightarrow> bytes" where
  "calculateKey x conn subject replyto =
     (let keyType = cc_KeyType (k_config conn); keyValue = cc_KeyValue (k_config conn) in
      if keyType = FixedKey then str_bytes keyValue
      else if keyType = SubjectKey then str_bytes subject
      else if keyType = ReplyToKey then str_bytes replyto
      else if keyType = SubjectRegex then regex_key x keyValue subject
      else if keyType = ReplyRegex then regex_key x keyValue replyto
      else [])"

definition convertFromKafkaToNatsHeaders :: "('n, 'j, 'm) ext \<Rightarrow> RecordHeader list \<Rightarrow> nats_header" where
  "convertFromKafkaToNatsHeaders x hdrs =
     fold (\<lambda>kHdr nHdrs. case rh_Value kHdr of
             None \<Rightarrow> nHdrs
           | Some v \<Rightarrow> x_Header_Add x nHdrs (bytes_str (rh_Key kHdr)) (bytes_str v)) hdrs []"

fun kafka_headers :: "(string \<times> string list option) list \<Rightarrow> RecordHeader list res" where
  "kafka_headers [] = Ret []"
| "kafka_headers ((k, v) # rest) =
     (case v of
        None \<Rightarrow> bind_res (kafka_headers rest) (\<lambda>hs. Ret (\<lparr>rh_Key = str_bytes k, rh_Value = None\<rparr> # hs))
      | Some [] \<Rightarrow> Panic IndexOutOfRange
      | Some (v0 # _) \<Rightarrow>
          bind_res (kafka_headers rest) (\<lambda>hs. Ret (\<lparr>rh_Key = str_bytes k, rh_Value = Some (str_bytes v0)\<rparr> # hs)))"

definition convertFromNatsToKafkaHeaders :: "('n, 'j, 'm) ext \<Rightarrow> nats_header \<Rightarrow> RecordHeader list res" where
  "convertFromNatsToKafkaHeaders x hdr = (if hdr \<noteq> [] then kafka_headers (x_header_order x hdr) else Ret [])"

definition meta_map :: "('n, 'j, 'm) ext \<Rightarrow> nats_msg \<Rightarrow> (string, string) gomap" where
  "meta_map x msg =
     (let metaMap = [(''subject'', nm_Subject msg)] in
      case x_Metadata x msg of
        Inl e \<Rightarrow> metaMap
      | Inr md \<Rightarrow>
          metaMap @ [(''num_pending'', Itoa (uint (md_NumPending md))), (''timestamp'', md_Timestamp md),
            (''stream_seq'', Itoa (uint (md_StreamSeq md))), (''consumer_seq'', Itoa (uint (md_ConsumerSeq md)))])"

definition convertFromNatsToKafkaHeadersWithMetaData ::
  "('n, 'j, 'm) ext \<Rightarrow> nats_msg \<Rightarrow> RecordHeader list res" where
  "convertFromNatsToKafkaHeadersWithMetaData x msg =
     bind_res (convertFromNatsToKafkaHeaders x (nm_Header msg)) (\<lambda>headers.
       Ret (headers @ map (\<lambda>(k, v). \<lparr>rh_Key = str_bytes k, rh_Value = Some (str_bytes v)\<rparr>)
              (x_meta_order x (meta_map x msg))))"

section \<open>The writer cache\<close>

definition digits :: string where
  "digits = ''0123456789ABCDEFGHIJKLMNOPQRSTUVWXYZabcdefghijklmnopqrstuvwxyz''"

definition getHash :: "('n, 'j, 'm) ext \<Rightarrow> string \<Rightarrow> string" where
  "getHash x name = map (\<lambda>b. digits ! (unat b mod 62)) (take 6 (x_Sum256 x (str_bytes name)))"

definition writer ::
  "env \<Rightarrow> ('n, 'j, 'm) ext \<Rightarrow> NATSKafkaBridgeConfig \<Rightarrow> any_msg \<Rightarrow> BridgeConnector \<Rightarrow> history \<Rightarrow>
   (BridgeConnector \<times> history) \<times> Producer res" where
  "writer env x bc msg conn w =
     (let t = dest conn msg; h = getHash x t in
      case map_of (k_writers conn) h of
        Some p \<Rightarrow> ((conn, w), Ret p)
      | None \<Rightarrow>
         (let store = (\<lambda>p. conn\<lparr>k_writers := map_put h p (k_writers conn)\<rparr>) in
          case NewProducer env (x_cd x) (x_NewConfig x) (x_io x) (k_config conn) bc t w of
            (w, Ret sp) \<Rightarrow> ((store (SaramaProducer sp), w), Ret (SaramaProducer sp))
          | (w, Fail e) \<Rightarrow>
              (let p = ErroredProducer (Wrapf ''failed to create producer: %w'' [] e)
               in ((store p, w), Ret p))
          | (w, Panic y) \<Rightarrow> ((conn, w), Panic y)))"

fun close_writers :: "env \<Rightarrow> (string \<times> Producer) list \<Rightarrow> BridgeConnector \<Rightarrow> history \<Rightarrow> BridgeConnector \<times> history" where
  "close_writers env [] conn w = (conn, w)"
| "close_writers env ((t, p) # rest) conn w =
     (case producer_Close env p w of
        (w, _) \<Rightarrow> close_writers env rest (conn\<lparr>k_writers := map_del t (k_writers conn)\<rparr>) w)"

definition closeWriters :: "env \<Rightarrow> ('n, 'j, 'm) ext \<Rightarrow> BridgeConnector \<Rightarrow> history \<Rightarrow> BridgeConnector \<times> history" where
  "closeWriters env x conn w = close_writers env (x_writer_order x (k_writers conn)) conn w"

section \<open>From NATS to Kafka\<close>

text \<open>
  The state a callback runs in, and the two outcomes the callbacks share: the message is counted as
  received when the write failed, as a request when it succeeded.
\<close>

type_synonym conn_state = "BridgeConnector \<times> pb_cache \<times> history"

definition set_stats :: "ConnectorStatsHolder res \<Rightarrow> conn_state \<Rightarrow> conn_state \<times> unit res" where
  "set_stats r s =
     (case s of (conn, cache, w) \<Rightarrow>
       (case r of
          Ret h \<Rightarrow> ((conn\<lparr>k_stats := h\<rparr>, cache, w), Ret ())
        | Fail e \<Rightarrow> (s, Fail e)
        | Panic p \<Rightarrow> (s, Panic p)))"

definition msg_len :: "bytes \<Rightarrow> int64" where
  "msg_len b = of_nat (length b)"

text \<open>The write of a callback: the writer of the message's topic, the headers, the write.\<close>

definition write_to_kafka ::
  "env \<Rightarrow> ('n, 'j, 'm) ext \<Rightarrow> NATSKafkaBridgeConfig \<Rightarrow> any_msg \<Rightarrow> bytes \<Rightarrow> bytes \<Rightarrow> RecordHeader list res \<Rightarrow>
   conn_state \<Rightarrow> conn_state \<times> unit res" where
  "write_to_kafka env x bc msg key data headers s =
     (case s of (conn, cache, w) \<Rightarrow>
       (case writer env x bc msg conn w of
          ((conn, w), Ret p) \<Rightarrow>
            (case headers of
               Ret hs \<Rightarrow>
                 (case Write env (x_cd x) p \<lparr>m_Topic = [], m_Partition = 0, m_Offset = 0, m_Key = key,
                         m_Value = data, m_Headers = hs\<rparr> (cache, w) of
                    ((cache, w), r) \<Rightarrow> ((conn, cache, w), r))
             | Fail e \<Rightarrow> ((conn, cache, w), Fail e)
             | Panic y \<Rightarrow> ((conn, cache, w), Panic y))
        | ((conn, w), Fail e) \<Rightarrow> ((conn, cache, w), Fail e)
        | ((conn, w), Panic y) \<Rightarrow> ((conn, cache, w), Panic y)))"

definition nats_callback ::
  "env \<Rightarrow> ('n, 'j, 'm) ext \<Rightarrow> NATSKafkaBridgeConfig \<Rightarrow> int64 \<Rightarrow> nats_msg \<Rightarrow> conn_state \<Rightarrow> conn_state \<times> unit res" where
  "nats_callback env x bc elapsed msg s =
     (let l = msg_len (nm_Data msg);
          key = calculateKey x (fst s) (nm_Subject msg) (nm_Reply msg);
          headers = convertFromNatsToKafkaHeaders x (nm_Header msg)
      in case write_to_kafka env x bc (NatsMsg msg) key (nm_Data msg) headers s of
           (s, Fail e) \<Rightarrow> set_stats (Ret (AddMessageIn l (k_stats (fst s)))) s
         | (s, Ret _) \<Rightarrow> set_stats (AddRequest (x_fl x) l l elapsed (k_stats (fst s))) s
         | (s, Panic p) \<Rightarrow> (s, Panic p))"

definition stan_callback ::
  "env \<Rightarrow> ('n, 'j, 'm) ext \<Rightarrow> NATSKafkaBridgeConfig \<Rightarrow> int64 \<Rightarrow> stan_msg \<Rightarrow> conn_state \<Rightarrow> conn_state \<times> unit res" where
  "stan_callback env x bc elapsed msg s =
     (let l = msg_len (sm_Data msg);
          config = k_config (fst s);
          key = calculateKey x (fst s) (cc_Channel config) (cc_DurableName config)
      in case write_to_kafka env x bc (StanMsg msg) key (sm_Data msg) (Ret []) s of
           (s, Fail e) \<Rightarrow> set_stats (Ret (AddMessageIn l (k_stats (fst s)))) s
         | ((conn, cache, w), Ret _) \<Rightarrow>
             (case call_err env (StanAck msg) w of
                (w, _) \<Rightarrow> set_stats (AddRequest (x_fl x) l l elapsed (k_stats conn)) (conn, cache, w))
         | (s, Panic p) \<Rightarrow> (s, Panic p))"

definition jetstream_callback ::
  "env \<Rightarrow> ('n, 'j, 'm) ext \<Rightarrow> NATSKafkaBridgeConfig \<Rightarrow> int64 \<Rightarrow> nats_msg \<Rightarrow> conn_state \<Rightarrow> conn_state \<times> unit res" where
  "jetstream_callback env x bc elapsed msg s =
     (let l = msg_len (nm_Data msg);
          config = k_config (fst s);
          key = calculateKey x (fst s) (cc_Subject config) (cc_DurableName config);
          headers = convertFromNatsToKafkaHeadersWithMetaData x msg;
          ack = (if js_EnableAckSync (b_JetStream bc) then NatsAckSync msg else NatsAck msg)
      in case write_to_kafka env x bc (NatsMsg msg) key (nm_Data msg) headers s of
           (s, Fail e) \<Rightarrow> set_stats (Ret (AddMessageIn l (k_stats (fst s)))) s
         | ((conn, cache, w), Ret _) \<Rightarrow>
             (case call_err env ack w of
                (w, _) \<Rightarrow>
                  (case x_Metadata x msg of
                     Inl e \<Rightarrow> ((conn, cache, w), Panic NilDeref)
                   | Inr metaData \<Rightarrow>
                       set_stats (AddStreamRequest (x_fl x) l l elapsed (md_NumPending metaData) (k_stats conn))
                         (conn, cache, w)))
         | (s, Panic p) \<Rightarrow> (s, Panic p))"

text \<open>The subscriptions, with the start position their options select.\<close>

definition start_position :: "ConnectorConfig \<Rightarrow> start_option" where
  "start_position config =
     (if cc_StartAtTime config \<noteq> 0 then StartAtTime (cc_StartAtTime config)
      else if cc_StartAtSequence config = -1 then StartLast
      else if 0 < cc_StartAtSequence config then StartAtSequence (word_of_int (cc_StartAtSequence config))
      else DeliverAll)"

definition durable_option :: "ConnectorConfig \<Rightarrow> sub_option list" where
  "durable_option config = (if cc_DurableName config \<noteq> [] then [Durable (cc_DurableName config)] else [])"

definition subscribeToNATS ::
  "env \<Rightarrow> conns \<Rightarrow> BridgeConnector \<Rightarrow> history \<Rightarrow> history \<times> (goerr + nat)" where
  "subscribeToNATS env b conn w =
     (let config = k_config conn in
      case NATSFor (cc_NATSConnection config) b of
        None \<Rightarrow> (w, Inl (Errorf ''bridge not connected to NATS on cluster %q'' [AStr (cc_NATSConnection config)]))
      | Some nc \<Rightarrow> call_handle env (NatsSubscribe nc (cc_Subject config) (cc_QueueName config)) w)"

definition subscribeToChannel ::
  "env \<Rightarrow> conns \<Rightarrow> BridgeConnector \<Rightarrow> history \<Rightarrow> history \<times> (goerr + nat)" where
  "subscribeToChannel env b conn w =
     (let config = k_config conn in
      case Stan b of
        None \<Rightarrow> (w, Inl (Errorf ''bridge not configured to use NATS streaming'' []))
      | Some sc \<Rightarrow>
         (let options = durable_option config @ [StartAt (start_position config)] @ [ManualAckMode]
          in call_handle env (StanSubscribe sc (cc_Channel config) options) w))"

definition subscribeToJetStream ::
  "env \<Rightarrow> NATSKafkaBridgeConfig \<Rightarrow> conns \<Rightarrow> BridgeConnector \<Rightarrow> history \<Rightarrow> history \<times> (goerr + nat)" where
  "subscribeToJetStream env bc b conn w =
     (let config = k_config conn; jc = b_JetStream bc in
      case JetStreamFor (cc_NATSConnection config) b of
        None \<Rightarrow> (w, Inl (Errorf ''bridge not connected to JetStream on cluster %q'' [AStr (cc_NATSConnection config)]))
      | Some js \<Rightarrow>
         (let options = [AckExplicit] @ durable_option config @ [StartAt (start_position config)] @
                (if js_EnableFlowControl jc then [EnableFlowControl] else []) @
                (if 0 < js_HeartbeatInterval jc then [IdleHeartbeat (milliseconds (js_HeartbeatInterval jc))] else []) @
                (if cc_Stream config \<noteq> [] then [BindStream (cc_Stream config)] else [])
          in call_handle env (JsSubscribe js (cc_Subject config) (cc_QueueName config) options) w))"

section \<open>From Kafka to NATS\<close>

definition nats_message :: "('n, 'j, 'm) ext \<Rightarrow> BridgeConnector \<Rightarrow> Message \<Rightarrow> nats_msg" where
  "nats_message x conn msg = \<lparr>nm_Subject = dest conn (KafkaMsg msg), nm_Reply = [],
     nm_Header = convertFromKafkaToNatsHeaders x (m_Headers msg), nm_Data = m_Value msg\<rparr>"

type_synonym ('n, 'j, 'm) handler =
  "env \<Rightarrow> ('n, 'j, 'm) ext \<Rightarrow> conns \<Rightarrow> BridgeConnector \<Rightarrow> Message \<Rightarrow> history \<Rightarrow> history \<times> unit res"

definition err_res :: "history \<times> goerr option \<Rightarrow> history \<times> unit res" where
  "err_res p = (case p of (w, None) \<Rightarrow> (w, Ret ()) | (w, Some e) \<Rightarrow> (w, Fail e))"

definition jetStreamMessageHandler :: "('n, 'j, 'm) handler" where
  "jetStreamMessageHandler env x b conn msg w =
     (let cluster = cc_NATSConnection (k_config conn) in
      case JetStreamFor cluster b of
        None \<Rightarrow> (w, Fail (Errorf ''bridge not connected to JetStream on cluster %q'' [AStr cluster]))
      | Some js \<Rightarrow> err_res (call_err env (JsPublish js (nats_message x conn msg)) w))"

definition stanMessageHandler :: "('n, 'j, 'm) handler" where
  "stanMessageHandler env x b conn msg w =
     (case Stan b of
        None \<Rightarrow> (w, Panic NilDeref)
      | Some sc \<Rightarrow> err_res (call_err env (StanPublish sc (dest conn (KafkaMsg msg)) (m_Value msg)) w))"

definition natsMessageHandler :: "('n, 'j, 'm) handler" where
  "natsMessageHandler env x b conn msg w =
     (let cluster = cc_NATSConnection (k_config conn) in
      case NATSFor cluster b of
        None \<Rightarrow> (w, Fail (Errorf ''bridge not connected to NATS on cluster %q'' [AStr cluster]))
      | Some nc \<Rightarrow> err_res (call_err env (NatsPublish nc (nats_message x conn msg)) w))"

text \<open>
  The listener of a Kafka connector. The callback reports the error it passes to
  \<^verbatim>\<open>bridge.ConnectorError\<close>, if any. One turn of the loop fetches, calls back and looks at the
  \<^verbatim>\<open>done\<close> channel; it ends the loop (\<open>Quit\<close>, with the error it reports) or goes on.
\<close>

definition listener_callback ::
  "env \<Rightarrow> ('n, 'j, 'm) ext \<Rightarrow> ('n, 'j, 'm) handler \<Rightarrow> conns \<Rightarrow> saramaConsumer \<Rightarrow> int64 \<Rightarrow> Message \<Rightarrow>
   conn_state \<Rightarrow> conn_state \<times> goerr option res" where
  "listener_callback env x handler b target elapsed msg s =
     (case s of (conn, cache, w) \<Rightarrow>
       (let l = msg_len (m_Value msg);
            received = (\<lambda>w. (conn\<lparr>k_stats := AddMessageIn l (k_stats conn)\<rparr>, cache, w));
            request = (\<lambda>w. case set_stats (AddRequest (x_fl x) l l elapsed (k_stats conn)) (conn, cache, w) of
                             (s, r) \<Rightarrow> (s, bind_res r (\<lambda>_. Ret None)))
        in case handler env x b conn msg w of
             (w, Panic p) \<Rightarrow> ((conn, cache, w), Panic p)
           | (w, Fail e) \<Rightarrow> (received w, Ret None)
           | (w, Ret _) \<Rightarrow>
               if cc_GroupID (k_config conn) \<noteq> [] then
                 (case Commit env target msg w of
                    (w, Some e) \<Rightarrow> (received w, Ret (Some e))
                  | (w, None) \<Rightarrow> request w)
               else request w))"

datatype turn = Next "goerr option" | Quit "goerr option"

definition listener_turn ::
  "env \<Rightarrow> ('n, 'j, 'm) ext \<Rightarrow> ('n, 'j, 'm) handler \<Rightarrow> conns \<Rightarrow> saramaConsumer \<Rightarrow> bool \<Rightarrow> bool \<Rightarrow> int64 \<Rightarrow> arrival \<Rightarrow>
   conn_state \<Rightarrow> conn_state \<times> turn res" where
  "listener_turn env x handler b target cancelled done elapsed a s =
     (case s of (conn, cache, w) \<Rightarrow>
       (case Fetch (x_cd x) target a cache of
          (cache, Panic p) \<Rightarrow> ((conn, cache, w), Panic p)
        | (cache, Fail e) \<Rightarrow>
            ((conn, cache, w), Ret (if cancelled \<and> e = CtxCanceled then Quit None else Quit (Some e)))
        | (cache, Ret msg) \<Rightarrow>
            (case listener_callback env x handler b target elapsed msg (conn, cache, w) of
               (s, r) \<Rightarrow> (s, bind_res r (\<lambda>e. Ret (if done then Quit e else Next e))))))"

end
