(* ===== verification/ConnectorLaws.thy ===== *)
theory ConnectorLaws
  imports Connector
begin

text \<open>
  Theorems about theory \<open>Connector\<close>: the contracts of the message callbacks as locales, proved for
  the callbacks of the model, and the properties that rest on them. From NATS to Kafka an
  acknowledgement is sent for exactly the messages Kafka has accepted; from Kafka to NATS an offset is
  committed only for messages NATS has accepted; the statistics count every message once; headers and
  keys are translated as documented; and the writer cache sends a message to its topic as long as no
  two topics in use share a hash.
\<close>

section \<open>The writer cache\<close>

definition writers_ok :: "('n, 'j, 'm) ext \<Rightarrow> BridgeConnector \<Rightarrow> bool" where
  "writers_ok x conn \<longleftrightarrow>
     (\<forall>h p. map_of (k_writers conn) h = Some (SaramaProducer p) \<longrightarrow> getHash x (sp_topic p) = h)"

lemma NewProducer_history:
  assumes "NewProducer env cd NewConfig io cc bc t w = (w', r)"
  shows "w' = w \<or> (\<exists>b c a. w' = w @ [(NewSyncProducer b c, a)])"
  using assms by (auto simp: NewProducer_def call_handle_def Let_def split: res.splits sum.splits)

lemma NewProducer_topic:
  assumes "NewProducer env cd NewConfig io cc bc t w = (w', Ret p)"
  shows "sp_topic p = t"
  using assms by (auto simp: NewProducer_def Let_def split: res.splits sum.splits prod.splits if_splits)

text \<open>A step of the history that neither delivers to Kafka nor acknowledges to NATS.\<close>

fun is_ack :: "request \<times> answer \<Rightarrow> bool" where
  "is_ack (StanAck m, a) = True"
| "is_ack (NatsAck m, a) = True"
| "is_ack (NatsAckSync m, a) = True"
| "is_ack _ = False"

definition acks :: "history \<Rightarrow> nat" where
  "acks w = length (filter is_ack w)"

lemma acks_simps [simp]: "acks [] = 0" "acks (x # w) = (if is_ack x then 1 else 0) + acks w" "acks (a @ b) = acks a + acks b"
  by (simp_all add: acks_def)

definition quiet :: "history \<Rightarrow> bool" where
  "quiet w \<longleftrightarrow> sends w = 0 \<and> acks w = 0"

lemma quiet_simps [simp]:
  "quiet []" "quiet [(NewSyncProducer b c, a)]" "quiet [(SendMessage h pm, Err (Some e))]"
  "quiet (u @ v) \<longleftrightarrow> quiet u \<and> quiet v"
  by (auto simp: quiet_def accepted_def)

lemma writer_spec:
  assumes "writer env x bc msg conn w = ((conn', w'), r)"
  shows "\<exists>pre. w' = w @ pre \<and> quiet pre" and "k_config conn' = k_config conn"
    and "k_stats conn' = k_stats conn" and "k_dest conn' = k_dest conn"
  using assms NewProducer_history [of env "x_cd x" "x_NewConfig x" "x_io x" "k_config conn" bc "dest conn msg" w]
  by (force simp: writer_def Let_def split: option.splits prod.splits res.splits)+

lemma writer_ok:
  assumes "writer env x bc msg conn w = ((conn', w'), r)" and "writers_ok x conn"
  shows "writers_ok x conn'" and "r = Ret (SaramaProducer p) \<Longrightarrow> getHash x (sp_topic p) = getHash x (dest conn msg)"
    and "r = Ret q \<Longrightarrow> map_of (k_writers conn') (getHash x (dest conn msg)) = Some q"
  using assms
  by (auto simp: writer_def writers_ok_def Let_def update_conv' dest!: NewProducer_topic
      split: option.splits prod.splits res.splits if_splits)

text \<open>The topics \<open>T\<close> a cache has producers for.\<close>

definition writers_for :: "('n, 'j, 'm) ext \<Rightarrow> string set \<Rightarrow> BridgeConnector \<Rightarrow> bool" where
  "writers_for x T conn \<longleftrightarrow> (\<forall>h p. map_of (k_writers conn) h = Some (SaramaProducer p) \<longrightarrow> sp_topic p \<in> T \<and> getHash x (sp_topic p) = h)"

lemma writers_for_step:
  assumes "writer env x bc msg conn w = ((conn', w'), r)" and "writers_for x T conn" and "dest conn msg \<in> T" and "inj_on (getHash x) T"
  shows "writers_for x T conn'" and "r = Ret (SaramaProducer p) \<Longrightarrow> sp_topic p = dest conn msg"
proof -
  show "writers_for x T conn'" using assms(1-3)
    by (auto simp: writer_def writers_for_def Let_def update_conv' dest!: NewProducer_topic
        split: option.splits prod.splits res.splits if_splits)
  show "sp_topic p = dest conn msg" if "r = Ret (SaramaProducer p)"
  proof (cases "map_of (k_writers conn) (getHash x (dest conn msg))")
    case None
    then show ?thesis using assms(1) that by (auto simp: writer_def Let_def dest!: NewProducer_topic split: prod.splits res.splits)
  next
    case (Some q)
    then have "q = SaramaProducer p" using assms(1) that by (simp add: writer_def Let_def)
    then show ?thesis using Some assms(2-4) by (auto simp: writers_for_def inj_on_def)
  qed
qed

lemma writer_cached:
  "map_of (k_writers conn) (getHash x (dest conn msg)) = Some q \<Longrightarrow> writer env x bc msg conn w = ((conn, w), Ret q)"
  by (simp add: writer_def Let_def)

text \<open>The writers a connector chooses for the messages it handles one after the other.\<close>

fun choose_writers ::
  "env \<Rightarrow> ('n, 'j, 'm) ext \<Rightarrow> NATSKafkaBridgeConfig \<Rightarrow> any_msg list \<Rightarrow> BridgeConnector \<Rightarrow> history \<Rightarrow>
   (BridgeConnector \<times> history) \<times> Producer res list" where
  "choose_writers env x bc [] conn w = ((conn, w), [])"
| "choose_writers env x bc (m # ms) conn w =
     (case writer env x bc m conn w of
        ((conn, w), r) \<Rightarrow> (case choose_writers env x bc ms conn w of (s, rs) \<Rightarrow> (s, r # rs)))"

lemma writer_dest: "writer env x bc msg conn w = ((conn', w'), r) \<Longrightarrow> dest conn' m = dest conn m"
  using writer_spec(4) [of env x bc msg conn w conn' w' r] by (simp add: dest_def)

lemma choose_writers_topics:
  "choose_writers env x bc ms conn w = ((conn', w'), rs) \<Longrightarrow> writers_for x T conn \<Longrightarrow> dest conn ` set ms \<subseteq> T \<Longrightarrow>
   inj_on (getHash x) T \<Longrightarrow>
   length rs = length ms \<and> (\<forall>i < length ms. \<forall>p. rs ! i = Ret (SaramaProducer p) \<longrightarrow> sp_topic p = dest conn (ms ! i))"
proof (induction ms arbitrary: conn w rs)
  case (Cons m ms)
  obtain c1 w1 r where one: "writer env x bc m conn w = ((c1, w1), r)" by (metis surj_pair)
  obtain rs1 where rest: "choose_writers env x bc ms c1 w1 = ((conn', w'), rs1)" and rs: "rs = r # rs1"
    using Cons.prems(1) one by (auto split: prod.splits)
  note st = writers_for_step [OF one Cons.prems(2) _ Cons.prems(4)]
  have T: "dest conn m \<in> T" "dest c1 ` set ms \<subseteq> T" using Cons.prems(3) writer_dest [OF one] by auto
  note IH = Cons.IH [OF rest st(1) [OF T(1)] T(2) Cons.prems(4)]
  have "sp_topic p = dest conn ((m # ms) ! i)" if "i < length (m # ms)" "rs ! i = Ret (SaramaProducer p)" for i p
    using that rs IH st(2) [OF T(1)] writer_dest [OF one] by (cases i) auto
  then show ?case using IH rs by auto
qed simp

text \<open>A topic that has a writer keeps it.\<close>

lemma writer_keeps:
  assumes "writer env x bc msg conn w = ((conn', w'), r)" and "map_of (k_writers conn) h = Some q"
  shows "map_of (k_writers conn') h = Some q"
  using assms by (auto simp: writer_def Let_def update_conv' split: option.splits prod.splits res.splits)

lemma writer_stores: "writer env x bc msg conn w = ((conn', w'), Ret q) \<Longrightarrow> map_of (k_writers conn') (getHash x (dest conn msg)) = Some q"
  by (auto simp: writer_def Let_def update_conv' split: option.splits prod.splits res.splits)

lemma choose_writers_cached:
  "choose_writers env x bc ms conn w = ((conn', w'), rs) \<Longrightarrow> map_of (k_writers conn) (getHash x t) = Some q \<Longrightarrow>
   j < length ms \<Longrightarrow> dest conn (ms ! j) = t \<Longrightarrow> rs ! j = Ret q"
proof (induction ms arbitrary: conn w rs j)
  case (Cons m ms)
  obtain c1 w1 r where one: "writer env x bc m conn w = ((c1, w1), r)" by (metis surj_pair)
  obtain rs1 where rest: "choose_writers env x bc ms c1 w1 = ((conn', w'), rs1)" and rs: "rs = r # rs1"
    using Cons.prems(1) one by (auto split: prod.splits)
  show ?case
  proof (cases j)
    case 0
    then show ?thesis using Cons.prems(2,4) one rs writer_cached [of conn x m q env bc w] by simp
  next
    case (Suc k)
    then show ?thesis using Cons.IH [OF rest writer_keeps [OF one Cons.prems(2)], of k] Cons.prems(3,4) rs writer_dest [OF one] by simp
  qed
qed simp

lemma choose_writers_same:
  "choose_writers env x bc ms conn w = ((conn', w'), rs) \<Longrightarrow> i < length ms \<Longrightarrow> j < length ms \<Longrightarrow> i \<le> j \<Longrightarrow>
   dest conn (ms ! j) = dest conn (ms ! i) \<Longrightarrow> rs ! i = Ret q \<Longrightarrow> rs ! j = Ret q"
proof (induction ms arbitrary: conn w rs i j)
  case (Cons m ms)
  obtain c1 w1 r where one: "writer env x bc m conn w = ((c1, w1), r)" by (metis surj_pair)
  obtain rs1 where rest: "choose_writers env x bc ms c1 w1 = ((conn', w'), rs1)" and rs: "rs = r # rs1"
    using Cons.prems(1) one by (auto split: prod.splits)
  note d = writer_dest [OF one]
  show ?case
  proof (cases i)
    case 0
    then have "map_of (k_writers c1) (getHash x (dest conn m)) = Some q" using writer_stores one Cons.prems(6) rs by simp
    then show ?thesis using 0 Cons.prems(3,5,6) rs d choose_writers_cached [OF rest] by (cases j) auto
  next
    case (Suc k)
    then show ?thesis using Cons.IH [OF rest, of k "j - 1"] Cons.prems(2-6) rs d by (cases j) auto
  qed
qed simp

lemma close_writers_spec:
  assumes "close_writers env ws conn w = (conn', w')"
  shows "k_writers conn' = fold (\<lambda>(t, p). map_del t) ws (k_writers conn)" and "k_config conn' = k_config conn"
    and "k_stats conn' = k_stats conn" and "k_dest conn' = k_dest conn"
  using assms by (induction env ws conn w rule: close_writers.induct) (auto split: prod.splits)

lemma fold_del_keys: "keys (fold (\<lambda>(t, p). map_del t) ws m) = keys m - fst ` set ws"
  by (induction ws arbitrary: m) auto

lemma closeWriters_empty:
  assumes "map_order (x_writer_order x)"
  shows "k_writers (fst (closeWriters env x conn w)) = []"
proof -
  obtain conn' w' where c: "closeWriters env x conn w = (conn', w')" by (metis surj_pair)
  have "keys (k_writers conn') = keys (k_writers conn) - fst ` set (x_writer_order x (k_writers conn))"
    using close_writers_spec(1) [OF c [unfolded closeWriters_def]] fold_del_keys by simp
  then have "keys (k_writers conn') = {}" using map_order.set_order [OF assms] by (simp add: keys_def)
  then show ?thesis by (simp add: c keys_def)
qed

section \<open>Callbacks that acknowledge\<close>

text \<open>
  The contract of a callback that acknowledges: per message, either Kafka accepted one record and the
  acknowledgement follows it at once, or nothing was accepted and nothing acknowledged.
\<close>

fun run_callback :: "('msg \<Rightarrow> 's \<Rightarrow> 's \<times> unit res) \<Rightarrow> 'msg list \<Rightarrow> 's \<Rightarrow> 's \<times> unit res" where
  "run_callback cb [] s = (s, Ret ())"
| "run_callback cb (m # ms) s =
     (case cb m s of (s, Panic p) \<Rightarrow> (s, Panic p) | (s, _) \<Rightarrow> run_callback cb ms s)"

locale acking_callback =
  fixes cb :: "'msg \<Rightarrow> conn_state \<Rightarrow> conn_state \<times> unit res"
    and ack :: "'msg \<Rightarrow> request"
  assumes acks_delivery: "cb m (c, k, w) = ((c', k', w'), r) \<Longrightarrow>
      (\<exists>pre h pm a. quiet pre \<and> w' = w @ pre @ [(SendMessage h pm, Err None), (ack m, a)]) \<or>
      (\<exists>pre. quiet pre \<and> w' = w @ pre)"
    and is_ack_ack: "is_ack (ack m, a)"
begin

lemma one_ack:
  assumes "cb m (c, k, w) = ((c', k', w'), r)"
  shows "acks w' + sends w = acks w + sends w'"
proof -
  have "acks [(SendMessage h pm, Err None), (ack m, a)] = 1" "sends [(SendMessage h pm, Err None), (ack m, a)] = 1" for h pm a
    using is_ack_ack [of m a] by (auto simp: accepted_def split: request.splits elim!: is_ack.elims)
  then show ?thesis using acks_delivery [OF assms] by (auto simp: quiet_def)
qed

lemma acks_match_sends:
  "run_callback cb ms (c, k, w) = ((c', k', w'), r) \<Longrightarrow> acks w' + sends w = acks w + sends w'"
proof (induction ms arbitrary: c k w)
  case (Cons m ms)
  obtain c1 k1 w1 r1 where one: "cb m (c, k, w) = ((c1, k1, w1), r1)" by (metis surj_pair)
  show ?case
  proof (cases "\<exists>p. r1 = Panic p")
    case True
    then show ?thesis using Cons.prems one one_ack [OF one] by auto
  next
    case False
    then have "run_callback cb ms (c1, k1, w1) = ((c', k', w'), r)"
      using Cons.prems one by (cases r1) auto
    then show ?thesis using Cons.IH one_ack [OF one] by fastforce
  qed
qed simp

end

lemma set_stats_spec:
  assumes "set_stats h (conn, cache, w) = ((conn', cache', w'), r)"
  shows "w' = w" and "k_config conn' = k_config conn" and "k_writers conn' = k_writers conn"
  using assms by (auto simp: set_stats_def split: res.splits)

lemma write_to_kafka_spec:
  assumes "write_to_kafka env x bc msg key data hs (conn, cache, w) = ((conn', cache', w'), r)"
  shows "(r = Ret () \<and> (\<exists>pre h pm. quiet pre \<and> w' = w @ pre @ [(SendMessage h pm, Err None)])) \<or>
    (r \<noteq> Ret () \<and> (\<exists>pre. quiet pre \<and> w' = w @ pre))"
    and "k_stats conn' = k_stats conn" and "k_config conn' = k_config conn"
proof -
  obtain conn1 w1 p where wr: "writer env x bc msg conn w = ((conn1, w1), p)" by (metis surj_pair)
  obtain pre where pre: "w1 = w @ pre" "quiet pre" using writer_spec(1) [OF wr] by blast
  have "conn' = conn1" using assms wr by (auto simp: write_to_kafka_def split: res.splits prod.splits)
  then show "k_stats conn' = k_stats conn" "k_config conn' = k_config conn"
    using writer_spec(2,3) [OF wr] by simp_all
  show "(r = Ret () \<and> (\<exists>pre h pm. quiet pre \<and> w' = w @ pre @ [(SendMessage h pm, Err None)])) \<or>
    (r \<noteq> Ret () \<and> (\<exists>pre. quiet pre \<and> w' = w @ pre))"
  proof (cases "\<exists>q l. p = Ret q \<and> hs = Ret l")
    case False
    then have "r \<noteq> Ret ()" "w' = w1" using assms wr
      by (cases p; cases hs; auto simp: write_to_kafka_def)+
    then show ?thesis using pre by blast
  next
    case True
    then obtain q l where q: "p = Ret q" "hs = Ret l" by blast
    then have run: "Write env (x_cd x) q \<lparr>m_Topic = [], m_Partition = 0, m_Offset = 0, m_Key = key,
        m_Value = data, m_Headers = l\<rparr> (cache, w1) = ((cache', w'), r)"
      using assms wr by (auto simp: write_to_kafka_def split: prod.splits)
    show ?thesis
    proof (cases "r = Ret ()")
      case True
      then show ?thesis using prod.write_success run pre by fastforce
    next
      case False
      then show ?thesis using prod.write_failure [OF run] pre by fastforce
    qed
  qed
qed

lemma stan_acks:
  assumes "stan_callback env x bc t m (c, k, w) = ((c', k', w'), r)"
  shows "(\<exists>pre h pm a. quiet pre \<and> w' = w @ pre @ [(SendMessage h pm, Err None), (StanAck m, a)]) \<or>
    (\<exists>pre. quiet pre \<and> w' = w @ pre)"
proof -
  obtain c1 k1 w1 r1 where run: "write_to_kafka env x bc (StanMsg m)
      (calculateKey x c (cc_Channel (k_config c)) (cc_DurableName (k_config c))) (sm_Data m) (Ret []) (c, k, w) =
      ((c1, k1, w1), r1)" by (metis surj_pair)
  note W = write_to_kafka_spec(1) [OF run]
  show ?thesis
  proof (cases r1)
    case (Ret u)
    then have "set_stats (AddRequest (x_fl x) (msg_len (sm_Data m)) (msg_len (sm_Data m)) t (k_stats c1))
        (c1, k1, fst (call_err env (StanAck m) w1)) = ((c', k', w'), r)"
      using assms run by (simp add: stan_callback_def call_err_def Let_def)
    from set_stats_spec(1) [OF this] have "w' = w1 @ [(StanAck m, Err (env_err env w1 (StanAck m)))]"
      by (simp add: call_err_def Let_def)
    then show ?thesis using W Ret by fastforce
  next
    case (Fail e)
    then have "w' = w1" using assms run by (auto simp: stan_callback_def set_stats_def)
    then show ?thesis using W Fail by blast
  next
    case (Panic p)
    then have "w' = w1" using assms run by (auto simp: stan_callback_def)
    then show ?thesis using W Panic by blast
  qed
qed

definition js_ack :: "NATSKafkaBridgeConfig \<Rightarrow> nats_msg \<Rightarrow> request" where
  "js_ack bc m = (if js_EnableAckSync (b_JetStream bc) then NatsAckSync m else NatsAck m)"

lemma jetstream_acks:
  assumes "jetstream_callback env x bc t m (c, k, w) = ((c', k', w'), r)"
  shows "(\<exists>pre h pm a. quiet pre \<and> w' = w @ pre @ [(SendMessage h pm, Err None), (js_ack bc m, a)]) \<or>
    (\<exists>pre. quiet pre \<and> w' = w @ pre)"
proof -
  obtain c1 k1 w1 r1 where run: "write_to_kafka env x bc (NatsMsg m)
      (calculateKey x c (cc_Subject (k_config c)) (cc_DurableName (k_config c))) (nm_Data m)
      (convertFromNatsToKafkaHeadersWithMetaData x m) (c, k, w) = ((c1, k1, w1), r1)" by (metis surj_pair)
  note W = write_to_kafka_spec(1) [OF run]
  show ?thesis
  proof (cases r1)
    case (Ret u)
    have "w' = w1 @ [(js_ack bc m, Err (env_err env w1 (js_ack bc m)))]"
    proof (cases "x_Metadata x m")
      case (Inl e)
      then show ?thesis using assms run Ret by (simp add: jetstream_callback_def js_ack_def call_err_def Let_def)
    next
      case (Inr md)
      then have "set_stats (AddStreamRequest (x_fl x) (msg_len (nm_Data m)) (msg_len (nm_Data m)) t
          (md_NumPending md) (k_stats c1)) (c1, k1, w1 @ [(js_ack bc m, Err (env_err env w1 (js_ack bc m)))]) =
          ((c', k', w'), r)"
        using assms run Ret by (simp add: jetstream_callback_def js_ack_def call_err_def Let_def)
      then show ?thesis by (rule set_stats_spec(1))
    qed
    then show ?thesis using W Ret by fastforce
  next
    case (Fail e)
    then have "w' = w1" using assms run by (auto simp: jetstream_callback_def set_stats_def)
    then show ?thesis using W Fail by blast
  next
    case (Panic p)
    then have "w' = w1" using assms run by (auto simp: jetstream_callback_def)
    then show ?thesis using W Panic by blast
  qed
qed

interpretation stan_cb: acking_callback "stan_callback env x bc t" StanAck for env x bc t
  by unfold_locales (use stan_acks in \<open>simp_all\<close>)

interpretation js_cb: acking_callback "jetstream_callback env x bc t" "js_ack bc" for env x bc t
  by unfold_locales (rule jetstream_acks, assumption, simp add: js_ack_def)

section \<open>Handlers that publish\<close>

text \<open>
  The contract of a message handler of a Kafka connector: it reports success exactly when it made one
  publication of that message and the client accepted it, and does nothing else. A publication is of the
  message when it goes out on the connector's own connection, to the destination of the message, with
  its value, and its headers where the protocol has headers.
\<close>

definition same_content :: "('n, 'j, 'm) ext \<Rightarrow> BridgeConnector \<Rightarrow> Message \<Rightarrow> nats_msg \<Rightarrow> bool" where
  "same_content x conn msg m \<longleftrightarrow> nm_Subject m = dest conn (KafkaMsg msg) \<and> nm_Data m = m_Value msg \<and>
     nm_Header m = convertFromKafkaToNatsHeaders x (m_Headers msg)"

fun publication_of :: "('n, 'j, 'm) ext \<Rightarrow> conns \<Rightarrow> BridgeConnector \<Rightarrow> Message \<Rightarrow> request \<Rightarrow> bool" where
  "publication_of x b conn msg (NatsPublish h m) \<longleftrightarrow>
     NATSFor (cc_NATSConnection (k_config conn)) b = Some h \<and> same_content x conn msg m"
| "publication_of x b conn msg (JsPublish h m) \<longleftrightarrow>
     JetStreamFor (cc_NATSConnection (k_config conn)) b = Some h \<and> same_content x conn msg m"
| "publication_of x b conn msg (StanPublish h s d) \<longleftrightarrow>
     Stan b = Some h \<and> s = dest conn (KafkaMsg msg) \<and> d = m_Value msg"
| "publication_of x b conn msg _ \<longleftrightarrow> False"

locale publisher =
  fixes handler :: "('n, 'j, 'm) handler"
  assumes publishes: "handler env x b conn msg w = (w', r) \<Longrightarrow>
      (\<exists>q. publication_of x b conn msg q \<and> r = Ret () \<and> w' = w @ [(q, Err None)]) \<or>
      (r \<noteq> Ret () \<and> (w' = w \<or> (\<exists>q e. publication_of x b conn msg q \<and> w' = w @ [(q, Err (Some e))])))"
begin

text \<open>The listener commits a message only right after it was published, and only in group mode.\<close>

lemma commit_after_publish:
  assumes "listener_callback env x handler b target t msg (conn, cache, w) = ((conn', cache', w'), r)"
  shows "(\<exists>q. publication_of x b conn msg q \<and> w' = w @ [(q, Err None)]) \<or>
    (\<exists>q h a. publication_of x b conn msg q \<and> cc_GroupID (k_config conn) \<noteq> [] \<and>
        w' = w @ [(q, Err None), (CommitMessage h (commit_message msg), a)]) \<or>
    w' = w \<or> (\<exists>q e. publication_of x b conn msg q \<and> w' = w @ [(q, Err (Some e))])"
proof -
  obtain w1 r1 where h: "handler env x b conn msg w = (w1, r1)" by (metis surj_pair)
  show ?thesis
  proof (cases "r1 = Ret ()")
    case False
    then have "w' = w1" using assms h by (cases r1) (auto simp: listener_callback_def Let_def)
    then show ?thesis using publishes [OF h] False by blast
  next
    case True
    then obtain q where q: "publication_of x b conn msg q" "w1 = w @ [(q, Err None)]" using publishes [OF h] by blast
    obtain w2 e where c: "Commit env target msg w1 = (w2, e)" by (metis surj_pair)
    then have "w2 = w1 \<or> (\<exists>h a. w2 = w1 @ [(CommitMessage h (commit_message msg), a)])"
      by (auto simp: Commit_def call_err_def Let_def split: if_splits)
    moreover have "w' = (if cc_GroupID (k_config conn) \<noteq> [] then w2 else w1)"
      using assms h True c
      by (auto simp: listener_callback_def Let_def set_stats_def split: res.splits prod.splits option.splits if_splits)
    ultimately show ?thesis using q by auto
  qed
qed

end

lemma err_res_call:
  "err_res (call_err env q w) = (w', r) \<Longrightarrow>
    (r = Ret () \<and> w' = w @ [(q, Err None)]) \<or> (\<exists>e. r = Fail e \<and> w' = w @ [(q, Err (Some e))])"
  by (auto simp: err_res_def call_err_def Let_def split: option.splits)

interpretation js_pub: publisher jetStreamMessageHandler
  by unfold_locales (force simp: jetStreamMessageHandler_def nats_message_def same_content_def Let_def dest: err_res_call split: option.splits)

interpretation nats_pub: publisher natsMessageHandler
  by unfold_locales (force simp: natsMessageHandler_def nats_message_def same_content_def Let_def dest: err_res_call split: option.splits)

interpretation stan_pub: publisher stanMessageHandler
  by unfold_locales (force simp: stanMessageHandler_def Let_def dest: err_res_call split: option.splits)

section \<open>Statistics of the callbacks\<close>

abbreviation msg_in :: "BridgeConnector \<Rightarrow> int64" where "msg_in c \<equiv> st_MessagesIn (h_stats (k_stats c))"
abbreviation msg_out :: "BridgeConnector \<Rightarrow> int64" where "msg_out c \<equiv> st_MessagesOut (h_stats (k_stats c))"

text \<open>\<open>counted_once c w c' w'\<close>: one message more in, and one more out exactly when Kafka accepted it.\<close>

definition counted_once :: "BridgeConnector \<Rightarrow> history \<Rightarrow> BridgeConnector \<Rightarrow> history \<Rightarrow> bool" where
  "counted_once c w c' w' \<longleftrightarrow>
     msg_in c' = msg_in c + 1 \<and> sends w' \<le> sends w + 1 \<and>
     msg_out c' = msg_out c + (if sends w' = sends w + 1 then 1 else 0) \<and> sends w \<le> sends w'"

lemma request_counts:
  assumes "set_stats (AddRequest fl i o' t (k_stats c1)) (c1, k, w) = ((c', k', w'), Ret ())"
  shows "msg_in c' = msg_in c1 + 1 \<and> msg_out c' = msg_out c1 + 1 \<and> w' = w"
proof -
  obtain h where "apply_op fl (OpRequest i o' t) (k_stats c1) = Ret h" "c' = c1\<lparr>k_stats := h\<rparr>" "w' = w"
    using assms by (auto simp: set_stats_def split: res.splits)
  then show ?thesis using apply_op_counts(1,2) by fastforce
qed

lemma stream_request_counts:
  assumes "set_stats (AddStreamRequest fl i o' t n (k_stats c1)) (c1, k, w) = ((c', k', w'), Ret ())"
  shows "msg_in c' = msg_in c1 + 1 \<and> msg_out c' = msg_out c1 + 1 \<and> w' = w"
proof -
  obtain h where "apply_op fl (OpStreamRequest i o' t n) (k_stats c1) = Ret h" "c' = c1\<lparr>k_stats := h\<rparr>" "w' = w"
    using assms by (auto simp: set_stats_def split: res.splits)
  then show ?thesis using apply_op_counts(1,2) by fastforce
qed

lemma received_counts:
  assumes "set_stats (Ret (AddMessageIn l (k_stats c1))) (c1, k, w) = ((c', k', w'), r)"
  shows "msg_in c' = msg_in c1 + 1 \<and> msg_out c' = msg_out c1 \<and> w' = w"
  using assms by (auto simp: set_stats_def AddMessageIn_def Let_def)

lemma write_to_kafka_sends:
  assumes "write_to_kafka env x bc msg key data hs (c, k, w) = ((c1, k1, w1), r)"
  shows "sends w1 = sends w + (if r = Ret () then 1 else 0)"
  using write_to_kafka_spec(1) [OF assms] by (auto simp: quiet_def accepted_def)

lemma nats_counted:
  assumes "nats_callback env x bc t m (c, k, w) = ((c', k', w'), Ret ())"
  shows "counted_once c w c' w'"
proof -
  obtain c1 k1 w1 r1 where run: "write_to_kafka env x bc (NatsMsg m) (calculateKey x c (nm_Subject m) (nm_Reply m))
      (nm_Data m) (convertFromNatsToKafkaHeaders x (nm_Header m)) (c, k, w) = ((c1, k1, w1), r1)" by (metis surj_pair)
  note S = write_to_kafka_spec(2) [OF run] write_to_kafka_sends [OF run]
  show ?thesis
  proof (cases r1)
    case (Ret u)
    then have "set_stats (AddRequest (x_fl x) (msg_len (nm_Data m)) (msg_len (nm_Data m)) t (k_stats c1)) (c1, k1, w1) =
        ((c', k', w'), Ret ())" using assms run by (simp add: nats_callback_def Let_def)
    from request_counts [OF this] show ?thesis using S Ret by (simp add: counted_once_def)
  next
    case (Fail e)
    then have "set_stats (Ret (AddMessageIn (msg_len (nm_Data m)) (k_stats c1))) (c1, k1, w1) = ((c', k', w'), Ret ())"
      using assms run by (simp add: nats_callback_def)
    from received_counts [OF this] show ?thesis using S Fail by (simp add: counted_once_def)
  next
    case (Panic p)
    then show ?thesis using assms run by (simp add: nats_callback_def)
  qed
qed

lemma stan_counted:
  assumes "stan_callback env x bc t m (c, k, w) = ((c', k', w'), Ret ())"
  shows "counted_once c w c' w'"
proof -
  obtain c1 k1 w1 r1 where run: "write_to_kafka env x bc (StanMsg m)
      (calculateKey x c (cc_Channel (k_config c)) (cc_DurableName (k_config c))) (sm_Data m) (Ret []) (c, k, w) =
      ((c1, k1, w1), r1)" by (metis surj_pair)
  note S = write_to_kafka_spec(2) [OF run] write_to_kafka_sends [OF run]
  show ?thesis
  proof (cases r1)
    case (Ret u)
    then have "set_stats (AddRequest (x_fl x) (msg_len (sm_Data m)) (msg_len (sm_Data m)) t (k_stats c1))
        (c1, k1, w1 @ [(StanAck m, Err (env_err env w1 (StanAck m)))]) = ((c', k', w'), Ret ())"
      using assms run by (simp add: stan_callback_def call_err_def Let_def)
    from request_counts [OF this] show ?thesis using S Ret by (simp add: counted_once_def accepted_def)
  next
    case (Fail e)
    then have "set_stats (Ret (AddMessageIn (msg_len (sm_Data m)) (k_stats c1))) (c1, k1, w1) = ((c', k', w'), Ret ())"
      using assms run by (simp add: stan_callback_def)
    from received_counts [OF this] show ?thesis using S Fail by (simp add: counted_once_def)
  next
    case (Panic p)
    then show ?thesis using assms run by (simp add: stan_callback_def)
  qed
qed

lemma jetstream_counted:
  assumes "jetstream_callback env x bc t m (c, k, w) = ((c', k', w'), Ret ())"
  shows "counted_once c w c' w'"
proof -
  obtain c1 k1 w1 r1 where run: "write_to_kafka env x bc (NatsMsg m)
      (calculateKey x c (cc_Subject (k_config c)) (cc_DurableName (k_config c))) (nm_Data m)
      (convertFromNatsToKafkaHeadersWithMetaData x m) (c, k, w) = ((c1, k1, w1), r1)" by (metis surj_pair)
  note S = write_to_kafka_spec(2) [OF run] write_to_kafka_sends [OF run]
  show ?thesis
  proof (cases r1)
    case (Ret u)
    then obtain md :: msg_metadata where "set_stats (AddStreamRequest (x_fl x) (msg_len (nm_Data m)) (msg_len (nm_Data m)) t
          (md_NumPending md) (k_stats c1)) (c1, k1, w1 @ [(js_ack bc m, Err (env_err env w1 (js_ack bc m)))]) =
          ((c', k', w'), Ret ())"
      using assms run by (auto simp: jetstream_callback_def js_ack_def [symmetric] call_err_def Let_def split: sum.splits)
    from stream_request_counts [OF this] show ?thesis using S Ret by (simp add: counted_once_def accepted_def js_ack_def)
  next
    case (Fail e)
    then have "set_stats (Ret (AddMessageIn (msg_len (nm_Data m)) (k_stats c1))) (c1, k1, w1) = ((c', k', w'), Ret ())"
      using assms run by (simp add: jetstream_callback_def)
    from received_counts [OF this] show ?thesis using S Fail by (simp add: counted_once_def)
  next
    case (Panic p)
    then show ?thesis using assms run by (simp add: jetstream_callback_def)
  qed
qed

section \<open>Headers\<close>

text \<open>The documented behaviour of the NATS client's \<^verbatim>\<open>Header.Add\<close>: append to the values of the key.\<close>

definition add_value :: "nats_header \<Rightarrow> string \<Rightarrow> string \<Rightarrow> nats_header" where
  "add_value h k v = map_put k (Some ((case map_of h k of Some (Some vs) \<Rightarrow> vs | _ \<Rightarrow> []) @ [v])) h"

definition plain_header :: "RecordHeader \<Rightarrow> string \<times> string list option" where
  "plain_header h = (bytes_str (rh_Key h), map_option (\<lambda>v. [bytes_str v]) (rh_Value h))"

lemma put_fresh: "k \<notin> fst ` set m \<Longrightarrow> map_put k v m = m @ [(k, v)]"
  by (induction m) auto

lemma to_nats_headers:
  assumes "x_Header_Add x = add_value" and "distinct (map rh_Key hs)" and "\<forall>h \<in> set hs. rh_Value h \<noteq> None"
    and "\<forall>h \<in> set hs. bytes_str (rh_Key h) \<notin> keys acc"
  shows "fold (\<lambda>kHdr nHdrs. case rh_Value kHdr of None \<Rightarrow> nHdrs
      | Some v \<Rightarrow> x_Header_Add x nHdrs (bytes_str (rh_Key kHdr)) (bytes_str v)) hs acc = acc @ map plain_header hs"
  using assms
proof (induction hs arbitrary: acc)
  case (Cons h hs)
  obtain v where v: "rh_Value h = Some v" using Cons.prems(3) by auto
  have fresh: "bytes_str (rh_Key h) \<notin> fst ` set acc" using Cons.prems(4) by (auto simp: keys_def)
  then have "map_of acc (bytes_str (rh_Key h)) = None" by (simp add: map_of_eq_None_iff)
  then have add: "add_value acc (bytes_str (rh_Key h)) (bytes_str v) = acc @ [plain_header h]"
    using fresh v by (simp add: add_value_def put_fresh plain_header_def)
  have "keys (acc @ [plain_header h]) = insert (bytes_str (rh_Key h)) (keys acc)" by (simp add: keys_def plain_header_def)
  then have "\<forall>h' \<in> set hs. bytes_str (rh_Key h') \<notin> keys (acc @ [plain_header h])"
    using Cons.prems(2,4) by (auto dest!: sym [of "rh_Key _" "rh_Key h"])
  then show ?case using Cons.IH [of "acc @ [plain_header h]"] Cons.prems v add by simp
qed simp

lemma kafka_headers_plain:
  "\<forall>h \<in> set hs. rh_Value h \<noteq> None \<Longrightarrow> kafka_headers (map plain_header hs) = Ret hs"
proof (induction hs)
  case (Cons h hs)
  then obtain v where "rh_Value h = Some v" by auto
  then show ?case using Cons by (cases h) (simp add: plain_header_def)
qed simp

lemma kafka_headers_perm:
  assumes "kafka_headers xs = Ret hs" and "mset ys = mset xs"
  shows "\<exists>hs'. kafka_headers ys = Ret hs' \<and> mset hs' = mset hs"
proof -
  let ?f = "\<lambda>(k, v). \<lparr>rh_Key = str_bytes k, rh_Value = map_option (\<lambda>vs. str_bytes (hd vs)) v\<rparr>"
  have iff: "kafka_headers zs = Ret us \<longleftrightarrow> Some [] \<notin> snd ` set zs \<and> us = map ?f zs" for zs us
    by (induction zs arbitrary: us rule: kafka_headers.induct)
      (auto simp: go_simps split: option.splits list.splits)
  have "set ys = set xs" using assms(2) by (rule mset_eq_setD)
  then have "kafka_headers ys = Ret (map ?f ys)" using assms(1) iff by simp
  moreover have "mset (map ?f ys) = mset hs" using assms iff by (simp add: mset_map)
  ultimately show ?thesis by blast
qed

section \<open>A concrete connector\<close>

definition demo_ext :: "(bytes, bytes, bytes) ext" where
  "demo_ext = \<lparr>x_cd = demo_cd, x_NewConfig = plain_config, x_io = no_files, x_Sum256 = (\<lambda>b. replicate 32 0),
     x_regexp = (\<lambda>_. Inr (\<lambda>s. [s])), x_template = (\<lambda>_ t. Inr (\<lambda>_. Inr t)), x_Header_Add = add_value,
     x_Metadata = (\<lambda>_. Inr \<lparr>md_NumPending = 0, md_Timestamp = [], md_StreamSeq = 1, md_ConsumerSeq = 1\<rparr>),
     x_header_order = (\<lambda>m. m), x_meta_order = (\<lambda>m. m), x_writer_order = (\<lambda>m. m), x_fl = fl64\<rparr>"

definition demo_conn :: BridgeConnector where
  "demo_conn = \<lparr>k_config = zero_ConnectorConfig\<lparr>cc_Topic := ''t'', cc_GroupID := ''g''\<rparr>,
     k_stats = NewConnectorStatsHolder ''n'' ''i'', k_writers = [], k_dest = (\<lambda>_. Inr ''t'')\<rparr>"

definition demo_nats_msg :: nats_msg where
  "demo_nats_msg = \<lparr>nm_Subject = ''s'', nm_Reply = [], nm_Header = [], nm_Data = [1]\<rparr>"

definition demo_stan_msg :: stan_msg where
  "demo_stan_msg = \<lparr>sm_Subject = ''s'', sm_Sequence = 1, sm_Data = [1]\<rparr>"

section \<open>Properties\<close>

text \<open>C1. A streaming or JetStream message is acknowledged only after Kafka has accepted it: handling one
  message either extends the history by an accepted send directly followed by the acknowledgement of
  that message, or by nothing that was accepted or acknowledged, whatever the libraries answer.\<close>

theorem ack_follows_accepted_write:
  "(stan_callback env x bc t sm (c, k, w) = ((c', k', w'), r) \<longrightarrow>
      (\<exists>pre h pm a. quiet pre \<and> w' = w @ pre @ [(SendMessage h pm, Err None), (StanAck sm, a)]) \<or>
      (\<exists>pre. quiet pre \<and> w' = w @ pre)) \<and>
   (jetstream_callback env x bc t nm (c, k, w) = ((c', k', w'), r) \<longrightarrow>
      (\<exists>pre h pm a. quiet pre \<and> w' = w @ pre @ [(SendMessage h pm, Err None), (js_ack bc nm, a)]) \<or>
      (\<exists>pre. quiet pre \<and> w' = w @ pre))"
  by (intro conjI impI) (erule stan_acks, erule jetstream_acks)

theorem ack_follows_accepted_write_witness:
  "\<exists>c' k' w' r. stan_callback calm_env demo_ext DefaultBridgeConfig 5 demo_stan_msg (demo_conn, [], []) = ((c', k', w'), r) \<and>
    ((\<exists>pre h pm a. quiet pre \<and> w' = [] @ pre @ [(SendMessage h pm, Err None), (StanAck demo_stan_msg, a)]) \<or>
     (\<exists>pre. quiet pre \<and> w' = [] @ pre))"
proof -
  obtain c' k' w' r where run: "stan_callback calm_env demo_ext DefaultBridgeConfig 5 demo_stan_msg (demo_conn, [], []) =
      ((c', k', w'), r)" by (metis surj_pair)
  from ack_follows_accepted_write [THEN conjunct1, THEN mp, OF run] run show ?thesis by (intro exI conjI)
qed

text \<open>Over any sequence of messages, streaming and JetStream connectors acknowledge exactly as many
  messages as Kafka has accepted.\<close>

theorem acks_equal_deliveries:
  "(run_callback (stan_callback env x bc t) sms (c, k, w) = ((c', k', w'), r) \<longrightarrow>
      acks w' + sends w = acks w + sends w') \<and>
   (run_callback (jetstream_callback env x bc t) nms (c, k, w) = ((c', k', w'), r) \<longrightarrow>
      acks w' + sends w = acks w + sends w')"
  by (intro conjI impI) (erule stan_cb.acks_match_sends, erule js_cb.acks_match_sends)

theorem acks_equal_deliveries_witness:
  "\<exists>c' k' w' r. run_callback (jetstream_callback calm_env demo_ext DefaultBridgeConfig 5) [demo_nats_msg, demo_nats_msg]
      (demo_conn, [], []) = ((c', k', w'), r) \<and> acks w' + sends [] = acks [] + sends w'"
proof -
  obtain c' k' w' r where run: "run_callback (jetstream_callback calm_env demo_ext DefaultBridgeConfig 5)
      [demo_nats_msg, demo_nats_msg] (demo_conn, [], []) = ((c', k', w'), r)" by (metis surj_pair)
  from acks_equal_deliveries [THEN conjunct2, THEN mp, OF run] run show ?thesis by (intro exI conjI)
qed

text \<open>C4. A Kafka offset is committed only for a published message: when the listener of a Kafka connector
  (to NATS, to JetStream or to streaming) handles a message and anything was committed, the connector
  is in a consumer group and what it did was publish that message on its own connection, to the
  message's destination and with its value (and headers, except to streaming), with success, and then
  commit that very message.\<close>

theorem commit_follows_publish:
  assumes "handler = natsMessageHandler \<or> handler = jetStreamMessageHandler \<or> handler = stanMessageHandler"
    and "listener_callback env x handler b target t msg (conn, cache, w) = ((conn', cache', w @ new), r)"
    and "(CommitMessage h m, a) \<in> set new"
  shows "\<exists>q h' a'. publication_of x b conn msg q \<and> cc_GroupID (k_config conn) \<noteq> [] \<and>
    new = [(q, Err None), (CommitMessage h' (commit_message msg), a')]"
proof -
  have no_commit: "\<not> publication_of x b conn msg (CommitMessage h m)" by simp
  have "(\<exists>q. publication_of x b conn msg q \<and> w @ new = w @ [(q, Err None)]) \<or>
    (\<exists>q h a. publication_of x b conn msg q \<and> cc_GroupID (k_config conn) \<noteq> [] \<and>
        w @ new = w @ [(q, Err None), (CommitMessage h (commit_message msg), a)]) \<or>
    w @ new = w \<or> (\<exists>q e. publication_of x b conn msg q \<and> w @ new = w @ [(q, Err (Some e))])"
    using assms(1,2) nats_pub.commit_after_publish js_pub.commit_after_publish stan_pub.commit_after_publish by metis
  then show ?thesis using assms(3) no_commit by auto
qed

definition demo_conns :: conns where
  "demo_conns = \<lparr>bn_cells = [([], \<lparr>cell_config = zero_NATSConfig, cell_nc = Some 1, cell_js = Some 2\<rparr>)], bn_stan = Some 3\<rparr>"

definition demo_message :: Message where
  "demo_message = \<lparr>m_Topic = ''t'', m_Partition = 0, m_Offset = 4, m_Key = [], m_Value = [1], m_Headers = []\<rparr>"

lemmas demo_connector_defs = demo_ext_def demo_conn_def demo_conns_def demo_message_def demo_consumer_def
  demo_nats_msg_def zero_config_defs

theorem commit_follows_publish_witness:
  "\<exists>new c' k' r. listener_callback calm_env demo_ext natsMessageHandler demo_conns demo_consumer 5 demo_message
      (demo_conn, [], []) = ((c', k', [] @ new), r) \<and>
    (\<exists>q h' a'. publication_of demo_ext demo_conns demo_conn demo_message q \<and> cc_GroupID (k_config demo_conn) \<noteq> [] \<and>
      new = [(q, Err None), (CommitMessage h' (commit_message demo_message), a')])"
proof -
  obtain c' k' new r where run: "listener_callback calm_env demo_ext natsMessageHandler demo_conns demo_consumer 5
      demo_message (demo_conn, [], []) = ((c', k', [] @ new), r)" by (metis surj_pair append_Nil)
  have "(CommitMessage 0 (commit_message demo_message), Err None) \<in> set new"
    using run by (auto simp: listener_callback_def natsMessageHandler_def NATSFor_def Commit_def err_res_def
        set_stats_def demo_conn_def demo_conns_def demo_consumer_def zero_config_defs Let_def split: res.splits)
  from conjI [OF run commit_follows_publish [OF disjI1 [OF refl] run this]] show ?thesis by (intro exI)
qed

text \<open>Every message from NATS is counted once: each of the three callbacks, when it returns, has counted one
  message in, and one message out exactly when Kafka accepted the message.\<close>

theorem messages_counted_once:
  "(nats_callback env x bc t nm (c, k, w) = ((c', k', w'), Ret ()) \<longrightarrow> counted_once c w c' w') \<and>
   (stan_callback env x bc t sm (c, k, w) = ((c', k', w'), Ret ()) \<longrightarrow> counted_once c w c' w') \<and>
   (jetstream_callback env x bc t nm (c, k, w) = ((c', k', w'), Ret ()) \<longrightarrow> counted_once c w c' w')"
  by (intro conjI impI) (erule nats_counted, erule stan_counted, erule jetstream_counted)

theorem messages_counted_once_witness:
  "\<exists>c' k' w'. nats_callback calm_env demo_ext DefaultBridgeConfig 5 demo_nats_msg (demo_conn, [], []) =
      ((c', k', w'), Ret ()) \<and> counted_once demo_conn [] c' w'"
proof -
  have h: "\<exists>h. AddRequest fl64 1 1 5 (k_stats demo_conn) = Ret h"
    using b64.apply_op_returns [of "OpRequest 1 1 5" "k_stats demo_conn"]
    by (auto simp: demo_conn_def)
  obtain c' k' w' where run: "nats_callback calm_env demo_ext DefaultBridgeConfig 5 demo_nats_msg (demo_conn, [], []) =
      ((c', k', w'), Ret ())"
    using h by (auto simp: nats_callback_def write_to_kafka_def writer_def NewProducer_def producer_config_def
        producer_tls_def producer_sasl_def MakeTLSConfig_def sarama_Write_def convertFromNatsToKafkaHeaders_def
        set_stats_def msg_len_def demo_connector_defs plain_config_def no_files_def Let_def)
  from messages_counted_once [THEN conjunct1, THEN mp, OF run] run show ?thesis by (intro exI conjI)
qed

text \<open>C28. Kafka headers survive a trip through NATS: headers with distinct keys and non-nil values, converted
  to NATS headers and back, are the same headers up to order, whatever order Go ranges over them.\<close>

theorem header_roundtrip:
  assumes "x_Header_Add x = add_value" and "map_order (x_header_order x)"
    and "distinct (map rh_Key hs)" and "\<forall>h \<in> set hs. rh_Value h \<noteq> None"
  shows "\<exists>hs'. convertFromNatsToKafkaHeaders x (convertFromKafkaToNatsHeaders x hs) = Ret hs' \<and> mset hs' = mset hs"
proof (cases "hs = []")
  case False
  have to: "convertFromKafkaToNatsHeaders x hs = map plain_header hs"
    using to_nats_headers [of x hs "[]"] assms(1,3,4) by (simp add: convertFromKafkaToNatsHeaders_def)
  show ?thesis
    using kafka_headers_perm [OF kafka_headers_plain [OF assms(4)] map_order.order_perm [OF assms(2)]] False
    by (simp add: convertFromNatsToKafkaHeaders_def to)
qed (simp add: convertFromNatsToKafkaHeaders_def convertFromKafkaToNatsHeaders_def)

theorem header_roundtrip_witness:
  "\<exists>hs'. convertFromNatsToKafkaHeaders demo_ext (convertFromKafkaToNatsHeaders demo_ext
      [\<lparr>rh_Key = [1], rh_Value = Some [2]\<rparr>, \<lparr>rh_Key = [3], rh_Value = Some []\<rparr>]) = Ret hs' \<and>
    mset hs' = mset [\<lparr>rh_Key = [1], rh_Value = Some [2]\<rparr>, \<lparr>rh_Key = [3], rh_Value = Some []\<rparr>]"
  by (rule header_roundtrip) (simp_all add: demo_ext_def insertion_order.map_order_axioms)

text \<open>C29. Messages are written to the topics their destination template names, as long as the topics the connector
  writes to have different six-character hashes: when a connector with an empty cache handles a
  sequence of messages, the writer chosen for each has the topic of that message, or is the one that
  reports that no producer could be made; and all messages of one topic get the same writer.\<close>

theorem writer_reaches_topic:
  assumes "k_writers conn = []" and "inj_on (getHash x) (dest conn ` set msgs)"
    and "choose_writers env x bc msgs conn w = ((conn', w'), rs)"
  shows "length rs = length msgs \<and> (\<forall>i < length msgs. \<forall>p. rs ! i = Ret (SaramaProducer p) \<longrightarrow> sp_topic p = dest conn (msgs ! i)) \<and>
    (\<forall>i < length msgs. \<forall>j < length msgs. \<forall>q. i \<le> j \<and> dest conn (msgs ! j) = dest conn (msgs ! i) \<and> rs ! i = Ret q \<longrightarrow> rs ! j = Ret q)"
proof -
  have ok: "writers_for x (dest conn ` set msgs) conn" using assms(1) by (simp add: writers_for_def)
  show ?thesis
    using choose_writers_topics [OF assms(3) ok subset_refl assms(2)] choose_writers_same [OF assms(3)] by blast
qed

definition prefix_digest :: "bytes \<Rightarrow> bytes" where
  "prefix_digest b = take 32 (b @ replicate 32 0)"

definition by_subject :: BridgeConnector where
  "by_subject = demo_conn\<lparr>k_dest := \<lambda>m. case m of NatsMsg nm \<Rightarrow> Inr (nm_Subject nm) | _ \<Rightarrow> Inl (ExtErr ''no subject'')\<rparr>"

lemma demo_writer:
  assumes "map_of (k_writers c) (getHash x (dest c m)) = None" and "k_config c = k_config demo_conn"
    and "x_NewConfig x = plain_config" and "x_io x = no_files"
  shows "\<exists>p w'. writer calm_env x DefaultBridgeConfig m c w =
    ((c\<lparr>k_writers := map_put (getHash x (dest c m)) (SaramaProducer p) (k_writers c)\<rparr>, w'), Ret (SaramaProducer p))"
  using assms by (simp add: writer_def NewProducer_def producer_config_def producer_tls_def producer_sasl_def MakeTLSConfig_def
      demo_conn_def zero_config_defs plain_config_def no_files_def Let_def)

theorem writer_reaches_topic_witness:
  "\<exists>conn' w' p q. choose_writers calm_env (demo_ext\<lparr>x_Sum256 := prefix_digest\<rparr>) DefaultBridgeConfig
      [NatsMsg demo_nats_msg, NatsMsg (demo_nats_msg\<lparr>nm_Subject := ''u''\<rparr>)] by_subject [] =
      ((conn', w'), [Ret (SaramaProducer p), Ret (SaramaProducer q)]) \<and> sp_topic p = ''s'' \<and> sp_topic q = ''u''"
proof -
  define x where "x = demo_ext\<lparr>x_Sum256 := prefix_digest\<rparr>"
  let ?a = "NatsMsg demo_nats_msg" and ?b = "NatsMsg (demo_nats_msg\<lparr>nm_Subject := ''u''\<rparr>)"
  have d: "dest by_subject ?a = ''s''" "dest by_subject ?b = ''u''" by (simp_all add: dest_def by_subject_def demo_nats_msg_def)
  have h: "getHash x ''s'' \<noteq> getHash x ''u''" by (simp add: x_def getHash_def prefix_digest_def str_bytes_def digits_def)
  have c: "k_writers by_subject = []" "k_config by_subject = k_config demo_conn" by (simp_all add: by_subject_def demo_conn_def)
  have e: "x_NewConfig x = plain_config" "x_io x = no_files" by (simp_all add: x_def demo_ext_def)
  obtain p w1 where one: "writer calm_env x DefaultBridgeConfig ?a by_subject [] =
      ((by_subject\<lparr>k_writers := [(getHash x ''s'', SaramaProducer p)]\<rparr>, w1), Ret (SaramaProducer p))" (is "_ = ((?c, w1), _)")
    using demo_writer [of by_subject x ?a "[]"] c d e by auto
  have "dest ?c ?b = ''u''" using d by (simp add: dest_def)
  then obtain q c' w' where two: "writer calm_env x DefaultBridgeConfig ?b ?c w1 = ((c', w'), Ret (SaramaProducer q))"
    using demo_writer [of ?c x ?b w1] c e h by auto
  have run: "choose_writers calm_env x DefaultBridgeConfig [?a, ?b] by_subject [] =
      ((c', w'), [Ret (SaramaProducer p), Ret (SaramaProducer q)])" using one two by simp
  have "inj_on (getHash x) (dest by_subject ` set [?a, ?b])" using d h by simp
  from writer_reaches_topic [OF c(1) this run] have
    t: "\<forall>i < length [?a, ?b]. \<forall>r. [Ret (SaramaProducer p), Ret (SaramaProducer q)] ! i = Ret (SaramaProducer r) \<longrightarrow>
      sp_topic r = dest by_subject ([?a, ?b] ! i)" by (elim conjE)
  have "sp_topic p = ''s''" "sp_topic q = ''u''" using t [rule_format, of 0 p] t [rule_format, of 1 q] d by simp_all
  then show ?thesis using run unfolding x_def by blast
qed

text \<open>C38. The six-character hash is not enough for an open-ended set of topics: whatever the digest function,
  there are two different topics with the same hash, and a connector that first sees a message for
  the first of them writes all messages for the second to the first topic.\<close>

theorem colliding_topics_share_writer:
  "\<exists>t1 t2. t1 \<noteq> t2 \<and> (\<forall>env bc conn conn1 w w1 p msg1 msg2.
      k_writers conn = [] \<and> dest conn msg1 = t1 \<and> dest conn msg2 = t2 \<and>
      writer env x bc msg1 conn w = ((conn1, w1), Ret (SaramaProducer p)) \<longrightarrow>
      writer env x bc msg2 conn1 w1 = ((conn1, w1), Ret (SaramaProducer p)) \<and> sp_topic p = t1)"
proof -
  have "range (getHash x) \<subseteq> {s. set s \<subseteq> set digits \<and> length s \<le> 6}"
  proof
    fix s
    assume "s \<in> range (getHash x)"
    then obtain t where s: "s = getHash x t" by blast
    have "digits ! (n mod 62) \<in> set digits" for n by (rule nth_mem) (simp add: digits_def)
    then show "s \<in> {s. set s \<subseteq> set digits \<and> length s \<le> 6}" by (auto simp: s getHash_def)
  qed
  then have "finite (range (getHash x))" by (rule finite_subset) (rule finite_lists_length_le, simp)
  moreover have "infinite (UNIV :: string set)" by (rule infinite_UNIV_listI)
  ultimately have "\<not> inj (getHash x)" using finite_imageD by blast
  then obtain t1 t2 where t: "t1 \<noteq> t2" "getHash x t1 = getHash x t2" by (auto simp: inj_def)
  have "writer env x bc msg2 conn1 w1 = ((conn1, w1), Ret (SaramaProducer p)) \<and> sp_topic p = t1"
    if "k_writers conn = []" and d: "dest conn msg1 = t1" "dest conn msg2 = t2"
      and run: "writer env x bc msg1 conn w = ((conn1, w1), Ret (SaramaProducer p))"
    for env bc conn conn1 w w1 p msg1 msg2
  proof -
    have ok: "writers_ok x conn" using that(1) by (simp add: writers_ok_def)
    have "dest conn1 msg2 = t2" using writer_spec(4) [OF run] d(2) by (simp add: dest_def)
    then have "map_of (k_writers conn1) (getHash x (dest conn1 msg2)) = Some (SaramaProducer p)"
      using writer_ok(3) [OF run ok] d(1) t(2) by simp
    moreover have "sp_topic p = t1" using run that(1) d(1)
      by (auto simp: writer_def Let_def dest!: NewProducer_topic split: prod.splits res.splits)
    ultimately show ?thesis using writer_cached by blast
  qed
  then show ?thesis using t(1) by blast
qed

theorem colliding_topics_share_writer_witness:
  "\<exists>t1 t2. t1 \<noteq> t2 \<and> (\<forall>env bc conn conn1 w w1 p msg1 msg2.
      k_writers conn = [] \<and> dest conn msg1 = t1 \<and> dest conn msg2 = t2 \<and>
      writer env demo_ext bc msg1 conn w = ((conn1, w1), Ret (SaramaProducer p)) \<longrightarrow>
      writer env demo_ext bc msg2 conn1 w1 = ((conn1, w1), Ret (SaramaProducer p)) \<and> sp_topic p = t1)"
  by (rule colliding_topics_share_writer)

text \<open>A producer that could not be made is not retried: once creating the producer for a topic has
  failed, every later message for that topic fails with the same error and without contacting the
  broker, until the connector's writers are closed.\<close>

theorem errored_writer_sticks:
  assumes "writer env x bc msg conn w = ((conn', w'), Ret (ErroredProducer e))" and "dest conn' msg2 = dest conn msg"
  shows "write_to_kafka env x bc msg2 key data (Ret hs) (conn', cache, w2) = ((conn', cache, w2), Fail e)"
proof -
  have "map_of (k_writers conn') (getHash x (dest conn msg)) = Some (ErroredProducer e)"
    using assms(1) by (auto simp: writer_def Let_def update_conv' split: option.splits prod.splits res.splits)
  then have "writer env x bc msg2 conn' w2 = ((conn', w2), Ret (ErroredProducer e))"
    using assms(2) writer_cached [of conn' x msg2] by simp
  then show ?thesis by (simp add: write_to_kafka_def errored_Write_def)
qed

definition down_env :: env where
  "down_env = calm_env\<lparr>env_handle := \<lambda>_ _. Inl (ExtErr ''no broker'')\<rparr>"

theorem errored_writer_sticks_witness:
  "\<exists>conn' w' e. writer down_env demo_ext DefaultBridgeConfig (NatsMsg demo_nats_msg) demo_conn [] =
      ((conn', w'), Ret (ErroredProducer e)) \<and>
    write_to_kafka down_env demo_ext DefaultBridgeConfig (NatsMsg demo_nats_msg) [] [1] (Ret []) (conn', [], w') =
      ((conn', [], w'), Fail e)"
proof -
  obtain conn' w' e where run: "writer down_env demo_ext DefaultBridgeConfig (NatsMsg demo_nats_msg) demo_conn [] =
      ((conn', w'), Ret (ErroredProducer e))"
    by (auto simp: writer_def NewProducer_def producer_config_def producer_tls_def producer_sasl_def MakeTLSConfig_def
        demo_connector_defs plain_config_def no_files_def down_env_def calm_env_def call_handle_def Let_def)
  have "dest conn' (NatsMsg demo_nats_msg) = dest demo_conn (NatsMsg demo_nats_msg)"
    using writer_spec(4) [OF run] by (simp add: dest_def)
  from conjI [OF run errored_writer_sticks [OF run this]] show ?thesis by (intro exI)
qed

text \<open>Losing the streaming connection can crash the bridge: a Kafka record that reaches the listener of a
  connector to streaming while the bridge has no streaming connection makes it panic, where the
  handlers for NATS and JetStream return an error.\<close>

theorem lost_stan_panics:
  assumes "Stan b = None" and "\<not> co_schemaRegistryOn target"
  shows "listener_turn env x stanMessageHandler b target cancelled done t (Arrived (Some cmsg)) (conn, cache, w) =
      ((conn, cache, w), Panic NilDeref)"
  using assms by (simp add: listener_turn_def Fetch_def listener_callback_def stanMessageHandler_def Let_def)

theorem lost_stan_panics_witness:
  "listener_turn calm_env demo_ext stanMessageHandler no_conns (demo_consumer\<lparr>co_schemaRegistryOn := False\<rparr>) False False 5
      (Arrived (Some (commit_message demo_message))) (demo_conn, [], []) = ((demo_conn, [], []), Panic NilDeref)"
  by (rule lost_stan_panics) (simp_all add: no_conns_def Stan_def)

end
