(* ===== verification/Connectors.thy ===== *)
theory Connectors
  imports ConnectorLaws
begin

text \<open>
  The six connectors: \<^verbatim>\<open>server/core/nats2kafka.go\<close>, \<^verbatim>\<open>stan2kafka.go\<close>,
  \<^verbatim>\<open>jetstream2kafka.go\<close>, \<^verbatim>\<open>kafka2nats.go\<close>, \<^verbatim>\<open>kafka2stan.go\<close> and
  \<^verbatim>\<open>kafka2jetstream.go\<close>, and the functions of \<^verbatim>\<open>connector.go\<close> that build them and tell
  them apart. A connector is its kind, the embedded \<open>BridgeConnector\<close>, its subscription (for the
  connectors to Kafka), its reader and whether it has the callback that stops its listener (for the
  connectors from Kafka). Whether the goroutine of that listener runs is part of the state as well,
  \<open>n_alive\<close>: it is set going by \<open>Start\<close>, waited for by \<open>Shutdown\<close>, and returns by itself when fetching fails,
  which no field of the source shows. Each method runs under the
  connector's lock and takes the connector and the history.
\<close>

section \<open>Definitions\<close>

datatype connector_kind = NATS2Kafka | Stan2Kafka | JetStream2Kafka | Kafka2NATS | Kafka2Stan | Kafka2JetStream

record connector =
  n_kind :: connector_kind
  n_base :: BridgeConnector
  n_sub :: "nat option"
  n_reader :: "saramaConsumer option"
  n_listening :: bool
  n_alive :: bool

type_synonym connector_op = "connector \<Rightarrow> history \<Rightarrow> (connector \<times> history) \<times> unit res"

abbreviation n_config :: "connector \<Rightarrow> ConnectorConfig" where
  "n_config c \<equiv> k_config (n_base c)"

abbreviation n_cluster :: "connector \<Rightarrow> string" where
  "n_cluster c \<equiv> cc_NATSConnection (n_config c)"

definition readsKafka :: "connector_kind \<Rightarrow> bool" where
  "readsKafka k \<longleftrightarrow> k = Kafka2NATS \<or> k = Kafka2Stan \<or> k = Kafka2JetStream"

definition requiresStan :: "connector_kind \<Rightarrow> bool" where
  "requiresStan k \<longleftrightarrow> k = Stan2Kafka \<or> k = Kafka2Stan"

definition new_connector ::
  "('n, 'j, 'm) ext \<Rightarrow> string \<Rightarrow> connector_kind \<Rightarrow> ConnectorConfig \<Rightarrow> string \<Rightarrow> string \<Rightarrow> connector res" where
  "new_connector x fresh kind config destTpl name =
     bind_res (init_connector x fresh config destTpl name) (\<lambda>base.
       Ret \<lparr>n_kind = kind, n_base = base, n_sub = None, n_reader = None, n_listening = False, n_alive = False\<rparr>)"

definition NewNATS2KafkaConnector :: "('n, 'j, 'm) ext \<Rightarrow> string \<Rightarrow> ConnectorConfig \<Rightarrow> connector res" where
  "NewNATS2KafkaConnector x fresh config =
     new_connector x fresh NATS2Kafka config (cc_Topic config) (''NATS:'' @ cc_Subject config @ '' to Kafka:'' @ cc_Topic config)"

definition NewStan2KafkaConnector :: "('n, 'j, 'm) ext \<Rightarrow> string \<Rightarrow> ConnectorConfig \<Rightarrow> connector res" where
  "NewStan2KafkaConnector x fresh config =
     new_connector x fresh Stan2Kafka config (cc_Topic config) (''Stan:'' @ cc_Channel config @ '' to Kafka:'' @ cc_Topic config)"

definition NewJetStream2KafkaConnector :: "('n, 'j, 'm) ext \<Rightarrow> string \<Rightarrow> ConnectorConfig \<Rightarrow> connector res" where
  "NewJetStream2KafkaConnector x fresh config =
     new_connector x fresh JetStream2Kafka config (cc_Topic config) (''JetStream:'' @ cc_Subject config @ '' to Kafka:'' @ cc_Topic config)"

definition NewKafka2NATSConnector :: "('n, 'j, 'm) ext \<Rightarrow> string \<Rightarrow> ConnectorConfig \<Rightarrow> connector res" where
  "NewKafka2NATSConnector x fresh config =
     new_connector x fresh Kafka2NATS config (cc_Subject config) (''Kafka:'' @ cc_Topic config @ '' to NATS:'' @ cc_Subject config)"

definition NewKafka2StanConnector :: "('n, 'j, 'm) ext \<Rightarrow> string \<Rightarrow> ConnectorConfig \<Rightarrow> connector res" where
  "NewKafka2StanConnector x fresh config =
     new_connector x fresh Kafka2Stan config (cc_Channel config) (''Kafka:'' @ cc_Topic config @ '' to Stan:'' @ cc_Channel config)"

definition NewKafka2JetStreamConnector :: "('n, 'j, 'm) ext \<Rightarrow> string \<Rightarrow> ConnectorConfig \<Rightarrow> connector res" where
  "NewKafka2JetStreamConnector x fresh config =
     new_connector x fresh Kafka2JetStream config (cc_Subject config) (''Kafka:'' @ cc_Topic config @ '' to JetStream:'' @ cc_Subject config)"

definition CreateConnector :: "('n, 'j, 'm) ext \<Rightarrow> string \<Rightarrow> ConnectorConfig \<Rightarrow> connector res" where
  "CreateConnector x fresh config =
     (if cc_Type config = NATSToKafka then NewNATS2KafkaConnector x fresh config
      else if cc_Type config = STANToKafka then
        (case validateStanConfig config of Some e \<Rightarrow> Fail e | None \<Rightarrow> NewStan2KafkaConnector x fresh config)
      else if cc_Type config = JetStreamToKafka then NewJetStream2KafkaConnector x fresh config
      else if cc_Type config = KafkaToNATS then NewKafka2NATSConnector x fresh config
      else if cc_Type config = KafkaToStan then
        (case validateStanConfig config of Some e \<Rightarrow> Fail e | None \<Rightarrow> NewKafka2StanConnector x fresh config)
      else if cc_Type config = KafkaToJetStream then NewKafka2JetStreamConnector x fresh config
      else Fail (Errorf ''unknown connector type %q in configuration'' [AStr (cc_Type config)]))"

text \<open>The checks a connector starts with and is asked for when a connection goes down.\<close>

definition requires_err :: "string \<Rightarrow> connector \<Rightarrow> goerr" where
  "requires_err fmt c = Errorf fmt [AStr (conn_String (n_base c))]"

definition check :: "(history \<Rightarrow> history \<times> bool) \<Rightarrow> goerr \<Rightarrow> history \<Rightarrow> history \<times> goerr option" where
  "check f e w = (case f w of (w, ok) \<Rightarrow> (w, if ok then None else Some e))"

definition NATS2Kafka_CheckConnections :: "env \<Rightarrow> conns \<Rightarrow> connector \<Rightarrow> history \<Rightarrow> history \<times> goerr option" where
  "NATS2Kafka_CheckConnections env b c =
     check (CheckNATSFor env (n_cluster c) b) (requires_err ''%s connector requires nats to be available'' c)"

definition Stan2Kafka_CheckConnections :: "env \<Rightarrow> conns \<Rightarrow> connector \<Rightarrow> history \<Rightarrow> history \<times> goerr option" where
  "Stan2Kafka_CheckConnections env b c =
     check (CheckStan env b) (requires_err ''%s connector requires nats streaming to be available'' c)"

definition JetStream2Kafka_CheckConnections :: "env \<Rightarrow> conns \<Rightarrow> connector \<Rightarrow> history \<Rightarrow> history \<times> goerr option" where
  "JetStream2Kafka_CheckConnections env b c =
     check (CheckJetStreamFor env (n_cluster c) b) (requires_err ''%s connector requires nats jetstream to be available'' c)"

definition Kafka2NATS_CheckConnections :: "env \<Rightarrow> conns \<Rightarrow> connector \<Rightarrow> history \<Rightarrow> history \<times> goerr option" where
  "Kafka2NATS_CheckConnections env b c =
     check (CheckNATSFor env (n_cluster c) b) (requires_err ''%s connector requires nats to be available'' c)"

definition Kafka2Stan_CheckConnections :: "env \<Rightarrow> conns \<Rightarrow> connector \<Rightarrow> history \<Rightarrow> history \<times> goerr option" where
  "Kafka2Stan_CheckConnections env b c =
     check (CheckStan env b) (requires_err ''%s connector requires nats streaming to be available'' c)"

definition Kafka2JetStream_CheckConnections :: "env \<Rightarrow> conns \<Rightarrow> connector \<Rightarrow> history \<Rightarrow> history \<times> goerr option" where
  "Kafka2JetStream_CheckConnections env b c =
     check (CheckJetStreamFor env (n_cluster c) b) (requires_err ''%s connector requires nats jetstream to be available'' c)"

text \<open>The parts the \<open>Start\<close> methods share: counting the connect, keeping a subscription, opening a reader.\<close>

definition mark_connected :: "connector \<Rightarrow> connector" where
  "mark_connected c = c\<lparr>n_base := (n_base c)\<lparr>k_stats := AddConnect (k_stats (n_base c))\<rparr>\<rparr>"

definition subscribed :: "connector \<Rightarrow> history \<times> (goerr + nat) \<Rightarrow> (connector \<times> history) \<times> unit res" where
  "subscribed c r =
     (case r of
        (w, Inl e) \<Rightarrow> ((c, w), Fail e)
      | (w, Inr sub) \<Rightarrow> ((mark_connected (c\<lparr>n_sub := Some sub\<rparr>), w), Ret ()))"

definition NATS2Kafka_Start :: "env \<Rightarrow> conns \<Rightarrow> connector_op" where
  "NATS2Kafka_Start env b c w =
     (case CheckNATSFor env (n_cluster c) b w of
        (w, False) \<Rightarrow> ((c, w), Fail (requires_err ''%s connector requires nats to be available'' c))
      | (w, True) \<Rightarrow> subscribed c (subscribeToNATS env b (n_base c) w))"

definition Stan2Kafka_Start :: "env \<Rightarrow> conns \<Rightarrow> connector_op" where
  "Stan2Kafka_Start env b c w =
     (case CheckStan env b w of
        (w, False) \<Rightarrow> ((c, w), Fail (requires_err ''%s connector requires nats streaming to be available'' c))
      | (w, True) \<Rightarrow> subscribed c (subscribeToChannel env b (n_base c) w))"

definition JetStream2Kafka_Start :: "env \<Rightarrow> NATSKafkaBridgeConfig \<Rightarrow> conns \<Rightarrow> connector_op" where
  "JetStream2Kafka_Start env bc b c w =
     (case CheckJetStreamFor env (n_cluster c) b w of
        (w, False) \<Rightarrow> ((c, w), Fail (requires_err ''%s connector requires JetStream to be available'' c))
      | (w, True) \<Rightarrow> subscribed c (subscribeToJetStream env bc b (n_base c) w))"

definition listen_on :: "connector \<Rightarrow> saramaConsumer \<Rightarrow> connector" where
  "listen_on c r = mark_connected (c\<lparr>n_reader := Some r, n_listening := True, n_alive := True\<rparr>)"

abbreviation open_reader ::
  "env \<Rightarrow> ('n, 'j, 'm) ext \<Rightarrow> NATSKafkaBridgeConfig \<Rightarrow> connector \<Rightarrow> history \<Rightarrow> history \<times> saramaConsumer res" where
  "open_reader env x bc c w \<equiv>
     NewConsumer env (x_cd x) (x_NewConfig x) (x_io x) (n_config c) (milliseconds (b_ConnectTimeout bc)) w"

definition Kafka2NATS_Start :: "env \<Rightarrow> ('n, 'j, 'm) ext \<Rightarrow> NATSKafkaBridgeConfig \<Rightarrow> conns \<Rightarrow> connector_op" where
  "Kafka2NATS_Start env x bc b c w =
     (case CheckNATSFor env (n_cluster c) b w of
        (w, False) \<Rightarrow> ((c, w), Fail (requires_err ''%s connector requires nats to be available'' c))
      | (w, True) \<Rightarrow>
         (case open_reader env x bc c w of
            (w, Ret r) \<Rightarrow> ((listen_on c r, w), Ret ())
          | (w, Fail e) \<Rightarrow> ((c, w), Fail e)
          | (w, Panic p) \<Rightarrow> ((c, w), Panic p)))"

definition Kafka2Stan_Start :: "env \<Rightarrow> ('n, 'j, 'm) ext \<Rightarrow> NATSKafkaBridgeConfig \<Rightarrow> conns \<Rightarrow> connector_op" where
  "Kafka2Stan_Start env x bc b c w =
     (case CheckStan env b w of
        (w, False) \<Rightarrow> ((c, w), Fail (requires_err ''%s connector requires nats streaming to be available'' c))
      | (w, True) \<Rightarrow>
         (case open_reader env x bc c w of
            (w, Ret r) \<Rightarrow> ((listen_on c r, w), Ret ())
          | (w, Fail e) \<Rightarrow> ((c\<lparr>n_reader := None\<rparr>, w), Fail (Wrapf ''failed to create consumer: %w'' [] e))
          | (w, Panic p) \<Rightarrow> ((c, w), Panic p)))"

definition Kafka2JetStream_Start :: "env \<Rightarrow> ('n, 'j, 'm) ext \<Rightarrow> NATSKafkaBridgeConfig \<Rightarrow> conns \<Rightarrow> connector_op" where
  "Kafka2JetStream_Start env x bc b c w =
     (case CheckJetStreamFor env (n_cluster c) b w of
        (w, False) \<Rightarrow> ((c, w), Fail (requires_err ''%s connector requires JetStream to be available'' c))
      | (w, True) \<Rightarrow>
         (case open_reader env x bc c w of
            (w, Ret r) \<Rightarrow> ((listen_on c r, w), Ret ())
          | (w, Fail e) \<Rightarrow> ((c\<lparr>n_reader := None\<rparr>, w), Fail (Wrapf ''failed to create consumer: %w'' [] e))
          | (w, Panic p) \<Rightarrow> ((c, w), Panic p)))"

text \<open>
  \<open>Shutdown\<close>. All close the writers and count the disconnect; then the subscription is dropped, or the
  listener is stopped and the reader closed. The errors are ignored.
\<close>

definition mark_disconnected :: "env \<Rightarrow> ('n, 'j, 'm) ext \<Rightarrow> connector \<Rightarrow> history \<Rightarrow> connector \<times> history" where
  "mark_disconnected env x c w =
     (case closeWriters env x (n_base c) w of
        (base, w) \<Rightarrow> (c\<lparr>n_base := base\<lparr>k_stats := AddDisconnect (k_stats base)\<rparr>\<rparr>, w))"

definition NATS2Kafka_Shutdown :: "env \<Rightarrow> ('n, 'j, 'm) ext \<Rightarrow> connector_op" where
  "NATS2Kafka_Shutdown env x c w =
     (case mark_disconnected env x c w of
        (c, w) \<Rightarrow>
          (case n_sub c of
             None \<Rightarrow> ((c, w), Ret ())
           | Some sub \<Rightarrow> ((c\<lparr>n_sub := None\<rparr>, fst (call_err env (NatsUnsubscribe sub) w)), Ret ())))"

definition Stan2Kafka_Shutdown :: "env \<Rightarrow> ('n, 'j, 'm) ext \<Rightarrow> connector_op" where
  "Stan2Kafka_Shutdown env x c w =
     (case mark_disconnected env x c w of
        (c, w) \<Rightarrow>
          (case n_sub c of
             None \<Rightarrow> ((c, w), Ret ())
           | Some sub \<Rightarrow>
              (if cc_DurableName (n_config c) = []
               then ((c\<lparr>n_sub := None\<rparr>, fst (call_err env (StanUnsubscribe sub) w)), Ret ())
               else ((c, w), Ret ()))))"

definition JetStream2Kafka_Shutdown :: "env \<Rightarrow> ('n, 'j, 'm) ext \<Rightarrow> connector_op" where
  "JetStream2Kafka_Shutdown env x c w =
     (case mark_disconnected env x c w of
        (c, w) \<Rightarrow>
          (case n_sub c of
             None \<Rightarrow> ((c, w), Ret ())
           | Some sub \<Rightarrow> ((c\<lparr>n_sub := None\<rparr>, fst (call_err env (NatsUnsubscribe sub) w)), Ret ())))"

definition close_reader :: "env \<Rightarrow> connector_op" where
  "close_reader env c w =
     (let reader = n_reader c; c = c\<lparr>n_listening := False, n_alive := False, n_reader := None\<rparr> in
      case reader of
        None \<Rightarrow> ((c, w), Ret ())
      | Some r \<Rightarrow>
         (case consumer_Close env r w of
            ((_, w), Panic p) \<Rightarrow> ((c, w), Panic p)
          | ((_, w), _) \<Rightarrow> ((c, w), Ret ())))"

definition Kafka2NATS_Shutdown :: "env \<Rightarrow> ('n, 'j, 'm) ext \<Rightarrow> connector_op" where
  "Kafka2NATS_Shutdown env x c w = (case mark_disconnected env x c w of (c, w) \<Rightarrow> close_reader env c w)"

definition Kafka2Stan_Shutdown :: "env \<Rightarrow> ('n, 'j, 'm) ext \<Rightarrow> connector_op" where
  "Kafka2Stan_Shutdown env x c w = (case mark_disconnected env x c w of (c, w) \<Rightarrow> close_reader env c w)"

definition Kafka2JetStream_Shutdown :: "env \<Rightarrow> ('n, 'j, 'm) ext \<Rightarrow> connector_op" where
  "Kafka2JetStream_Shutdown env x c w = (case mark_disconnected env x c w of (c, w) \<Rightarrow> close_reader env c w)"

text \<open>
  The dynamic dispatch of the \<^verbatim>\<open>Connector\<close> interface, by the kind of the connector. The methods of
  the embedded \<^verbatim>\<open>BridgeConnector\<close>, which are what a value of that type dispatches to, do nothing.
\<close>

definition Start :: "env \<Rightarrow> ('n, 'j, 'm) ext \<Rightarrow> NATSKafkaBridgeConfig \<Rightarrow> conns \<Rightarrow> connector_op" where
  "Start env x bc b c w =
     (case n_kind c of
        NATS2Kafka \<Rightarrow> NATS2Kafka_Start env b c w
      | Stan2Kafka \<Rightarrow> Stan2Kafka_Start env b c w
      | JetStream2Kafka \<Rightarrow> JetStream2Kafka_Start env bc b c w
      | Kafka2NATS \<Rightarrow> Kafka2NATS_Start env x bc b c w
      | Kafka2Stan \<Rightarrow> Kafka2Stan_Start env x bc b c w
      | Kafka2JetStream \<Rightarrow> Kafka2JetStream_Start env x bc b c w)"

definition Shutdown :: "env \<Rightarrow> ('n, 'j, 'm) ext \<Rightarrow> connector_op" where
  "Shutdown env x c w =
     (case n_kind c of
        NATS2Kafka \<Rightarrow> NATS2Kafka_Shutdown env x c w
      | Stan2Kafka \<Rightarrow> Stan2Kafka_Shutdown env x c w
      | JetStream2Kafka \<Rightarrow> JetStream2Kafka_Shutdown env x c w
      | Kafka2NATS \<Rightarrow> Kafka2NATS_Shutdown env x c w
      | Kafka2Stan \<Rightarrow> Kafka2Stan_Shutdown env x c w
      | Kafka2JetStream \<Rightarrow> Kafka2JetStream_Shutdown env x c w)"

definition CheckConnections :: "env \<Rightarrow> conns \<Rightarrow> connector \<Rightarrow> history \<Rightarrow> history \<times> goerr option" where
  "CheckConnections env b c w =
     (case n_kind c of
        NATS2Kafka \<Rightarrow> NATS2Kafka_CheckConnections env b c w
      | Stan2Kafka \<Rightarrow> Stan2Kafka_CheckConnections env b c w
      | JetStream2Kafka \<Rightarrow> JetStream2Kafka_CheckConnections env b c w
      | Kafka2NATS \<Rightarrow> Kafka2NATS_CheckConnections env b c w
      | Kafka2Stan \<Rightarrow> Kafka2Stan_CheckConnections env b c w
      | Kafka2JetStream \<Rightarrow> Kafka2JetStream_CheckConnections env b c w)"

definition base_Start :: "connector_op" where
  "base_Start c w = ((c, w), Ret ())"

definition base_Shutdown :: "connector_op" where
  "base_Shutdown c w = ((c, w), Ret ())"

definition base_CheckConnections :: "connector \<Rightarrow> history \<Rightarrow> history \<times> goerr option" where
  "base_CheckConnections c w = (w, None)"

section \<open>The contract of a connector\<close>

definition consumer_wf :: "saramaConsumer \<Rightarrow> bool" where
  "consumer_wf r \<longleftrightarrow> (if co_groupMode r then
     co_cg r \<noteq> None \<and> co_fetchCh r = OpenChannel \<and> co_commitCh r = OpenChannel \<and> co_cancel r else co_pc r \<noteq> None \<and> co_c r \<noteq> None)"

definition connector_wf :: "connector \<Rightarrow> bool" where
  "connector_wf c \<longleftrightarrow> (\<forall>r. n_reader c = Some r \<longrightarrow> consumer_wf r)"

definition same_identity :: "connector \<Rightarrow> connector \<Rightarrow> bool" where
  "same_identity c c' \<longleftrightarrow> n_kind c' = n_kind c \<and> n_config c' = n_config c \<and>
     conn_ID (n_base c') = conn_ID (n_base c) \<and> conn_String (n_base c') = conn_String (n_base c)"

abbreviation up :: "connector \<Rightarrow> bool" where "up c \<equiv> st_Connected (h_stats (k_stats (n_base c)))"
abbreviation connects :: "connector \<Rightarrow> int64" where "connects c \<equiv> st_Connects (h_stats (k_stats (n_base c)))"
abbreviation disconnects :: "connector \<Rightarrow> int64" where "disconnects c \<equiv> st_Disconnects (h_stats (k_stats (n_base c)))"

text \<open>
  What the statistics call connected, \<open>up\<close>, is not what works. A connector works when it was started
  and not shut down since, and has its subscription or, reading from Kafka, a listener that runs. It is
  stranded when it reads from Kafka and is up although its listener has returned.
\<close>

definition works :: "connector \<Rightarrow> bool" where
  "works c \<longleftrightarrow> up c \<and> (if readsKafka (n_kind c) then n_alive c else n_sub c \<noteq> None)"

definition stranded :: "connector \<Rightarrow> bool" where
  "stranded c \<longleftrightarrow> up c \<and> readsKafka (n_kind c) \<and> \<not> n_alive c"

abbreviation held :: "connector \<Rightarrow> bool" where
  "held c \<equiv> works c \<or> stranded c"

lemma held_up: "held c \<Longrightarrow> up c"
  by (auto simp: works_def stranded_def)

lemma works_not_stranded: "works c \<Longrightarrow> \<not> stranded c"
  by (simp add: works_def stranded_def)

text \<open>
  What the bridge relies on, whatever the kind of connector. Starting refuses, and changes nothing,
  when the check fails; a successful start counts one connect, reports the connector up and leaves it
  working, a failed one leaves the statistics, the subscription and the listener alone. Shutting down counts one disconnect, reports the connector down and
  does not fail. Neither changes the connector's identity.
\<close>

definition start_law :: "connector \<Rightarrow> connector \<Rightarrow> unit res \<Rightarrow> bool" where
  "start_law c c' r \<longleftrightarrow> same_identity c c' \<and> (connector_wf c \<longrightarrow> connector_wf c') \<and>
     (r = Ret () \<longrightarrow> up c' \<and> works c' \<and> connects c' = connects c + 1 \<and> disconnects c' = disconnects c) \<and>
     (r \<noteq> Ret () \<longrightarrow> n_base c' = n_base c \<and> n_sub c' = n_sub c \<and> n_alive c' = n_alive c)"

definition shutdown_law :: "connector \<Rightarrow> connector \<Rightarrow> unit res \<Rightarrow> bool" where
  "shutdown_law c c' r \<longleftrightarrow> same_identity c c' \<and> (connector_wf c \<longrightarrow> connector_wf c' \<and> r = Ret ()) \<and>
     \<not> up c' \<and> (readsKafka (n_kind c) \<longrightarrow> \<not> n_alive c') \<and> disconnects c' = disconnects c + 1 \<and> connects c' = connects c"

text \<open>The interface: the methods of one kind of connector, or of all, with \<open>kinds\<close> the kinds they are methods of.\<close>

locale connector_interface =
  fixes kinds :: "connector_kind \<Rightarrow> bool"
    and start :: "env \<Rightarrow> ('n, 'j, 'm) ext \<Rightarrow> NATSKafkaBridgeConfig \<Rightarrow> conns \<Rightarrow> connector_op"
    and shutdown :: "env \<Rightarrow> ('n, 'j, 'm) ext \<Rightarrow> connector_op"
    and chk :: "env \<Rightarrow> conns \<Rightarrow> connector \<Rightarrow> history \<Rightarrow> history \<times> goerr option"
  assumes starts: "kinds (n_kind c) \<Longrightarrow> start env x bc b c w = ((c', w'), r) \<Longrightarrow> start_law c c' r"
    and start_guard: "chk env b c w = (w1, Some e) \<Longrightarrow> \<exists>e'. start env x bc b c w = ((c, w1), Fail e')"
    and shuts_down: "kinds (n_kind c) \<Longrightarrow> shutdown env x c w = ((c', w'), r) \<Longrightarrow> shutdown_law c c' r"
begin

text \<open>A restart: shut down, then start again (against whatever connections exist by then).\<close>

lemma restart_spec:
  assumes "shutdown env x c w = ((c1, w1), r1)" and "start env' x bc b c1 w2 = ((c', w'), r)" and "connector_wf c" and "kinds (n_kind c)"
  shows "same_identity c c' \<and> connector_wf c' \<and> disconnects c' = disconnects c + 1 \<and>
    (r = Ret () \<longrightarrow> up c' \<and> connects c' = connects c + 1) \<and> (r \<noteq> Ret () \<longrightarrow> \<not> up c' \<and> connects c' = connects c)"
proof -
  note law = shuts_down [OF assms(4,1)]
  then have "kinds (n_kind c1)" using assms(4) by (simp add: shutdown_law_def same_identity_def)
  from starts [OF this assms(2)] law assms(3) show ?thesis by (auto simp: start_law_def shutdown_law_def same_identity_def)
qed

end

section \<open>Lemmas on the parts\<close>

lemma closeWriters_keeps:
  "closeWriters env x k w = (k', w') \<Longrightarrow> k_config k' = k_config k \<and> k_stats k' = k_stats k"
  unfolding closeWriters_def using close_writers_spec(2,3) by blast

lemma mark_disconnected_spec:
  assumes "mark_disconnected env x c w = (c', w')"
  shows "same_identity c c' \<and> \<not> up c' \<and> disconnects c' = disconnects c + 1 \<and> connects c' = connects c \<and>
    n_sub c' = n_sub c \<and> n_reader c' = n_reader c"
  using assms closeWriters_keeps [of env x "n_base c" w]
  by (auto simp: mark_disconnected_def same_identity_def conn_ID_def conn_String_def holder_ID_def holder_Name_def
      AddDisconnect_def Let_def split: prod.splits)

lemma mark_connected_spec [simp]:
  "same_identity d (mark_connected c) = same_identity d c" "up (mark_connected c)" "connects (mark_connected c) = connects c + 1"
  "disconnects (mark_connected c) = disconnects c" "n_reader (mark_connected c) = n_reader c"
  "n_sub (mark_connected c) = n_sub c" "n_alive (mark_connected c) = n_alive c" "n_kind (mark_connected c) = n_kind c"
  by (simp_all add: mark_connected_def same_identity_def conn_ID_def conn_String_def holder_ID_def holder_Name_def
      AddConnect_def Let_def)

lemma same_identity_upd [simp]:
  "same_identity c (c'\<lparr>n_sub := s\<rparr>) = same_identity c c'" "same_identity c (c'\<lparr>n_reader := r\<rparr>) = same_identity c c'"
  "same_identity c (c'\<lparr>n_listening := l\<rparr>) = same_identity c c'" "same_identity (c\<lparr>n_sub := s\<rparr>) c' = same_identity c c'"
  "same_identity (c\<lparr>n_reader := r\<rparr>) c' = same_identity c c'" "same_identity (c\<lparr>n_listening := l\<rparr>) c' = same_identity c c'"
  "same_identity c (c'\<lparr>n_alive := l\<rparr>) = same_identity c c'" "same_identity (c\<lparr>n_alive := l\<rparr>) c' = same_identity c c'"
  "same_identity c c"
  by (simp_all add: same_identity_def)

lemma subscribed_spec:
  assumes "subscribed c p = ((c', w'), r)"
  shows "same_identity c c' \<and> n_reader c' = n_reader c \<and> (\<forall>q. r \<noteq> Panic q) \<and>
    (r = Ret () \<longrightarrow> up c' \<and> n_sub c' \<noteq> None \<and> connects c' = connects c + 1 \<and> disconnects c' = disconnects c) \<and> (r \<noteq> Ret () \<longrightarrow> c' = c)"
  using assms mark_connected_spec [of "c\<lparr>n_sub := s\<rparr>" for s]
  by (auto simp: subscribed_def split: prod.splits sum.splits)

lemma listen_on_spec [simp]:
  "same_identity c (listen_on c r)" "up (listen_on c r)" "connects (listen_on c r) = connects c + 1"
  "disconnects (listen_on c r) = disconnects c" "n_reader (listen_on c r) = Some r"
  "n_alive (listen_on c r)" "n_kind (listen_on c r) = n_kind c"
  using mark_connected_spec [of "c\<lparr>n_reader := Some r, n_listening := True, n_alive := True\<rparr>"] by (simp_all add: listen_on_def)

lemma NewConsumer_wf:
  assumes "NewConsumer env cd NewConfig io cc t w = (w', Ret r)"
  shows "consumer_wf r"
  using assms by (auto simp: NewConsumer_def consumer_wf_def Let_def split: res.splits prod.splits sum.splits if_splits)

lemma consumer_Close_ret: "consumer_wf r \<Longrightarrow> consumer_Close env r w \<noteq> (p, Panic q)"
  by (auto simp: consumer_wf_def consumer_Close_def close_channels_def Let_def split: prod.splits option.splits if_splits)

lemma close_reader_spec:
  assumes "close_reader env c w = ((c', w'), r)"
  shows "same_identity c c' \<and> n_base c' = n_base c \<and> n_reader c' = None \<and> \<not> n_alive c' \<and> (connector_wf c \<longrightarrow> r = Ret ())"
proof (cases "n_reader c")
  case None
  then show ?thesis using assms by (auto simp: close_reader_def)
next
  case (Some rd)
  obtain d w1 q where q: "consumer_Close env rd w = ((d, w1), q)" by (metis surj_pair)
  have "connector_wf c \<longrightarrow> \<not> is_panic q"
    using consumer_Close_ret [of rd env w "(d, w1)"] q Some by (auto simp: connector_wf_def go_simps)
  then show ?thesis using assms Some q by (cases q) (auto simp: close_reader_def Let_def)
qed

lemma guarded_sub:
  assumes "(case g of (w, False) \<Rightarrow> ((c, w), Fail e) | (w, True) \<Rightarrow> subscribed c (f w)) = ((c', w'), r)"
    and "\<not> readsKafka (n_kind c)"
  shows "start_law c c' r"
  using assms subscribed_spec [of c "f v" c' w' r for v]
  by (auto simp: start_law_def connector_wf_def works_def same_identity_def split: prod.splits bool.splits)

lemma guarded_reader:
  assumes "(case g of (w, False) \<Rightarrow> ((c, w), Fail e)
      | (w, True) \<Rightarrow> (case open_reader env x bc c w of
            (w, Ret r) \<Rightarrow> ((listen_on c r, w), Ret ())
          | (w, Fail e) \<Rightarrow> ((c1, w), Fail (h e))
          | (w, Panic p) \<Rightarrow> ((c, w), Panic p))) = ((c', w'), r)"
    and "c1 = c \<or> c1 = c\<lparr>n_reader := None\<rparr>" and "readsKafka (n_kind c)"
  shows "start_law c c' r"
  using assms NewConsumer_wf
  by (auto simp: start_law_def connector_wf_def works_def split: prod.splits bool.splits res.splits)

lemma sub_shutdown:
  assumes "mark_disconnected env x c w = (c1, w1)" and "c' = c1 \<or> c' = c1\<lparr>n_sub := None\<rparr>" and "\<not> readsKafka (n_kind c)"
  shows "shutdown_law c c' (Ret ())"
  using mark_disconnected_spec [OF assms(1)] assms(2,3) by (auto simp: shutdown_law_def connector_wf_def)

lemma reader_shutdown:
  assumes "(case mark_disconnected env x c w of (c, w) \<Rightarrow> close_reader env c w) = ((c', w'), r)"
  shows "shutdown_law c c' r"
proof -
  obtain c1 w1 where d: "mark_disconnected env x c w = (c1, w1)" by (metis surj_pair)
  have cl: "close_reader env c1 w1 = ((c', w'), r)" using assms d by simp
  show ?thesis using mark_disconnected_spec [OF d] close_reader_spec [OF cl]
    by (auto simp: shutdown_law_def connector_wf_def same_identity_def)
qed

lemma check_Some: "check f e w = (w1, Some e') \<Longrightarrow> f w = (w1, False)"
  by (auto simp: check_def split: prod.splits if_splits)

interpretation nats2kafka: connector_interface "(=) NATS2Kafka"
  "\<lambda>env x bc b. NATS2Kafka_Start env b" NATS2Kafka_Shutdown NATS2Kafka_CheckConnections
proof
  show "start_law c c' r" if "NATS2Kafka = n_kind c" "NATS2Kafka_Start env b c w = ((c', w'), r)" for env b c w c' w' r
    using that(2) unfolding NATS2Kafka_Start_def by (rule guarded_sub) (simp add: readsKafka_def that(1) [symmetric])
  show "\<exists>e'. NATS2Kafka_Start env b c w = ((c, w1), Fail e')"
    if "NATS2Kafka_CheckConnections env b c w = (w1, Some e)" for env b c w w1 e
    using that unfolding NATS2Kafka_CheckConnections_def NATS2Kafka_Start_def by (auto dest: check_Some)
  show "shutdown_law c c' r" if "NATS2Kafka = n_kind c" "NATS2Kafka_Shutdown env x c w = ((c', w'), r)" for env x c w c' w' r
    using that by (auto simp: NATS2Kafka_Shutdown_def readsKafka_def intro: sub_shutdown split: prod.splits option.splits if_splits)
qed

interpretation stan2kafka: connector_interface "(=) Stan2Kafka"
  "\<lambda>env x bc b. Stan2Kafka_Start env b" Stan2Kafka_Shutdown Stan2Kafka_CheckConnections
proof
  show "start_law c c' r" if "Stan2Kafka = n_kind c" "Stan2Kafka_Start env b c w = ((c', w'), r)" for env b c w c' w' r
    using that(2) unfolding Stan2Kafka_Start_def by (rule guarded_sub) (simp add: readsKafka_def that(1) [symmetric])
  show "\<exists>e'. Stan2Kafka_Start env b c w = ((c, w1), Fail e')"
    if "Stan2Kafka_CheckConnections env b c w = (w1, Some e)" for env b c w w1 e
    using that unfolding Stan2Kafka_CheckConnections_def Stan2Kafka_Start_def by (auto dest: check_Some)
  show "shutdown_law c c' r" if "Stan2Kafka = n_kind c" "Stan2Kafka_Shutdown env x c w = ((c', w'), r)" for env x c w c' w' r
    using that by (auto simp: Stan2Kafka_Shutdown_def readsKafka_def intro: sub_shutdown split: prod.splits option.splits if_splits)
qed

interpretation jetstream2kafka: connector_interface "(=) JetStream2Kafka"
  "\<lambda>env x bc b. JetStream2Kafka_Start env bc b" JetStream2Kafka_Shutdown JetStream2Kafka_CheckConnections
proof
  show "start_law c c' r" if "JetStream2Kafka = n_kind c" "JetStream2Kafka_Start env bc b c w = ((c', w'), r)" for env bc b c w c' w' r
    using that(2) unfolding JetStream2Kafka_Start_def by (rule guarded_sub) (simp add: readsKafka_def that(1) [symmetric])
  show "\<exists>e'. JetStream2Kafka_Start env bc b c w = ((c, w1), Fail e')"
    if "JetStream2Kafka_CheckConnections env b c w = (w1, Some e)" for env bc b c w w1 e
    using that unfolding JetStream2Kafka_CheckConnections_def JetStream2Kafka_Start_def by (auto dest: check_Some)
  show "shutdown_law c c' r" if "JetStream2Kafka = n_kind c" "JetStream2Kafka_Shutdown env x c w = ((c', w'), r)" for env x c w c' w' r
    using that by (auto simp: JetStream2Kafka_Shutdown_def readsKafka_def intro: sub_shutdown split: prod.splits option.splits if_splits)
qed

interpretation kafka2nats: connector_interface "(=) Kafka2NATS"
  Kafka2NATS_Start Kafka2NATS_Shutdown Kafka2NATS_CheckConnections
proof
  show "start_law c c' r" if "Kafka2NATS = n_kind c" "Kafka2NATS_Start env x bc b c w = ((c', w'), r)" for env x bc b c w c' w' r
    using that(2) unfolding Kafka2NATS_Start_def by (rule guarded_reader) (simp_all add: readsKafka_def that(1) [symmetric])
  show "\<exists>e'. Kafka2NATS_Start env x bc b c w = ((c, w1), Fail e')"
    if "Kafka2NATS_CheckConnections env b c w = (w1, Some e)" for env x bc b c w w1 e
    using that unfolding Kafka2NATS_CheckConnections_def Kafka2NATS_Start_def by (auto dest: check_Some)
  show "shutdown_law c c' r" if "Kafka2NATS = n_kind c" "Kafka2NATS_Shutdown env x c w = ((c', w'), r)" for env x c w c' w' r
    using that unfolding Kafka2NATS_Shutdown_def by (intro reader_shutdown)
qed

interpretation kafka2stan: connector_interface "(=) Kafka2Stan"
  Kafka2Stan_Start Kafka2Stan_Shutdown Kafka2Stan_CheckConnections
proof
  show "start_law c c' r" if "Kafka2Stan = n_kind c" "Kafka2Stan_Start env x bc b c w = ((c', w'), r)" for env x bc b c w c' w' r
    using that(2) unfolding Kafka2Stan_Start_def by (rule guarded_reader) (simp_all add: readsKafka_def that(1) [symmetric])
  show "\<exists>e'. Kafka2Stan_Start env x bc b c w = ((c, w1), Fail e')"
    if "Kafka2Stan_CheckConnections env b c w = (w1, Some e)" for env x bc b c w w1 e
    using that unfolding Kafka2Stan_CheckConnections_def Kafka2Stan_Start_def by (auto dest: check_Some)
  show "shutdown_law c c' r" if "Kafka2Stan = n_kind c" "Kafka2Stan_Shutdown env x c w = ((c', w'), r)" for env x c w c' w' r
    using that unfolding Kafka2Stan_Shutdown_def by (intro reader_shutdown)
qed

interpretation kafka2jetstream: connector_interface "(=) Kafka2JetStream"
  Kafka2JetStream_Start Kafka2JetStream_Shutdown Kafka2JetStream_CheckConnections
proof
  show "start_law c c' r" if "Kafka2JetStream = n_kind c" "Kafka2JetStream_Start env x bc b c w = ((c', w'), r)" for env x bc b c w c' w' r
    using that(2) unfolding Kafka2JetStream_Start_def by (rule guarded_reader) (simp_all add: readsKafka_def that(1) [symmetric])
  show "\<exists>e'. Kafka2JetStream_Start env x bc b c w = ((c, w1), Fail e')"
    if "Kafka2JetStream_CheckConnections env b c w = (w1, Some e)" for env x bc b c w w1 e
    using that unfolding Kafka2JetStream_CheckConnections_def Kafka2JetStream_Start_def by (auto dest: check_Some)
  show "shutdown_law c c' r" if "Kafka2JetStream = n_kind c" "Kafka2JetStream_Shutdown env x c w = ((c', w'), r)" for env x c w c' w' r
    using that unfolding Kafka2JetStream_Shutdown_def by (intro reader_shutdown)
qed

lemmas kind_starts = nats2kafka.starts stan2kafka.starts jetstream2kafka.starts kafka2nats.starts kafka2stan.starts
  kafka2jetstream.starts
lemmas kind_guards = nats2kafka.start_guard stan2kafka.start_guard jetstream2kafka.start_guard kafka2nats.start_guard
  kafka2stan.start_guard kafka2jetstream.start_guard
lemmas kind_shutdowns = nats2kafka.shuts_down stan2kafka.shuts_down jetstream2kafka.shuts_down kafka2nats.shuts_down
  kafka2stan.shuts_down kafka2jetstream.shuts_down

text \<open>The dispatching methods meet the contract because each kind does.\<close>

interpretation any: connector_interface "\<lambda>_. True" Start Shutdown CheckConnections
proof
  show "start_law c c' r" if "Start env x bc b c w = ((c', w'), r)"
    for env :: env and x :: "('n, 'j, 'm) ext" and bc b c w c' w' r
    using that by (cases "n_kind c") (auto simp: Start_def dest: kind_starts [rotated])
  show "\<exists>e'. Start env x bc b c w = ((c, w1), Fail e')" if "CheckConnections env b c w = (w1, Some e)"
    for env and x :: "('n, 'j, 'm) ext" and bc b c w w1 e
    using that by (cases "n_kind c") (auto simp: Start_def CheckConnections_def dest: kind_guards)
  show "shutdown_law c c' r" if "Shutdown env x c w = ((c', w'), r)"
    for env and x :: "('n, 'j, 'm) ext" and c w c' w' r
    using that by (cases "n_kind c") (auto simp: Shutdown_def dest: kind_shutdowns [rotated])
qed

section \<open>Properties\<close>

text \<open>C16. Restarting a connector of any kind keeps what it is and what it counts. Shutting down never fails and
  counts one disconnect; the start after it, against whatever connections exist by then, either
  succeeds, counts one connect and reports the connector up, or leaves it down and uncounted; and a
  start that the connector's own check refuses touches nothing.\<close>

theorem restart_contract:
  assumes "connector_wf c" and "Shutdown env x c w = ((c1, w1), r1)" and "Start env x bc b c1 w2 = ((c', w'), r)"
  shows "r1 = Ret () \<and> same_identity c c' \<and> connector_wf c' \<and> disconnects c' = disconnects c + 1 \<and>
    (r = Ret () \<longrightarrow> up c' \<and> connects c' = connects c + 1) \<and> (r \<noteq> Ret () \<longrightarrow> \<not> up c' \<and> connects c' = connects c) \<and>
    (\<forall>e w3. CheckConnections env b c1 w2 = (w3, Some e) \<longrightarrow> c' = c1 \<and> w' = w3 \<and> (\<exists>e'. r = Fail e'))"
proof (intro conjI allI impI)
  note law = any.shuts_down [OF TrueI assms(2)] and spec = any.restart_spec [OF assms(2,3,1) TrueI]
  show "r1 = Ret ()" using law assms(1) by (simp add: shutdown_law_def)
  show "same_identity c c'" "connector_wf c'" "disconnects c' = disconnects c + 1" using spec by simp_all
  show "up c'" "connects c' = connects c + 1" if "r = Ret ()" using spec that by simp_all
  show "\<not> up c'" "connects c' = connects c" if "r \<noteq> Ret ()" using spec that by simp_all
  fix e w3 assume "CheckConnections env b c1 w2 = (w3, Some e)"
  from any.start_guard [OF this] show "c' = c1" "w' = w3" "\<exists>e'. r = Fail e'" using assms(3) by (metis Pair_inject)+
qed

definition demo_connector :: connector where
  "demo_connector = \<lparr>n_kind = NATS2Kafka, n_base = demo_conn, n_sub = Some 7, n_reader = None, n_listening = False, n_alive = False\<rparr>"

theorem restart_contract_witness:
  "\<exists>c1 w1 c' w'. Shutdown calm_env demo_ext demo_connector [] = ((c1, w1), Ret ()) \<and>
    Start calm_env demo_ext DefaultBridgeConfig demo_conns c1 w1 = ((c', w'), Ret ()) \<and>
    up c' \<and> connects c' = connects demo_connector + 1"
proof -
  obtain c1 w1 c' w' where run: "Shutdown calm_env demo_ext demo_connector [] = ((c1, w1), Ret ())"
      "Start calm_env demo_ext DefaultBridgeConfig demo_conns c1 w1 = ((c', w'), Ret ())"
    by (simp add: Shutdown_def Start_def demo_connector_def NATS2Kafka_Shutdown_def NATS2Kafka_Start_def mark_disconnected_def
        closeWriters_def demo_connector_defs CheckNATSFor_def isConnected_def subscribed_def subscribeToNATS_def NATSFor_def Let_def)
  have wf: "connector_wf demo_connector" by (simp add: connector_wf_def demo_connector_def)
  from restart_contract [OF wf run] run show ?thesis by (intro exI conjI) auto
qed

end
