(* ===== verification/Monitoring.thy ===== *)
theory Monitoring
  imports Connectors "HOL-Library.List_Lexorder" "HOL-Library.Char_ord"
begin

text \<open>
  The monitoring server: \<^verbatim>\<open>server/core/monitoring.go\<close> and \<^verbatim>\<open>natsConnectionStats\<close> of
  \<^verbatim>\<open>server/core/server.go\<close>. The record \<open>monitor\<close> holds the fields of the bridge that the code
  below uses: the request counters, the listener, the server and its handler, and the URL. Opening
  the port is a request to the environment that answers with a listener; the port it got is the
  argument \<open>addr_port\<close>. A response is its status, content type and body; the JSON encoder is the
  argument \<open>json_Marshal\<close>.
\<close>

section \<open>Definitions\<close>

definition RootPath :: string where "RootPath = ''/''"
definition VarzPath :: string where "VarzPath = ''/varz''"
definition HealthzPath :: string where "HealthzPath = ''/healthz''"

lemmas path_defs = RootPath_def VarzPath_def HealthzPath_def

record monitor =
  mo_httpReqStats :: "(string, int64) gomap"
  mo_listener :: "nat option"
  mo_http :: "nat option"
  mo_httpHandler :: bool
  mo_url :: string

text \<open>\<^verbatim>\<open>net.JoinHostPort\<close>: a host with a colon or a percent sign is put in brackets.\<close>

definition JoinHostPort :: "string \<Rightarrow> string \<Rightarrow> string" where
  "JoinHostPort host port =
     (if CHR '':'' \<in> set host \<or> CHR 0x25 \<in> set host then ''['' @ host @ '']:'' @ port else host @ '':'' @ port)"

definition listen_port :: "int \<Rightarrow> int" where
  "listen_port port = (if port = -1 then 0 else port)"

definition startMonitoring ::
  "env \<Rightarrow> tls_io \<Rightarrow> (nat \<Rightarrow> int) \<Rightarrow> HTTPConfig \<Rightarrow> monitor \<Rightarrow> history \<Rightarrow> (monitor \<times> history) \<times> goerr option" where
  "startMonitoring env io addr_port config mo w =
     (if http_HTTPPort config \<noteq> 0 \<and> http_HTTPSPort config \<noteq> 0 then
        ((mo, w), Some (Errorf ''can't specify both HTTP (%v) and HTTPs (%v) ports''
           [AInt (http_HTTPPort config), AInt (http_HTTPSPort config)]))
      else if http_HTTPPort config = 0 \<and> http_HTTPSPort config = 0 then ((mo, w), None)
      else if http_HTTPSPort config \<noteq> 0 \<and> (tls_Cert (http_TLS config) = [] \<or> tls_Key (http_TLS config) = []) then
        ((mo, w), Some (Errorf ''TLS cert and key required for HTTPS'' []))
      else
        let secure = (http_HTTPSPort config \<noteq> 0);
            mo = mo\<lparr>mo_httpReqStats := [(RootPath, 0), (VarzPath, 0), (HealthzPath, 0)]\<rparr>;
            monitorProtocol = (if secure then ''https'' else ''http'');
            port = listen_port (if secure then http_HTTPSPort config else http_HTTPPort config);
            hp = JoinHostPort (http_HTTPHost config) (Itoa port)
        in case (if secure then LoadX509KeyPair io (tls_Cert (http_TLS config)) (tls_Key (http_TLS config)) else Inr []) of
             Inl e \<Rightarrow> ((mo, w), Some e)
           | Inr _ \<Rightarrow>
              (case call_handle env (Listen hp secure) w of
                 (w, Inl e) \<Rightarrow> ((mo, w), Some (Wrapf ''can't listen to the monitor port: %v'' [] e))
               | (w, Inr listener) \<Rightarrow>
                  (let mhp = JoinHostPort (http_HTTPHost config) (Itoa (addr_port listener));
                       mhp = (if http_HTTPHost config = [] then ''localhost'' @ mhp else mhp)
                   in ((mo\<lparr>mo_url := monitorProtocol @ ''://'' @ mhp @ ''/'', mo_listener := Some listener,
                           mo_httpHandler := True, mo_http := Some listener\<rparr>, w), None))))"

definition StopMonitoring :: "env \<Rightarrow> monitor \<Rightarrow> history \<Rightarrow> (monitor \<times> history) \<times> goerr option" where
  "StopMonitoring env mo w =
     (let close_listener = (\<lambda>mo w. case mo_listener mo of
             None \<Rightarrow> ((mo, w), None)
           | Some l \<Rightarrow> ((mo\<lparr>mo_listener := None\<rparr>, fst (call_err env (ListenerClose l) w)), None))
      in case mo_http mo of
           None \<Rightarrow> close_listener mo w
         | Some srv \<Rightarrow>
            (if \<not> mo_httpHandler mo then close_listener mo w
             else case call_err env (HttpShutdown srv) w of
               (w, Some e) \<Rightarrow> ((mo, w), Some e)
             | (w, None) \<Rightarrow> close_listener (mo\<lparr>mo_http := None, mo_httpHandler := False\<rparr>) w))"

record http_response =
  rs_status :: int
  rs_content_type :: string
  rs_body :: bytes

definition count_request :: "string \<Rightarrow> monitor \<Rightarrow> monitor" where
  "count_request path mo =
     mo\<lparr>mo_httpReqStats := map_put path (map_get 0 (mo_httpReqStats mo) path + 1) (mo_httpReqStats mo)\<rparr>"

definition HandleRoot :: "bytes \<Rightarrow> string \<Rightarrow> monitor \<Rightarrow> monitor \<times> http_response" where
  "HandleRoot page path mo =
     (if path \<noteq> ''/'' then (mo, \<lparr>rs_status = 404, rs_content_type = ''text/plain; charset=utf-8'',
        rs_body = str_bytes (''404 page not found'' @ [CHR 0x0A])\<rparr>)
      else (count_request RootPath mo, \<lparr>rs_status = 200, rs_content_type = ''text/html; charset=utf-8'', rs_body = page\<rparr>))"

definition HandleVarz ::
  "(BridgeStats \<Rightarrow> goerr + bytes) \<Rightarrow> (monitor \<Rightarrow> BridgeStats) \<Rightarrow> monitor \<Rightarrow> monitor \<times> http_response" where
  "HandleVarz json_Marshal stats mo =
     (let mo = count_request VarzPath mo in
      case json_Marshal (stats mo) of
        Inl e \<Rightarrow> (mo, \<lparr>rs_status = 500, rs_content_type = [], rs_body = []\<rparr>)
      | Inr varzJSON \<Rightarrow> (mo, \<lparr>rs_status = 200, rs_content_type = ''application/json'', rs_body = varzJSON\<rparr>))"

definition HandleHealthz :: "monitor \<Rightarrow> monitor \<times> http_response" where
  "HandleHealthz mo = (count_request HealthzPath mo, \<lparr>rs_status = 200, rs_content_type = [], rs_body = []\<rparr>)"

text \<open>The statistics of the cells, one per cell, in the order of the display names.\<close>

definition cell_stats :: "env \<Rightarrow> natsCell \<Rightarrow> history \<Rightarrow> history \<times> NATSConnectionStats" where
  "cell_stats env cell w =
     (case isConnected env cell w of
        (w, c) \<Rightarrow>
          (let s = \<lparr>ns_Name = displayName cell, ns_Connected = c, ns_ConnectedURL = []\<rparr> in
           case cell_nc cell of
             None \<Rightarrow> (w, s)
           | Some nc \<Rightarrow> (case call_url env (ConnectedUrl nc) w of (w, u) \<Rightarrow> (w, s\<lparr>ns_ConnectedURL := u\<rparr>))))"

fun cells_stats :: "env \<Rightarrow> natsCell list \<Rightarrow> history \<Rightarrow> history \<times> NATSConnectionStats list" where
  "cells_stats env [] w = (w, [])"
| "cells_stats env (cell # cs) w =
     (case cell_stats env cell w of
        (w, s) \<Rightarrow> (case cells_stats env cs w of (w, ss) \<Rightarrow> (w, s # ss)))"

definition natsConnectionStats ::
  "env \<Rightarrow> ((string, natsCell) gomap \<Rightarrow> (string \<times> natsCell) list) \<Rightarrow> conns \<Rightarrow> history \<Rightarrow>
   history \<times> NATSConnectionStats list" where
  "natsConnectionStats env order b w =
     (case cells_stats env (map snd (order (bn_cells b))) w of (w, ss) \<Rightarrow> (w, sort_key ns_Name ss))"

fun connectors_stats :: "rounding \<Rightarrow> connector list \<Rightarrow> connector list \<times> ConnectorStats list" where
  "connectors_stats fl [] = ([], [])"
| "connectors_stats fl (c # cs) =
     (case conn_Stats fl (n_base c) of
        (base, s) \<Rightarrow> (case connectors_stats fl cs of (cs, ss) \<Rightarrow> (c\<lparr>n_base := base\<rparr> # cs, s # ss)))"

definition stats ::
  "env \<Rightarrow> ((string, natsCell) gomap \<Rightarrow> (string \<times> natsCell) list) \<Rightarrow> rounding \<Rightarrow> int \<Rightarrow> int \<Rightarrow> conns \<Rightarrow>
   (string, int64) gomap \<Rightarrow> connector list \<Rightarrow> history \<Rightarrow> (connector list \<times> history) \<times> BridgeStats" where
  "stats env order fl startTime now b httpReqStats cs w =
     (case natsConnectionStats env order b w of
        (w, nats) \<Rightarrow>
          (case connectors_stats fl cs of
             (cs, connections) \<Rightarrow>
               ((cs, w), \<lparr>bs_StartTime = startTime, bs_ServerTime = now, bs_UpTime = now - startTime,
                  bs_RequestCount = fold (\<lambda>s n. n + st_RequestCount s) connections 0, bs_NATS = nats,
                  bs_Connections = connections,
                  bs_HTTPRequests = fold (\<lambda>(k, v) m. map_put k v m) httpReqStats []\<rparr>)))"

section \<open>Lemmas\<close>

text \<open>What the entry of a cell reports: its name and, if it has a client, what the client answered when it was
  asked, first for being connected and then for its URL.\<close>

definition reported :: "natsCell \<Rightarrow> NATSConnectionStats \<Rightarrow> history \<Rightarrow> bool" where
  "reported cell s asked \<longleftrightarrow> ns_Name s = displayName cell \<and>
     (case cell_nc cell of
        None \<Rightarrow> asked = [] \<and> \<not> ns_Connected s \<and> ns_ConnectedURL s = []
      | Some nc \<Rightarrow> (\<exists>u. asked = [(ConnectedUrl nc, Url u), (ConnectedUrl nc, Url (ns_ConnectedURL s))] \<and> (ns_Connected s \<longleftrightarrow> u \<noteq> [])))"

lemma cell_stats_reported: "cell_stats env cell w = (w', s) \<Longrightarrow> \<exists>asked. w' = w @ asked \<and> reported cell s asked"
  by (auto simp: cell_stats_def reported_def isConnected_def call_url_def Let_def split: prod.splits option.splits)

lemma cells_stats_reported:
  "cells_stats env cs w = (w', ss) \<Longrightarrow>
   \<exists>askeds. w' = w @ concat askeds \<and> length ss = length cs \<and> length askeds = length cs \<and>
     (\<forall>i < length cs. reported (cs ! i) (ss ! i) (askeds ! i))"
proof (induction cs arbitrary: w ss)
  case (Cons cell cs)
  obtain w1 s ss1 where one: "cell_stats env cell w = (w1, s)" and rest: "cells_stats env cs w1 = (w', ss1)" and ss: "ss = s # ss1"
    using Cons.prems by (auto split: prod.splits)
  obtain a as where a: "w1 = w @ a" "reported cell s a" "w' = w1 @ concat as" "length ss1 = length cs" "length as = length cs"
      "\<forall>i < length cs. reported (cs ! i) (ss1 ! i) (as ! i)"
    using cell_stats_reported [OF one] Cons.IH [OF rest] by blast
  have "reported ((cell # cs) ! i) (ss ! i) ((a # as) ! i)" if "i < length (cell # cs)" for i
    using that a ss by (cases i) simp_all
  then show ?case using a ss by (intro exI [of _ "a # as"]) simp
qed simp

lemma reported_names:
  "length ss = length cs \<Longrightarrow> \<forall>i < length cs. reported (cs ! i) (ss ! i) (as ! i) \<Longrightarrow> map ns_Name ss = map displayName cs"
  by (simp add: list_eq_iff_nth_eq reported_def)

text \<open>The entry of a connector: its own statistics, with the quantiles of its histogram filled in.\<close>

definition filled_in :: "rounding \<Rightarrow> ConnectorStatsHolder \<Rightarrow> ConnectorStats" where
  "filled_in fl h = (h_stats h)\<lparr>st_Quintile50 := Quantile fl (fl (1 / 2)) (h_histogram h),
     st_Quintile75 := Quantile fl (fl (3 / 4)) (h_histogram h), st_Quintile90 := Quantile fl (fl (9 / 10)) (h_histogram h),
     st_Quintile95 := Quantile fl (fl (95 / 100)) (h_histogram h)\<rparr>"

lemma connectors_stats_entries:
  "connectors_stats fl cs = (cs', ss) \<Longrightarrow> ss = map (\<lambda>c. filled_in fl (k_stats (n_base c))) cs \<and> length cs' = length cs"
  by (induction cs arbitrary: cs' ss) (auto simp: conn_Stats_def Stats_def filled_in_def Let_def split: prod.splits)

lemma fold_add: "fold (\<lambda>s n. n + f s) xs (a :: 'a :: comm_monoid_add) = a + sum_list (map f xs)"
  by (induction xs arbitrary: a) (simp_all add: add.assoc)

text \<open>The requests the server answers, as its multiplexer routes them: an unknown path goes to the root handler.\<close>

definition handle :: "bytes \<Rightarrow> (BridgeStats \<Rightarrow> goerr + bytes) \<Rightarrow> (monitor \<Rightarrow> BridgeStats) \<Rightarrow> string \<Rightarrow> monitor \<Rightarrow> monitor" where
  "handle page json st path mo =
     (if path = VarzPath then fst (HandleVarz json st mo)
      else if path = HealthzPath then fst (HandleHealthz mo) else fst (HandleRoot page path mo))"

lemma handle_counts:
  "map_get 0 (mo_httpReqStats (handle page json st path mo)) p =
    map_get 0 (mo_httpReqStats mo) p + (if p = path \<and> p \<in> {RootPath, VarzPath, HealthzPath} then 1 else 0)"
  by (auto simp: handle_def HandleVarz_def HandleHealthz_def HandleRoot_def count_request_def path_defs Let_def
      split: sum.splits)

section \<open>Properties\<close>

text \<open>The monitoring server counts its requests: after any sequence of requests the counter of each of the
  three endpoints has grown by the number of requests for that path, and requests for unknown paths
  are not counted anywhere.\<close>

theorem requests_counted:
  "map_get 0 (mo_httpReqStats (fold (handle page json st) paths mo)) p =
    map_get 0 (mo_httpReqStats mo) p +
    (if p \<in> {RootPath, VarzPath, HealthzPath} then of_nat (length (filter (\<lambda>q. q = p) paths)) else 0)"
proof (induction paths arbitrary: mo)
  case (Cons q paths)
  show ?case using Cons [of "handle page json st q mo"] handle_counts [of page json st q mo p]
    by (auto simp: add.commute add.left_commute)
qed simp

text \<open>C32. What \<^verbatim>\<open>/varz\<close> reports is complete and right: one entry per cluster, sorted by name, whatever the
  order of the cell map, with its name and what its client answered for its state and its URL; in
  the order of the connectors, for each the connector's own statistics with the quantiles of its
  histogram; and a request count that is the sum of the connectors' counts.\<close>

theorem varz_complete:
  assumes "map_order order" and "stats env order fl t now b http cs w = ((cs', w'), st)"
  shows "(\<exists>cells ss askeds. mset cells = mset (map snd (bn_cells b)) \<and> bs_NATS st = sort_key ns_Name ss \<and>
      w' = w @ concat askeds \<and> length ss = length cells \<and> length askeds = length cells \<and>
      (\<forall>i < length cells. reported (cells ! i) (ss ! i) (askeds ! i))) \<and>
    sorted (map ns_Name (bs_NATS st)) \<and>
    mset (map ns_Name (bs_NATS st)) = mset (map (displayName \<circ> snd) (bn_cells b)) \<and>
    bs_Connections st = map (\<lambda>c. filled_in fl (k_stats (n_base c))) cs \<and>
    bs_RequestCount st = sum_list (map (\<lambda>c. st_RequestCount (h_stats (k_stats (n_base c)))) cs)"
proof -
  let ?cells = "map snd (order (bn_cells b))"
  obtain w1 ss where ss: "cells_stats env ?cells w = (w1, ss)" by (metis surj_pair)
  obtain cs1 connections where cn: "connectors_stats fl cs = (cs1, connections)" by (metis surj_pair)
  have st: "bs_NATS st = sort_key ns_Name ss" "bs_Connections st = connections" "w' = w1"
      "bs_RequestCount st = fold (\<lambda>s n. n + st_RequestCount s) connections 0"
    using assms(2) ss cn by (auto simp: stats_def natsConnectionStats_def)
  have perm: "mset ?cells = mset (map snd (bn_cells b))" using map_order.order_perm [OF assms(1)] by (simp add: mset_map)
  obtain askeds where r: "w1 = w @ concat askeds" "length ss = length ?cells" "length askeds = length ?cells"
      "\<forall>i < length ?cells. reported (?cells ! i) (ss ! i) (askeds ! i)"
    using cells_stats_reported [OF ss] by blast
  have "mset (map ns_Name (sort_key ns_Name ss)) = mset (map ns_Name ss)" by (simp only: mset_map mset_sort)
  also have "\<dots> = image_mset displayName (mset ?cells)" using reported_names [OF r(2,4)] by (simp only: mset_map)
  finally have names: "mset (map ns_Name (bs_NATS st)) = mset (map (displayName \<circ> snd) (bn_cells b))"
    using st(1) map_order.order_perm [OF assms(1)] by (simp add: mset_map multiset.map_comp)
  have conns: "connections = map (\<lambda>c. filled_in fl (k_stats (n_base c))) cs" using connectors_stats_entries [OF cn] by simp
  have sum: "bs_RequestCount st = sum_list (map (\<lambda>c. st_RequestCount (h_stats (k_stats (n_base c)))) cs)"
    using st(4) conns by (simp add: fold_add filled_in_def comp_def)
  show ?thesis
    by (intro conjI exI [of _ ?cells] exI [of _ ss] exI [of _ askeds]) (use perm st r names conns sum in simp_all)
qed

theorem varz_complete_witness:
  "\<exists>cs' w' st. stats calm_env (\<lambda>m. m) fl64 0 10 demo_conns [] [demo_connector] [] = ((cs', w'), st) \<and>
    map ns_Name (bs_NATS st) = [''default''] \<and>
    map st_ID (bs_Connections st) = [''i''] \<and> bs_RequestCount st = 0"
proof -
  obtain cs' w' st where run: "stats calm_env (\<lambda>m. m) fl64 0 10 demo_conns [] [demo_connector] [] = ((cs', w'), st)"
    by (metis surj_pair)
  from varz_complete [OF insertion_order.map_order_axioms run]
  have "mset (map ns_Name (bs_NATS st)) = {#''default''#}" "map st_ID (bs_Connections st) = [''i'']" "bs_RequestCount st = 0"
    by (simp_all add: demo_conns_def displayName_def zero_config_defs demo_connector_def demo_conn_def filled_in_def NewConnectorStatsHolder_def)
  moreover from this have "map ns_Name (bs_NATS st) = [''default'']" by (simp only: mset_single_iff)
  ultimately show ?thesis using run by (intro exI conjI)
qed

text \<open>The monitoring ports are exclusive and the secure one needs its key: the server opens a port exactly
  when one of the two is configured and, for the secure one, certificate and key are given and can be
  loaded; otherwise nothing is opened, and a configuration with both ports is refused.\<close>

theorem monitoring_port_rules:
  assumes "startMonitoring env io addr_port config mo w = ((mo', w'), r)"
  shows "(http_HTTPPort config \<noteq> 0 \<and> http_HTTPSPort config \<noteq> 0 \<longrightarrow> r \<noteq> None \<and> w' = w \<and> mo' = mo) \<and>
    (http_HTTPPort config = 0 \<and> http_HTTPSPort config = 0 \<longrightarrow> r = None \<and> w' = w \<and> mo' = mo) \<and>
    (w' \<noteq> w \<longrightarrow> (\<exists>hp a. w' = w @ [(Listen hp (http_HTTPSPort config \<noteq> 0), a)]) \<and>
      (http_HTTPSPort config \<noteq> 0 \<longrightarrow> tls_Cert (http_TLS config) \<noteq> [] \<and> tls_Key (http_TLS config) \<noteq> []))"
  using assms
  by (auto simp: startMonitoring_def call_handle_def Let_def split: if_splits sum.splits)

theorem monitoring_port_rules_witness:
  "\<exists>mo' w' r. startMonitoring calm_env no_files (\<lambda>_. 4222) (zero_HTTPConfig\<lparr>http_HTTPPort := -1\<rparr>)
      \<lparr>mo_httpReqStats = [], mo_listener = None, mo_http = None, mo_httpHandler = False, mo_url = []\<rparr> [] = ((mo', w'), r) \<and>
    (w' \<noteq> [] \<longrightarrow> (\<exists>hp a. w' = [] @ [(Listen hp (http_HTTPSPort (zero_HTTPConfig\<lparr>http_HTTPPort := -1\<rparr>) \<noteq> 0), a)]))"
proof -
  obtain mo' w' r where run: "startMonitoring calm_env no_files (\<lambda>_. 4222) (zero_HTTPConfig\<lparr>http_HTTPPort := -1\<rparr>)
      \<lparr>mo_httpReqStats = [], mo_listener = None, mo_http = None, mo_httpHandler = False, mo_url = []\<rparr> [] = ((mo', w'), r)"
    by (metis surj_pair)
  from monitoring_port_rules [OF run] run show ?thesis by blast
qed

end
