(* ===== verification/Bridge.thy ===== *)
theory Bridge
  imports Monitoring
begin

text \<open>
  The bridge itself: \<^verbatim>\<open>server/core/server.go\<close>, the connection handlers of
  \<^verbatim>\<open>server/core/nats.go\<close> and the timer of \<^verbatim>\<open>server/core/reconnecttimer.go\<close>.

  The connectors are shared by pointer, so the bridge's list owns them and the reconnect queue holds
  references. A reference has the dynamic type of the interface value that was stored: \<open>Full i\<close> is the
  connector at position \<open>i\<close>, \<open>Base i\<close> is the \<^verbatim>\<open>BridgeConnector\<close> embedded in it, which is what the
  listener of a Kafka connector passes to \<^verbatim>\<open>ConnectorError\<close> (its receiver is a
  \<^verbatim>\<open>*BridgeConnector\<close>, and Go's embedding has no virtual dispatch).

  The goroutine of a reconnect timer is waiting until its interval has passed or it is cancelled, and
  then parked on the reconnect lock; both are kept as sets of timers. Logging is left out.
\<close>

section \<open>Definitions\<close>

datatype connref = Full (ref_index: nat) | Base (ref_index: nat)

record bridge =
  s_running :: bool
  s_startTime :: int
  s_config :: NATSKafkaBridgeConfig
  s_conns :: conns
  s_connectors :: "connector list"
  s_reconnect :: "(string, connref) gomap"
  s_timer :: "nat option"
  s_stopped :: bool
  s_waiting :: "nat list"
  s_parked :: "nat list"
  s_next :: nat
  s_monitor :: monitor
  s_history :: history

text \<open>What the bridge code is parametric in: the environment, the libraries and the orders of its maps.\<close>

record ('n, 'j, 'm) surroundings =
  y_env :: env
  y_ext :: "('n, 'j, 'm) ext"
  y_cell_order :: "(string, natsCell) gomap \<Rightarrow> (string \<times> natsCell) list"
  y_queue_order :: "(string, connref) gomap \<Rightarrow> (string \<times> connref) list"
  y_DefaultDiscoverPrefix :: string
  y_addr_port :: "nat \<Rightarrow> int"
  y_nuid :: "nat \<Rightarrow> string"

definition NewNATSKafkaBridge :: bridge where
  "NewNATSKafkaBridge = \<lparr>s_running = False, s_startTime = 0, s_config = DefaultBridgeConfig,
     s_conns = no_conns, s_connectors = [], s_reconnect = [], s_timer = None, s_stopped = False,
     s_waiting = [], s_parked = [], s_next = 0,
     s_monitor = \<lparr>mo_httpReqStats = [], mo_listener = None, mo_http = None, mo_httpHandler = False, mo_url = []\<rparr>,
     s_history = []\<rparr>"

definition checkRunning :: "bridge \<Rightarrow> bool" where
  "checkRunning s = s_running s"

text \<open>The methods of a connector reached through a reference.\<close>

definition conn_at :: "bridge \<Rightarrow> connref \<Rightarrow> connector" where
  "conn_at s r = s_connectors s ! ref_index r"

definition put_conn :: "connref \<Rightarrow> connector \<times> history \<Rightarrow> bridge \<Rightarrow> bridge" where
  "put_conn r p s = s\<lparr>s_connectors := (s_connectors s)[ref_index r := fst p], s_history := snd p\<rparr>"

definition ref_ID :: "bridge \<Rightarrow> connref \<Rightarrow> string" where
  "ref_ID s r = conn_ID (n_base (conn_at s r))"

definition ref_NATSConnection :: "bridge \<Rightarrow> connref \<Rightarrow> string" where
  "ref_NATSConnection s r = conn_NATSConnection (n_base (conn_at s r))"

fun ref_requiresStan :: "bridge \<Rightarrow> connref \<Rightarrow> bool" where
  "ref_requiresStan s (Full i) = requiresStan (n_kind (s_connectors s ! i))"
| "ref_requiresStan s (Base i) = False"

fun ref_Start :: "('n, 'j, 'm) surroundings \<Rightarrow> connref \<Rightarrow> bridge \<Rightarrow> bridge \<times> unit res" where
  "ref_Start y (Full i) s =
     (case Start (y_env y) (y_ext y) (s_config s) (s_conns s) (s_connectors s ! i) (s_history s) of
        (p, r) \<Rightarrow> (put_conn (Full i) p s, r))"
| "ref_Start y (Base i) s =
     (case base_Start (s_connectors s ! i) (s_history s) of (p, r) \<Rightarrow> (put_conn (Base i) p s, r))"

fun ref_Shutdown :: "('n, 'j, 'm) surroundings \<Rightarrow> connref \<Rightarrow> bridge \<Rightarrow> bridge \<times> unit res" where
  "ref_Shutdown y (Full i) s =
     (case Shutdown (y_env y) (y_ext y) (s_connectors s ! i) (s_history s) of
        (p, r) \<Rightarrow> (put_conn (Full i) p s, r))"
| "ref_Shutdown y (Base i) s =
     (case base_Shutdown (s_connectors s ! i) (s_history s) of (p, r) \<Rightarrow> (put_conn (Base i) p s, r))"

text \<open>The reconnect timer: a new one is armed unless one is armed already or the bridge was stopped.\<close>

definition ensureReconnectTimer :: "bridge \<Rightarrow> bridge" where
  "ensureReconnectTimer s =
     (if s_timer s \<noteq> None \<or> s_stopped s then s
      else s\<lparr>s_timer := Some (s_next s), s_waiting := s_next s # s_waiting s, s_next := Suc (s_next s)\<rparr>)"

definition stopReconnectTimer :: "bridge \<Rightarrow> bridge" where
  "stopReconnectTimer s =
     (let s = (case s_timer s of None \<Rightarrow> s | Some t \<Rightarrow> s\<lparr>s_waiting := removeAll t (s_waiting s)\<rparr>)
      in s\<lparr>s_timer := None, s_stopped := True\<rparr>)"

text \<open>Construction and start of the connectors.\<close>

fun create_connectors ::
  "('n, 'j, 'm) surroundings \<Rightarrow> ConnectorConfig list \<Rightarrow> bridge \<Rightarrow> bridge \<times> unit res" where
  "create_connectors y [] s = (s, Ret ())"
| "create_connectors y (c # cs) s =
     (case CreateConnector (y_ext y) (y_nuid y (length (s_connectors s))) c of
        Ret connector \<Rightarrow> create_connectors y cs (s\<lparr>s_connectors := s_connectors s @ [connector]\<rparr>)
      | Fail e \<Rightarrow> (s, Fail e)
      | Panic p \<Rightarrow> (s, Panic p))"

definition initializeConnectors :: "('n, 'j, 'm) surroundings \<Rightarrow> bridge \<Rightarrow> bridge \<times> unit res" where
  "initializeConnectors y s = create_connectors y (b_Connect (s_config s)) s"

definition enqueue :: "connref \<Rightarrow> bridge \<Rightarrow> bridge" where
  "enqueue r s = s\<lparr>s_reconnect := map_put (ref_ID s r) r (s_reconnect s)\<rparr>"

definition then_do :: "bridge \<times> unit res \<Rightarrow> (bridge \<Rightarrow> bridge \<times> unit res) \<Rightarrow> bridge \<times> unit res" where
  "then_do p f = (case p of (s, Ret _) \<Rightarrow> f s | (s, Fail e) \<Rightarrow> (s, Fail e) | (s, Panic q) \<Rightarrow> (s, Panic q))"

definition start_one :: "('n, 'j, 'm) surroundings \<Rightarrow> nat \<Rightarrow> bridge \<Rightarrow> bridge \<times> unit res" where
  "start_one y i s =
     (case ref_Start y (Full i) s of
        (s, Ret _) \<Rightarrow> (s, Ret ())
      | (s, Fail e) \<Rightarrow>
         (if ref_NATSConnection s (Full i) \<noteq> [] then (ensureReconnectTimer (enqueue (Full i) s), Ret ())
          else (s, Fail e))
      | (s, Panic p) \<Rightarrow> (s, Panic p))"

fun start_connectors :: "('n, 'j, 'm) surroundings \<Rightarrow> nat list \<Rightarrow> bridge \<Rightarrow> bridge \<times> unit res" where
  "start_connectors y [] s = (s, Ret ())"
| "start_connectors y (i # is) s = then_do (start_one y i s) (start_connectors y is)"

definition startConnectors :: "('n, 'j, 'm) surroundings \<Rightarrow> bridge \<Rightarrow> bridge \<times> unit res" where
  "startConnectors y s = start_connectors y [0..<length (s_connectors s)] s"

definition with_conns :: "(conns \<times> history) \<times> 'r \<Rightarrow> bridge \<Rightarrow> bridge \<times> 'r" where
  "with_conns p s = (case p of ((b, w), r) \<Rightarrow> (s\<lparr>s_conns := b, s_history := w\<rparr>, r))"

fun opt_res :: "goerr option \<Rightarrow> unit res" where
  "opt_res None = Ret ()"
| "opt_res (Some e) = Fail e"

definition start_init :: "int \<Rightarrow> bridge \<Rightarrow> bridge" where
  "start_init now s = s\<lparr>s_running := True, s_startTime := now, s_connectors := [], s_reconnect := [], s_stopped := False\<rparr>"

text \<open>\<open>Start\<close> has three parts: everything up to the construction of the connectors, their start, and the
  monitoring server. Reconnect timers may fire during the second.\<close>

definition start_connect :: "('n, 'j, 'm) surroundings \<Rightarrow> int \<Rightarrow> bridge \<Rightarrow> bridge \<times> unit res" where
  "start_connect y now s =
     (let s = start_init now s;
          validate = (\<lambda>s. case ValidateNATSClusters (s_config s) of (cfg, e) \<Rightarrow> (s\<lparr>s_config := cfg\<rparr>, opt_res e));
          nats = (\<lambda>s. with_conns (case connectToNATS (y_env y) (y_cell_order y) (s_running s) (s_config s)
                       (s_conns s) (s_history s) of (p, e) \<Rightarrow> (p, opt_res e)) s);
          stan = (\<lambda>s. with_conns (case connectToSTAN (y_env y) (y_DefaultDiscoverPrefix y) (s_config s)
                       (s_conns s) (s_history s) of (p, e) \<Rightarrow> (p, opt_res e)) s);
          js = (\<lambda>s. with_conns (connectToJetStream (y_env y) (y_cell_order y) (s_config s) (s_conns s) (s_history s)) s)
      in then_do (validate s) (\<lambda>s. then_do (nats s) (\<lambda>s. then_do (stan s) (\<lambda>s. then_do (js s) (initializeConnectors y)))))"

definition start_monitor :: "('n, 'j, 'm) surroundings \<Rightarrow> bridge \<Rightarrow> bridge \<times> unit res" where
  "start_monitor y s =
     (case startMonitoring (y_env y) (x_io (y_ext y)) (y_addr_port y) (b_Monitoring (s_config s))
             (s_monitor s) (s_history s) of
        ((mo, w), e) \<Rightarrow> (s\<lparr>s_monitor := mo, s_history := w\<rparr>, opt_res e))"

definition bridge_Start :: "('n, 'j, 'm) surroundings \<Rightarrow> int \<Rightarrow> bridge \<Rightarrow> bridge \<times> unit res" where
  "bridge_Start y now s =
     then_do (start_connect y now s) (\<lambda>s. then_do (startConnectors y s) (start_monitor y))"

text \<open>\<open>Stop\<close>: shut everything down in order; the errors are only logged.\<close>

definition stop_one :: "('n, 'j, 'm) surroundings \<Rightarrow> nat \<Rightarrow> bridge \<Rightarrow> bridge \<times> unit res" where
  "stop_one y i s =
     (case ref_Shutdown y (Full i) s of
        (s, Panic p) \<Rightarrow> (s, Panic p)
      | (s, _) \<Rightarrow> (s, Ret ()))"

fun shutdown_all :: "('n, 'j, 'm) surroundings \<Rightarrow> nat list \<Rightarrow> bridge \<Rightarrow> bridge \<times> unit res" where
  "shutdown_all y [] s = (s, Ret ())"
| "shutdown_all y (i # is) s = then_do (stop_one y i s) (shutdown_all y is)"

fun drain_all :: "env \<Rightarrow> natsCell list \<Rightarrow> history \<Rightarrow> history" where
  "drain_all env [] w = w"
| "drain_all env (cell # cells) w =
     drain_all env cells (case cell_nc cell of None \<Rightarrow> w | Some nc \<Rightarrow> fst (call_err env (NatsDrain nc) w))"

definition stop_timers :: "bridge \<Rightarrow> bridge" where
  "stop_timers s = stopReconnectTimer (s\<lparr>s_running := False\<rparr>)"

definition stop_clear :: "bridge \<Rightarrow> bridge" where
  "stop_clear s = s\<lparr>s_reconnect := []\<rparr>"

definition stop_close :: "('n, 'j, 'm) surroundings \<Rightarrow> bridge \<Rightarrow> bridge \<times> unit res" where
  "stop_close y s =
     (let w = (case bn_stan (s_conns s) of None \<Rightarrow> s_history s
                | Some sc \<Rightarrow> fst (call_err (y_env y) (StanClose sc) (s_history s)));
          w = drain_all (y_env y) (map snd (y_cell_order y (bn_cells (s_conns s)))) w
      in case StopMonitoring (y_env y) (s_monitor s) w of
           ((mo, w), _) \<Rightarrow> (s\<lparr>s_monitor := mo, s_history := w\<rparr>, Ret ()))"

definition stop_rest :: "('n, 'j, 'm) surroundings \<Rightarrow> bridge \<Rightarrow> bridge \<times> unit res" where
  "stop_rest y s = then_do (shutdown_all y [0..<length (s_connectors s)] (stop_clear s)) (stop_close y)"

text \<open>The reconnect lock is free after the first part, so a handler that passed the check may run between
  any two of the others.\<close>

definition Stop :: "('n, 'j, 'm) surroundings \<Rightarrow> bridge \<Rightarrow> bridge \<times> unit res" where
  "Stop y s = (if \<not> s_running s then (s, Ret ()) else stop_rest y (stop_timers s))"

definition FatalError :: "('n, 'j, 'm) surroundings \<Rightarrow> bridge \<Rightarrow> bridge \<times> unit res" where
  "FatalError y s = (case Stop y s of (s, Panic p) \<Rightarrow> (s, Panic p) | (s, _) \<Rightarrow> (s, Panic FatalExit))"

text \<open>What the bridge tells about itself.\<close>

definition SafeStats :: "('n, 'j, 'm) surroundings \<Rightarrow> int \<Rightarrow> bridge \<Rightarrow> bridge \<times> BridgeStats" where
  "SafeStats y now s =
     (case stats (y_env y) (y_cell_order y) (x_fl (y_ext y)) (s_startTime s) now (s_conns s)
             (mo_httpReqStats (s_monitor s)) (s_connectors s) (s_history s) of
        ((cs, w), st) \<Rightarrow> (s\<lparr>s_connectors := cs, s_history := w\<rparr>, st))"

definition GetMonitoringRootURL :: "bridge \<Rightarrow> string" where
  "GetMonitoringRootURL s = mo_url (s_monitor s)"

section \<open>Errors and lost connections\<close>

text \<open>
  The handlers first look whether the bridge runs, release that lock, and take the reconnect lock for
  the rest. Each is given here as what it does under the reconnect lock; the check is part of the step
  relation below.
\<close>

definition ConnectorError :: "('n, 'j, 'm) surroundings \<Rightarrow> connref \<Rightarrow> bridge \<Rightarrow> bridge \<times> unit res" where
  "ConnectorError y r s =
     (if ref_ID s r \<in> keys (s_reconnect s) then (s, Ret ())
      else case ref_Shutdown y r s of
        (s, Panic p) \<Rightarrow> (s, Panic p)
      | (s, _) \<Rightarrow> (ensureReconnectTimer (enqueue r s), Ret ()))"

fun check_connectors :: "('n, 'j, 'm) surroundings \<Rightarrow> nat list \<Rightarrow> bridge \<Rightarrow> bridge \<times> unit res" where
  "check_connectors y [] s = (s, Ret ())"
| "check_connectors y (i # is) s =
     (if ref_ID s (Full i) \<in> keys (s_reconnect s) then check_connectors y is s
      else case CheckConnections (y_env y) (s_conns s) (s_connectors s ! i) (s_history s) of
        (w, None) \<Rightarrow> check_connectors y is (s\<lparr>s_history := w\<rparr>)
      | (w, Some e) \<Rightarrow>
         (case ref_Shutdown y (Full i) (s\<lparr>s_history := w\<rparr>) of
            (s, Panic p) \<Rightarrow> (s, Panic p)
          | (s, _) \<Rightarrow> check_connectors y is (enqueue (Full i) s)))"

definition checkConnections :: "('n, 'j, 'm) surroundings \<Rightarrow> bridge \<Rightarrow> bridge \<times> unit res" where
  "checkConnections y s =
     then_do (check_connectors y [0..<length (s_connectors s)] s) (\<lambda>s. (ensureReconnectTimer s, Ret ()))"

definition stanConnectionLost :: "bridge \<Rightarrow> bridge" where
  "stanConnectionLost s = s\<lparr>s_conns := (s_conns s)\<lparr>bn_stan := None\<rparr>\<rparr>"

text \<open>\<open>natsClosed\<close>: for the default cluster the bridge is stopped and the process exits, for a named
  one the connectors are checked.\<close>

datatype closed_action = StopAndExit | RecheckConnectors

definition natsClosed :: "natsCell \<Rightarrow> closed_action" where
  "natsClosed cell = (if nats_Name (cell_config cell) = [] then StopAndExit else RecheckConnectors)"

section \<open>The reconnect pass\<close>

text \<open>
  What a timer's goroutine does under the reconnect lock: re-establish streaming, re-dial every cluster
  of the queue once, and restart the connectors whose cluster is healthy.
\<close>

definition pass_stan :: "('n, 'j, 'm) surroundings \<Rightarrow> bridge \<Rightarrow> bridge" where
  "pass_stan y s =
     (if Stan (s_conns s) \<noteq> None then s
      else case CheckNATSFor (y_env y) [] (s_conns s) (s_history s) of
        (w, False) \<Rightarrow> s\<lparr>s_history := w\<rparr>
      | (w, True) \<Rightarrow>
          fst (with_conns (connectToSTAN (y_env y) (y_DefaultDiscoverPrefix y) (s_config s) (s_conns s) w) s))"

fun redial_all ::
  "('n, 'j, 'm) surroundings \<Rightarrow> (string \<times> connref) list \<Rightarrow> (string, goerr option) gomap \<Rightarrow> bridge \<Rightarrow>
   bridge \<times> (string, goerr option) gomap res" where
  "redial_all y [] redialed s = (s, Ret redialed)"
| "redial_all y ((ident, r) # rest) redialed s =
     (let cluster = ref_NATSConnection s r in
      if cluster \<in> keys redialed then redial_all y rest redialed s
      else case with_conns (redialCell (y_env y) (s_config s) cluster (s_conns s) (s_history s)) s of
        (s, Panic p) \<Rightarrow> (s, Panic p)
      | (s, Fail e) \<Rightarrow> redial_all y rest (map_put cluster (Some e) redialed) s
      | (s, Ret _) \<Rightarrow> redial_all y rest (map_put cluster None redialed) s)"

text \<open>One connector of the queue: whether it may be started now, and the start.\<close>

definition may_start ::
  "('n, 'j, 'm) surroundings \<Rightarrow> (string, goerr option) gomap \<Rightarrow> connref \<Rightarrow> bridge \<Rightarrow> bridge \<times> bool" where
  "may_start y redialed r s =
     (let cluster = ref_NATSConnection s r in
      if map_get None redialed cluster \<noteq> None then (s, False)
      else case CheckNATSFor (y_env y) cluster (s_conns s) (s_history s) of
        (w, False) \<Rightarrow> (s\<lparr>s_history := w\<rparr>, False)
      | (w, True) \<Rightarrow>
         (if ref_requiresStan s r then
            (case CheckStan (y_env y) (s_conns s) w of (w, ok) \<Rightarrow> (s\<lparr>s_history := w\<rparr>, ok))
          else (s\<lparr>s_history := w\<rparr>, True)))"

fun restart_all ::
  "('n, 'j, 'm) surroundings \<Rightarrow> (string, goerr option) gomap \<Rightarrow> (string \<times> connref) list \<Rightarrow> bridge \<Rightarrow> bridge \<times> unit res" where
  "restart_all y redialed [] s = (s, Ret ())"
| "restart_all y redialed ((ident, r) # rest) s =
     (case may_start y redialed r s of
        (s, False) \<Rightarrow> restart_all y redialed rest s
      | (s, True) \<Rightarrow>
         (case ref_Start y r s of
            (s, Panic p) \<Rightarrow> (s, Panic p)
          | (s, Fail e) \<Rightarrow> restart_all y redialed rest s
          | (s, Ret _) \<Rightarrow> restart_all y redialed rest (s\<lparr>s_reconnect := map_del ident (s_reconnect s)\<rparr>)))"

definition stanNeeded :: "bridge \<Rightarrow> bool" where
  "stanNeeded s \<longleftrightarrow> stan_ClusterID (b_STAN (s_config s)) \<noteq> [] \<and> Stan (s_conns s) = None"

definition rearm :: "bridge \<Rightarrow> bridge" where
  "rearm s =
     (let s = s\<lparr>s_timer := None\<rparr> in
      if s_reconnect s \<noteq> [] \<or> stanNeeded s then ensureReconnectTimer s else s)"

definition reconnect_pass :: "('n, 'j, 'm) surroundings \<Rightarrow> bridge \<Rightarrow> bridge \<times> unit res" where
  "reconnect_pass y s =
     (if s_stopped s then (s\<lparr>s_timer := None\<rparr>, Ret ())
      else
        let s = pass_stan y s in
        case redial_all y (y_queue_order y (s_reconnect s)) [] s of
          (s, Panic p) \<Rightarrow> (s, Panic p)
        | (s, Fail e) \<Rightarrow> (s, Fail e)
        | (s, Ret redialed) \<Rightarrow>
            then_do (restart_all y redialed (y_queue_order y (s_reconnect s)) s) (\<lambda>s. (rearm s, Ret ())))"

end
