(* ===== verification/BridgeSteps.thy ===== *)
theory BridgeSteps
  imports Bridge
begin

text \<open>
  What each operation of the bridge does to its connectors and to the reconnect queue: starting and
  shutting down through a reference, the handlers, the reconnect pass and the start loop.
\<close>

lemma then_do_Ret: "then_do p f = (s, Ret ()) \<longleftrightarrow> (\<exists>m. p = (m, Ret ()) \<and> f m = (s, Ret ()))"
  by (auto simp: then_do_def split: prod.splits res.splits)

text \<open>One turn of the start loop and of the shutdown loop.\<close>

lemma start_connectors_Cons [simp]:
  "start_connectors y (i # is) s =
     (case ref_Start y (Full i) s of
        (s, Ret _) \<Rightarrow> start_connectors y is s
      | (s, Fail e) \<Rightarrow>
         (if ref_NATSConnection s (Full i) \<noteq> []
          then start_connectors y is (ensureReconnectTimer (enqueue (Full i) s))
          else (s, Fail e))
      | (s, Panic p) \<Rightarrow> (s, Panic p))"
  by (simp add: then_do_def start_one_def split: prod.splits res.splits)

lemma shutdown_all_Cons [simp]:
  "shutdown_all y (i # is) s =
     (case ref_Shutdown y (Full i) s of
        (s, Panic p) \<Rightarrow> (s, Panic p)
      | (s, _) \<Rightarrow> shutdown_all y is s)"
  by (simp add: then_do_def stop_one_def split: prod.splits res.splits)

declare start_connectors.simps(2) [simp del] shutdown_all.simps(2) [simp del]

section \<open>Connectors reached through a reference\<close>

abbreviation slots :: "bridge \<Rightarrow> nat" where
  "slots s \<equiv> length (s_connectors s)"

abbreviation id_at :: "bridge \<Rightarrow> nat \<Rightarrow> string" where
  "id_at s i \<equiv> conn_ID (n_base (s_connectors s ! i))"

text \<open>\<open>evolves\<close>: only the connectors and the history changed, and every connector kept its identity.\<close>

definition evolves :: "bridge \<Rightarrow> bridge \<Rightarrow> bool" where
  "evolves s s' \<longleftrightarrow> (\<exists>cs w. s' = s\<lparr>s_connectors := cs, s_history := w\<rparr>) \<and> slots s' = slots s \<and>
     (\<forall>i < slots s. same_identity (s_connectors s ! i) (s_connectors s' ! i))"

lemma evolves_refl [simp, intro]: "evolves s s"
  unfolding evolves_def by (rule conjI, rule exI [of _ "s_connectors s"], rule exI [of _ "s_history s"]) simp_all

lemma evolves_sel:
  assumes "evolves s s'"
  shows "s_running s' = s_running s" "s_config s' = s_config s" "s_conns s' = s_conns s" "s_reconnect s' = s_reconnect s"
    "s_timer s' = s_timer s" "s_stopped s' = s_stopped s" "s_waiting s' = s_waiting s" "s_parked s' = s_parked s"
    "s_next s' = s_next s" "s_monitor s' = s_monitor s" "slots s' = slots s"
  using assms by (auto simp: evolves_def)

lemma same_identity_trans: "same_identity a b \<Longrightarrow> same_identity b c \<Longrightarrow> same_identity a c"
  by (simp add: same_identity_def)

lemma evolves_trans [trans]: "evolves a b \<Longrightarrow> evolves b c \<Longrightarrow> evolves a c"
  unfolding evolves_def by (auto intro: same_identity_trans) blast

lemma evolves_same: "evolves s s' \<Longrightarrow> i < slots s \<Longrightarrow> same_identity (s_connectors s ! i) (s_connectors s' ! i)"
  by (simp add: evolves_def)

lemma evolves_id: "evolves s s' \<Longrightarrow> i < slots s \<Longrightarrow> id_at s' i = id_at s i"
  by (simp add: evolves_def same_identity_def)

lemma evolves_put:
  "i < slots s \<Longrightarrow> same_identity (s_connectors s ! i) c \<Longrightarrow> ref_index r = i \<Longrightarrow> evolves s (put_conn r (c, w) s)"
  by (auto simp: evolves_def put_conn_def nth_list_update)

lemma evolves_history [simp]: "evolves s (s\<lparr>s_history := w\<rparr>)"
  unfolding evolves_def by (rule conjI, rule exI [of _ "s_connectors s"], rule exI [of _ w]) simp_all

lemma ref_Start_spec:
  assumes "ref_Start y r s = (s', q)" and "ref_index r < slots s"
  shows "evolves s s' \<and> (\<forall>i < slots s. i \<noteq> ref_index r \<longrightarrow> s_connectors s' ! i = s_connectors s ! i) \<and>
    (case r of Full i \<Rightarrow> start_law (s_connectors s ! i) (s_connectors s' ! i) q
     | Base i \<Rightarrow> s_connectors s' = s_connectors s \<and> s_history s' = s_history s \<and> q = Ret ())"
proof (cases r)
  case (Full i)
  obtain c w where run: "Start (y_env y) (y_ext y) (s_config s) (s_conns s) (s_connectors s ! i) (s_history s) = ((c, w), q)"
    and s': "s' = put_conn (Full i) (c, w) s"
    using assms(1) Full by (auto split: prod.splits)
  have law: "start_law (s_connectors s ! i) c q" by (rule any.starts [OF TrueI run])
  then show ?thesis using s' Full assms(2) evolves_put [of i s c r w]
    by (simp add: start_law_def put_conn_def)
next
  case (Base i)
  then have "s' = s" "q = Ret ()" using assms(1) by (simp_all add: base_Start_def put_conn_def)
  then show ?thesis using Base by simp
qed

lemma ref_Shutdown_spec:
  assumes "ref_Shutdown y r s = (s', q)" and "ref_index r < slots s"
  shows "evolves s s' \<and> (\<forall>i < slots s. i \<noteq> ref_index r \<longrightarrow> s_connectors s' ! i = s_connectors s ! i) \<and>
    (case r of Full i \<Rightarrow> shutdown_law (s_connectors s ! i) (s_connectors s' ! i) q
     | Base i \<Rightarrow> s_connectors s' = s_connectors s \<and> s_history s' = s_history s \<and> q = Ret ())"
proof (cases r)
  case (Full i)
  obtain c w where run: "Shutdown (y_env y) (y_ext y) (s_connectors s ! i) (s_history s) = ((c, w), q)"
    and s': "s' = put_conn (Full i) (c, w) s"
    using assms(1) Full by (auto split: prod.splits)
  have law: "shutdown_law (s_connectors s ! i) c q" by (rule any.shuts_down [OF TrueI run])
  then show ?thesis using s' Full assms(2) evolves_put [of i s c r w]
    by (simp add: shutdown_law_def put_conn_def)
next
  case (Base i)
  then have "s' = s" "q = Ret ()" using assms(1) by (simp_all add: base_Shutdown_def put_conn_def)
  then show ?thesis using Base by simp
qed

section \<open>No connector is forgotten\<close>

text \<open>
  The invariant of the queue. Its keys are the identifiers of the connectors it refers to, and, with
  distinct identifiers, a connector that neither works nor is stranded is queued under its identifier
  as itself, and not as its embedded base connector. What is queued as itself is down.
\<close>

definition queue_wf :: "bridge \<Rightarrow> bool" where
  "queue_wf s \<longleftrightarrow> map_wf (s_reconnect s) \<and> (\<forall>(k, r) \<in> set (s_reconnect s). ref_index r < slots s \<and> k = id_at s (ref_index r))"

definition covered_but :: "nat set \<Rightarrow> bridge \<Rightarrow> bool" where
  "covered_but I s \<longleftrightarrow>
     (\<forall>i < slots s. i \<notin> I \<longrightarrow> held (s_connectors s ! i) \<or> map_of (s_reconnect s) (id_at s i) = Some (Full i))"

definition queue_idle :: "bridge \<Rightarrow> bool" where
  "queue_idle s \<longleftrightarrow> (\<forall>(k, r) \<in> set (s_reconnect s). \<forall>i. r = Full i \<longrightarrow> \<not> up (s_connectors s ! i))"

definition distinct_ids :: "bridge \<Rightarrow> bool" where
  "distinct_ids s \<longleftrightarrow> (\<forall>i < slots s. \<forall>j < slots s. id_at s i = id_at s j \<longrightarrow> i = j)"

text \<open>While \<open>Start\<close> has not come to the connectors in \<open>I\<close> yet, these are not queued.\<close>

definition cared_but :: "nat set \<Rightarrow> bridge \<Rightarrow> bool" where
  "cared_but I s \<longleftrightarrow> queue_wf s \<and> distinct_ids s \<and> covered_but I s \<and> queue_idle s \<and> (\<forall>(k, r) \<in> set (s_reconnect s). ref_index r \<notin> I)"

abbreviation covered :: "bridge \<Rightarrow> bool" where
  "covered \<equiv> covered_but {}"

definition cared_for :: "bridge \<Rightarrow> bool" where
  "cared_for s \<longleftrightarrow> queue_wf s \<and> distinct_ids s \<and> covered s \<and> queue_idle s"

lemmas covered_def = covered_but_def [of "{}"]

lemma cared_but_empty [simp]: "cared_but {} s \<longleftrightarrow> cared_for s"
  by (auto simp: cared_but_def cared_for_def)

lemma map_of_del: "map_of (map_del k m) k' = (if k' = k then None else map_of m k')"
  by (simp add: delete_conv')

lemma set_del_subset: "set (map_del k m) \<subseteq> set m"
  by (auto simp: AList.delete_eq)

lemma queue_wf_evolves: "queue_wf s \<Longrightarrow> evolves s s' \<Longrightarrow> queue_wf s'"
  using evolves_id [of s s'] evolves_sel(4,11) [of s s'] by (auto simp: queue_wf_def split: prod.splits)

lemma queue_wf_sel: "s_connectors s' = s_connectors s \<Longrightarrow> s_reconnect s' = s_reconnect s \<Longrightarrow> queue_wf s' = queue_wf s"
  by (simp add: queue_wf_def)

lemma queue_wf_del: "queue_wf s \<Longrightarrow> queue_wf (s\<lparr>s_reconnect := map_del k (s_reconnect s)\<rparr>)"
  using set_del_subset [of k "s_reconnect s"] by (auto simp: queue_wf_def)

text \<open>A connector looks the same when it is as up, as working and as stranded as before.\<close>

definition looks_same :: "connector \<Rightarrow> connector \<Rightarrow> bool" where
  "looks_same c c' \<longleftrightarrow> up c' = up c \<and> works c' = works c \<and> stranded c' = stranded c"

lemma looks_same_refl [simp, intro]: "looks_same c c"
  by (simp add: looks_same_def)

lemma looks_same_trans: "looks_same a b \<Longrightarrow> looks_same b c \<Longrightarrow> looks_same a c"
  by (simp add: looks_same_def)

lemma start_law_fail: "start_law c c' q \<Longrightarrow> q \<noteq> Ret () \<Longrightarrow> looks_same c c'"
  by (simp add: start_law_def looks_same_def works_def stranded_def same_identity_def)

lemma start_law_works: "start_law c c' (Ret ()) \<Longrightarrow> works c'"
  by (simp add: start_law_def)

lemma queue_wf_index: "queue_wf s \<Longrightarrow> (k, r) \<in> set (s_reconnect s) \<Longrightarrow> ref_index r < slots s"
  by (auto simp: queue_wf_def)

lemma cared_but_evolves:
  assumes care: "cared_but I s" and ev: "evolves s s'"
    and same: "\<And>i. i < slots s \<Longrightarrow> up (s_connectors s' ! i) = up (s_connectors s ! i) \<and> held (s_connectors s' ! i) = held (s_connectors s ! i)"
  shows "cared_but I s'"
proof -
  note sel = evolves_sel [OF ev] and ids = evolves_id [OF ev]
  have "queue_wf s'" using care queue_wf_evolves [OF _ ev] by (simp add: cared_but_def)
  moreover have "queue_idle s'"
    using care same sel(4) queue_wf_index [of s] by (fastforce simp: cared_but_def queue_idle_def)
  moreover have "covered_but I s'" unfolding covered_but_def sel(4,11)
    using care same ids by (auto simp: cared_but_def covered_but_def)
  moreover have "distinct_ids s'" using care sel(11) ids by (simp add: cared_but_def distinct_ids_def)
  ultimately show ?thesis using care sel(4) by (simp add: cared_but_def)
qed

lemma cared_but_sel:
  assumes "s_connectors s' = s_connectors s" "s_reconnect s' = s_reconnect s"
  shows "cared_but I s' = cared_but I s"
  using assms by (simp add: cared_but_def queue_wf_def covered_but_def distinct_ids_def queue_idle_def)

lemma cared_for_sel:
  assumes "s_connectors s' = s_connectors s" "s_reconnect s' = s_reconnect s"
  shows "cared_for s' = cared_for s"
  using cared_but_sel [OF assms, of "{}"] by simp

text \<open>Starting a queued connector and taking it off the queue.\<close>

lemma start_law_up: "start_law c c' q \<Longrightarrow> up c \<Longrightarrow> up c'"
  by (cases "q = Ret ()") (auto simp: start_law_def)

lemma cared_but_failed:
  assumes care: "cared_but I s" and "ref_Start y r s = (s', q)" and ri: "ref_index r < slots s" and "q \<noteq> Ret ()"
  shows "cared_but I s' \<and> evolves s s'"
proof -
  note sp = ref_Start_spec [OF assms(2,3)]
  have "looks_same (s_connectors s ! i) (s_connectors s' ! i)" if "i < slots s" for i
    using sp that assms(4) by (cases "i = ref_index r"; cases r) (auto dest: start_law_fail)
  then show ?thesis using sp cared_but_evolves [OF care] by (auto simp: looks_same_def)
qed

lemma cared_but_started:
  assumes care: "cared_but I s" and run: "ref_Start y r s = (s', Ret ())" and e: "map_of (s_reconnect s) k = Some r"
  shows "cared_but I (s'\<lparr>s_reconnect := map_del k (s_reconnect s')\<rparr>)" (is "cared_but I ?n") and "evolves s s'"
proof -
  have kr: "k = id_at s (ref_index r)" "ref_index r < slots s" "ref_index r \<notin> I"
    using care e by (auto simp: cared_but_def queue_wf_def dest: map_of_SomeD)
  note sp = ref_Start_spec [OF run kr(2)]
  have ev: "evolves s s'" using sp by simp
  note sel = evolves_sel [OF ev] and ids = evolves_id [OF ev]
  have q: "s_reconnect ?n = map_del k (s_reconnect s)" "s_connectors ?n = s_connectors s'" using sel(4) by simp_all
  have wf: "queue_wf ?n" using care queue_wf_del [OF queue_wf_evolves [OF _ ev]] by (simp add: cared_but_def)
  have frame: "s_connectors s' ! i = s_connectors s ! i" if "i < slots s" "i \<noteq> ref_index r" for i using sp that by blast
  have self: "held (s_connectors s' ! ref_index r)"
  proof (cases r)
    case (Full i)
    then show ?thesis using sp start_law_works by auto
  next
    case (Base i)
    then show ?thesis using care kr e sp by (auto simp: cared_but_def covered_but_def)
  qed
  have "held (s_connectors s' ! i) \<or> map_of (map_del k (s_reconnect s)) (id_at s i) = Some (Full i)" if "i < slots s" "i \<notin> I" for i
    using care kr self frame [of i] that by (cases "i = ref_index r") (auto simp: cared_but_def covered_but_def distinct_ids_def map_of_del)
  then have "covered_but I ?n" unfolding covered_but_def q using sel(11) ids by simp
  moreover have "queue_idle ?n" unfolding queue_idle_def q
  proof (clarify)
    fix k' i assume m: "(k', Full i) \<in> set (map_del k (s_reconnect s))" and u: "up (s_connectors s' ! i)"
    then have m': "(k', Full i) \<in> set (s_reconnect s)" "k' \<noteq> k" by (auto simp: AList.delete_eq)
    then have "k' = id_at s i" "i < slots s" "\<not> up (s_connectors s ! i)" using care by (auto simp: cared_but_def queue_wf_def queue_idle_def)
    then show False using m' u kr(1) frame [of i] by (cases "i = ref_index r") auto
  qed
  moreover have "distinct_ids ?n" using care ids sel(11) by (simp add: cared_but_def distinct_ids_def)
  ultimately show "cared_but I ?n" using care wf set_del_subset [of k "s_reconnect s"] q(1) by (auto simp: cared_but_def)
  show "evolves s s'" by (rule ev)
qed

lemma set_put_subset: "x \<in> set (map_put k v m) \<Longrightarrow> x = (k, v) \<or> x \<in> set m"
  by (induction m) (auto split: if_splits)

text \<open>Shutting a connector down and queueing it.\<close>

lemma cared_for_enqueue:
  assumes care: "cared_for s" and "ref_Shutdown y r s = (s', q)" and ri: "ref_index r < slots s"
    and new: "ref_ID s r \<notin> keys (s_reconnect s)"
  shows "cared_for (enqueue r s') \<and> evolves s s'"
proof -
  note sp = ref_Shutdown_spec [OF assms(2,3)]
  have ev: "evolves s s'" using sp by simp
  note sel = evolves_sel [OF ev] and ids = evolves_id [OF ev]
  have key: "ref_ID s' r = id_at s (ref_index r)" using ids ri by (simp add: ref_ID_def conn_at_def)
  have q: "s_reconnect (enqueue r s') = map_put (id_at s (ref_index r)) r (s_reconnect s)" "s_connectors (enqueue r s') = s_connectors s'"
    using key sel(4) by (simp_all add: enqueue_def)
  have up_r: "held (s_connectors s ! ref_index r)"
    using care ri new by (auto simp: cared_for_def covered_def ref_ID_def conn_at_def map_of_keys [symmetric])
  have "held (s_connectors s' ! i) \<or> map_of (map_put (id_at s (ref_index r)) r (s_reconnect s)) (id_at s i) = Some (Full i)"
    if "i < slots s" for i
    using care that sp ri up_r
    by (cases r; cases "i = ref_index r") (auto simp: cared_for_def covered_def distinct_ids_def update_conv')
  then have "covered (enqueue r s')" unfolding covered_def q using ids sel(11) by simp
  moreover have down: "\<not> up (s_connectors s' ! i)" if "i < slots s" "\<not> up (s_connectors s ! i) \<or> r = Full i" for i
    using sp that by (cases r; cases "i = ref_index r") (auto simp: shutdown_law_def)
  have "queue_idle (enqueue r s')" unfolding queue_idle_def q
    using care down ri queue_wf_index [of s] by (force simp: cared_for_def queue_idle_def dest!: set_put_subset)
  moreover have "queue_wf (enqueue r s')"
    using care ids sel key ri by (auto simp: cared_for_def queue_wf_def enqueue_def dest!: set_put_subset)
  moreover have "distinct_ids (enqueue r s')"
    using care ids sel by (auto simp: cared_for_def distinct_ids_def enqueue_def)
  ultimately show ?thesis using ev by (simp add: cared_for_def)
qed

section \<open>The handlers and the pass\<close>

text \<open>\<open>requeues\<close>: as \<open>evolves\<close>, but the queue may have changed as well; \<open>reconnects\<close>: only the connections
  and the history did.\<close>

definition requeues :: "bridge \<Rightarrow> bridge \<Rightarrow> bool" where
  "requeues s s' \<longleftrightarrow> (\<exists>m q. evolves s m \<and> s' = m\<lparr>s_reconnect := q\<rparr>)"

definition reconnects :: "bridge \<Rightarrow> bridge \<Rightarrow> bool" where
  "reconnects s s' \<longleftrightarrow> (\<exists>b w. s' = s\<lparr>s_conns := b, s_history := w\<rparr>)"

lemma requeues_sel:
  assumes "requeues s s'"
  shows "s_running s' = s_running s" "s_config s' = s_config s" "s_conns s' = s_conns s"
    "s_timer s' = s_timer s" "s_stopped s' = s_stopped s" "s_waiting s' = s_waiting s" "s_parked s' = s_parked s"
    "s_next s' = s_next s" "slots s' = slots s"
  using assms evolves_sel by (auto simp: requeues_def)

lemma evolves_requeues: "evolves s m \<Longrightarrow> requeues s (m\<lparr>s_reconnect := q\<rparr>)"
  by (auto simp: requeues_def)

lemma requeues_refl [simp, intro]: "requeues s s"
  unfolding requeues_def by (rule exI [of _ s], rule exI [of _ "s_reconnect s"]) simp

lemma evolves_set_queue: "evolves (s\<lparr>s_reconnect := q\<rparr>) s' \<Longrightarrow> evolves s (s'\<lparr>s_reconnect := s_reconnect s\<rparr>)"
  by (auto simp: evolves_def) blast

lemma requeues_trans [trans]: "requeues a b \<Longrightarrow> requeues b c \<Longrightarrow> requeues a c"
  unfolding requeues_def
proof (elim exE conjE)
  fix m q m' q' assume *: "evolves a m" "b = m\<lparr>s_reconnect := q\<rparr>" "evolves b m'" "c = m'\<lparr>s_reconnect := q'\<rparr>"
  then have "evolves a (m'\<lparr>s_reconnect := s_reconnect m\<rparr>)" "c = (m'\<lparr>s_reconnect := s_reconnect m\<rparr>)\<lparr>s_reconnect := q'\<rparr>"
    using evolves_set_queue [where s = m and q = q and s' = m'] evolves_trans by auto
  then show "\<exists>m q. evolves a m \<and> c = m\<lparr>s_reconnect := q\<rparr>" by blast
qed

lemma requeues_enqueue: "evolves s m \<Longrightarrow> requeues s (enqueue r m)"
  unfolding enqueue_def by (rule evolves_requeues)

lemma reconnects_sel:
  assumes "reconnects s s'"
  shows "s_running s' = s_running s" "s_config s' = s_config s" "s_connectors s' = s_connectors s" "s_reconnect s' = s_reconnect s"
    "s_timer s' = s_timer s" "s_stopped s' = s_stopped s" "s_waiting s' = s_waiting s" "s_parked s' = s_parked s"
    "s_next s' = s_next s"
  using assms by (auto simp: reconnects_def)

lemma reconnects_refl [simp, intro]: "reconnects s s"
  unfolding reconnects_def by (rule exI [of _ "s_conns s"], rule exI [of _ "s_history s"]) simp

lemma reconnects_trans [trans]: "reconnects a b \<Longrightarrow> reconnects b c \<Longrightarrow> reconnects a c"
  by (auto simp: reconnects_def) blast

lemma reconnects_history [simp]: "reconnects s (s\<lparr>s_history := w\<rparr>)"
  unfolding reconnects_def by (rule exI [of _ "s_conns s"], rule exI [of _ w]) simp

lemma with_conns_reconnects: "with_conns p s = (s', r) \<Longrightarrow> reconnects s s'"
  by (auto simp: with_conns_def reconnects_def split: prod.splits)

lemma ConnectorError_spec:
  assumes "ConnectorError y r s = (s', Ret ())" "cared_for s" "ref_index r < slots s"
  shows "s' = s \<or> (\<exists>m. requeues s m \<and> cared_for m \<and> s' = ensureReconnectTimer m)"
proof (cases "ref_ID s r \<in> keys (s_reconnect s)")
  case False
  obtain m q where m: "ref_Shutdown y r s = (m, q)" by (metis surj_pair)
  then have "s' = ensureReconnectTimer (enqueue r m)"
    using assms(1) False by (cases q) (auto simp: ConnectorError_def)
  then show ?thesis using cared_for_enqueue [OF assms(2) m assms(3) False] requeues_enqueue by blast
qed (use assms(1) in \<open>simp add: ConnectorError_def\<close>)

lemma check_connectors_spec:
  "check_connectors y is s = (s', Ret ()) \<Longrightarrow> cared_for s \<Longrightarrow> \<forall>i \<in> set is. i < slots s \<Longrightarrow>
   cared_for s' \<and> requeues s s'"
proof (induction "is" arbitrary: s)
  case (Cons i "is")
  show ?case
  proof (cases "ref_ID s (Full i) \<in> keys (s_reconnect s)")
    case False
    obtain w e where w: "CheckConnections (y_env y) (s_conns s) (s_connectors s ! i) (s_history s) = (w, e)" by (metis surj_pair)
    let ?s = "s\<lparr>s_history := w\<rparr>"
    have care: "cared_for ?s" using Cons.prems(2) cared_for_sel [of ?s s] by simp
    have rq: "requeues s ?s" using evolves_requeues [OF evolves_history [of s w], of "s_reconnect s"] by simp
    show ?thesis
    proof (cases e)
      case None
      then have "check_connectors y is ?s = (s', Ret ())" using Cons.prems(1) False w by simp
      then have "cared_for s' \<and> requeues ?s s'" using Cons.IH [OF _ care] Cons.prems(3) by simp
      then show ?thesis using requeues_trans [OF rq] by blast
    next
      case (Some e')
      obtain m q where m: "ref_Shutdown y (Full i) ?s = (m, q)" by (metis surj_pair)
      then have run: "check_connectors y is (enqueue (Full i) m) = (s', Ret ())"
        using Cons.prems(1) False w Some by (cases q) auto
      have new: "ref_ID ?s (Full i) \<notin> keys (s_reconnect ?s)" using False by (simp add: ref_ID_def conn_at_def)
      have c: "cared_for (enqueue (Full i) m)" and ev: "evolves ?s m"
        using cared_for_enqueue [OF care m _ new] Cons.prems(3) by auto
      have "requeues s (enqueue (Full i) m)" using requeues_trans [OF rq requeues_enqueue [OF ev]] .
      moreover from this have "\<forall>j \<in> set is. j < slots (enqueue (Full i) m)"
        using requeues_sel(9) Cons.prems(3) by fastforce
      ultimately show ?thesis using Cons.IH [OF run c] by (blast intro: requeues_trans)
    qed
  qed (use Cons in simp)
qed simp

lemma checkConnections_spec:
  assumes "checkConnections y s = (s', Ret ())" "cared_for s"
  shows "\<exists>m. requeues s m \<and> cared_for m \<and> s' = ensureReconnectTimer m"
proof -
  obtain m q where m: "check_connectors y [0..<slots s] s = (m, q)" by (metis surj_pair)
  then have "q = Ret ()" "s' = ensureReconnectTimer m"
    using assms(1) by (cases q; simp add: checkConnections_def then_do_def)+
  then show ?thesis using check_connectors_spec [of y "[0..<slots s]" s m] m assms(2) by auto
qed

lemma pass_stan_spec: "reconnects s (pass_stan y s)"
proof -
  have "reconnects s (fst (with_conns p s))" for p :: "(conns \<times> history) \<times> goerr option"
    using with_conns_reconnects [of p s] by (cases "with_conns p s") auto
  then show ?thesis by (auto simp: pass_stan_def split: prod.splits bool.splits)
qed

lemma redial_all_spec: "redial_all y es rd s = (s', r) \<Longrightarrow> reconnects s s'"
proof (induction y es rd s rule: redial_all.induct)
  case (2 y ident r rest rd s)
  let ?c = "ref_NATSConnection s r"
  obtain m q where m: "with_conns (redialCell (y_env y) (s_config s) ?c (s_conns s) (s_history s)) s = (m, q)"
    by (metis surj_pair)
  have "reconnects s m" by (rule with_conns_reconnects [OF m])
  then show ?case using 2 m
    by (cases "?c \<in> keys rd"; cases q) (auto simp: Let_def intro: reconnects_trans)
qed simp

lemma may_start_spec: "may_start y rd r s = (s', ok) \<Longrightarrow> \<exists>w. s' = s\<lparr>s_history := w\<rparr>"
proof -
  have "\<exists>w. s = s\<lparr>s_history := w\<rparr>" by (rule exI [of _ "s_history s"]) simp
  then show "may_start y rd r s = (s', ok) \<Longrightarrow> ?thesis"
    by (auto simp: may_start_def Let_def split: if_splits prod.splits bool.splits)
qed

text \<open>What every start of the loop and every removal from the queue keeps, the loop keeps.\<close>

lemma restart_all_keeps:
  assumes "restart_all y rd es s = (s', q)" "P s"
    and hist: "\<And>t w. P t \<Longrightarrow> P (t\<lparr>s_history := w\<rparr>)"
    and start: "\<And>t k r t' p. P t \<Longrightarrow> (k, r) \<in> set es \<Longrightarrow> ref_Start y r t = (t', p) \<Longrightarrow> P t'"
    and del: "\<And>t k. P t \<Longrightarrow> P (t\<lparr>s_reconnect := map_del k (s_reconnect t)\<rparr>)"
  shows "P s'"
  using assms(1,2) start
proof (induction es arbitrary: s)
  case (Cons e es)
  obtain k r where e: "e = (k, r)" by force
  obtain m ok where m: "may_start y rd r s = (m, ok)" by (metis surj_pair)
  then have pm: "P m" using may_start_spec hist [OF Cons.prems(2)] by fastforce
  obtain n p where n: "ref_Start y r m = (n, p)" by (metis surj_pair)
  have pn: "P n" using Cons.prems(3) [OF pm, of k r, OF _ n] e by simp
  have "s' = n \<or> (\<exists>t. restart_all y rd es t = (s', q) \<and> (t = m \<or> t = n \<or> t = n\<lparr>s_reconnect := map_del k (s_reconnect n)\<rparr>))"
    using Cons.prems(1) e m n by (cases ok; cases p) auto
  then show ?case
  proof
    assume "\<exists>t. restart_all y rd es t = (s', q) \<and> (t = m \<or> t = n \<or> t = n\<lparr>s_reconnect := map_del k (s_reconnect n)\<rparr>)"
    then obtain t where t: "restart_all y rd es t = (s', q)" "P t" using pm pn del by blast
    show ?thesis by (rule Cons.IH [OF t]) (erule Cons.prems(3) [OF _ list.set_intros(2)])
  qed (use pn in simp)
qed simp

lemma restart_all_requeues:
  assumes run: "restart_all y rd es s = (s', q)" and wf: "queue_wf s" and es: "\<forall>(k, r) \<in> set es. ref_index r < slots s"
  shows "requeues s s' \<and> queue_wf s'"
proof (rule restart_all_keeps [OF run, of "\<lambda>t. requeues s t \<and> queue_wf t"])
  fix t w assume t: "requeues s t \<and> queue_wf t"
  have "requeues t (t\<lparr>s_history := w\<rparr>)" using evolves_requeues [OF evolves_history [of t w], of "s_reconnect t"] by simp
  then show "requeues s (t\<lparr>s_history := w\<rparr>) \<and> queue_wf (t\<lparr>s_history := w\<rparr>)"
    using t requeues_trans queue_wf_sel [of "t\<lparr>s_history := w\<rparr>" t] by auto
next
  fix t k r t' p assume t: "requeues s t \<and> queue_wf t" and r: "(k, r) \<in> set es" "ref_Start y r t = (t', p)"
  then have "evolves t t'" using ref_Start_spec [OF r(2)] es requeues_sel(9) [of s t] by auto
  then show "requeues s t' \<and> queue_wf t'"
    using t queue_wf_evolves requeues_trans evolves_requeues [of t t' "s_reconnect t'"] by auto
next
  fix t k assume t: "requeues s t \<and> queue_wf t"
  then show "requeues s (t\<lparr>s_reconnect := map_del k (s_reconnect t)\<rparr>) \<and> queue_wf (t\<lparr>s_reconnect := map_del k (s_reconnect t)\<rparr>)"
    using queue_wf_del requeues_trans evolves_requeues [OF evolves_refl] by blast
qed (use wf in simp)

lemma restart_all_cared:
  "restart_all y rd es s = (s', Ret ()) \<Longrightarrow> cared_but I s \<Longrightarrow> distinct (map fst es) \<Longrightarrow>
   \<forall>(k, r) \<in> set es. map_of (s_reconnect s) k = Some r \<Longrightarrow> cared_but I s'"
proof (induction es arbitrary: s)
  case (Cons e es)
  obtain k r where e: "e = (k, r)" by force
  obtain m ok where m: "may_start y rd r s = (m, ok)" by (metis surj_pair)
  then obtain w where w: "m = s\<lparr>s_history := w\<rparr>" using may_start_spec by blast
  have care: "cared_but I m" using Cons.prems(2) cared_but_sel [of m s] w by simp
  have kr: "map_of (s_reconnect m) k = Some r" using Cons.prems(4) e w by simp
  then have ri: "ref_index r < slots m" using care by (auto simp: cared_but_def queue_wf_def dest: map_of_SomeD)
  have rest: "\<forall>(k, r) \<in> set es. map_of (s_reconnect m) k = Some r" using Cons.prems(4) w by auto
  obtain n q where n: "ref_Start y r m = (n, q)" by (metis surj_pair)
  consider (skip) "\<not> ok" | (fail) "ok" "\<exists>x. q = Fail x" | (started) "ok" "q = Ret ()"
    using Cons.prems(1) e m n by (cases ok; cases q) auto
  then show ?case
  proof cases
    case skip
    then have "restart_all y rd es m = (s', Ret ())" using Cons.prems(1) e m by simp
    then show ?thesis using Cons.IH [OF _ care] Cons.prems(3) rest by simp
  next
    case fail
    then have st: "cared_but I n" "s_reconnect n = s_reconnect m"
      using cared_but_failed [OF care n ri] evolves_sel(4) [of m n] by auto
    have "restart_all y rd es n = (s', Ret ())" using Cons.prems(1) e m n fail by auto
    then show ?thesis using Cons.IH [of n] st Cons.prems(3) rest by simp
  next
    case started
    let ?n = "n\<lparr>s_reconnect := map_del k (s_reconnect n)\<rparr>"
    have run: "restart_all y rd es ?n = (s', Ret ())" using Cons.prems(1) e m n started by simp
    note st = cared_but_started [OF care n [unfolded started(2)] kr]
    have "\<forall>(k', r') \<in> set es. map_of (s_reconnect ?n) k' = Some r'"
      using rest Cons.prems(3) e evolves_sel(4) [OF st(2)] by (force simp: map_of_del)
    then show ?thesis using Cons.IH [OF run st(1)] Cons.prems(3) by simp
  qed
qed simp

text \<open>A pass that ran: the connections it made, the connectors it restarted, and what the timer is armed for.\<close>

lemma reconnect_pass_parts:
  assumes run: "reconnect_pass y s = (s', Ret ())" and ns: "\<not> s_stopped s"
  obtains a rd m where "redial_all y (y_queue_order y (s_reconnect (pass_stan y s))) [] (pass_stan y s) = (a, Ret rd)"
    "reconnects s a" "restart_all y rd (y_queue_order y (s_reconnect a)) a = (m, Ret ())" "s' = rearm m"
proof -
  let ?a = "pass_stan y s"
  obtain b r where b: "redial_all y (y_queue_order y (s_reconnect ?a)) [] ?a = (b, r)" by (metis surj_pair)
  then obtain rd m q where r: "r = Ret rd" and m: "restart_all y rd (y_queue_order y (s_reconnect b)) b = (m, q)"
    using run ns by (cases r) (auto simp: reconnect_pass_def Let_def, metis surj_pair)
  have "q = Ret ()" "s' = rearm m" using run ns b r m by (cases q; simp add: reconnect_pass_def then_do_def)+
  then show thesis using that b r m reconnects_trans [OF pass_stan_spec redial_all_spec [OF b]] by blast
qed

lemma pass_queue:
  assumes run: "reconnect_pass y s = (s', Ret ())" and ns: "\<not> s_stopped s" and ord: "map_order (y_queue_order y)" and wf: "queue_wf s"
  shows "\<exists>a m rd. redial_all y (y_queue_order y (s_reconnect (pass_stan y s))) [] (pass_stan y s) = (a, Ret rd) \<and>
    reconnects s a \<and> restart_all y rd (y_queue_order y (s_reconnect a)) a = (m, Ret ()) \<and>
    (\<forall>(k, r) \<in> set (y_queue_order y (s_reconnect a)). ref_index r < slots a) \<and> requeues a m \<and> queue_wf m \<and> s' = rearm m"
proof -
  obtain a rd m where p: "redial_all y (y_queue_order y (s_reconnect (pass_stan y s))) [] (pass_stan y s) = (a, Ret rd)"
      "reconnects s a" "restart_all y rd (y_queue_order y (s_reconnect a)) a = (m, Ret ())" "s' = rearm m"
    using reconnect_pass_parts [OF run ns] .
  have a: "queue_wf a" using wf queue_wf_sel [of a s] reconnects_sel(3,4) [OF p(2)] by simp
  then have "\<forall>(k, r) \<in> set (y_queue_order y (s_reconnect a)). ref_index r < slots a"
    using map_order.set_order [OF ord] by (auto simp: queue_wf_def)
  then show ?thesis using p restart_all_requeues [OF p(3) a] by blast
qed

text \<open>What a pass does to a connector: nothing one could see, or it was down and works now. A connector that is
  not queued is not touched.\<close>

definition mended :: "bridge \<Rightarrow> bridge \<Rightarrow> bool" where
  "mended s s' \<longleftrightarrow> slots s' = slots s \<and>
     (\<forall>i < slots s. looks_same (s_connectors s ! i) (s_connectors s' ! i) \<or> \<not> up (s_connectors s ! i) \<and> works (s_connectors s' ! i))"

lemma mended_start:
  assumes t: "mended s t" and run: "ref_Start y r t = (t', p)" and r: "ref_index r < slots s" "\<forall>i. r = Full i \<longrightarrow> \<not> up (s_connectors s ! i)"
  shows "mended s t'"
proof -
  have rt: "ref_index r < slots t" using t r(1) by (simp add: mended_def)
  note sp = ref_Start_spec [OF run rt]
  have "looks_same (s_connectors s ! i) (s_connectors t' ! i) \<or> \<not> up (s_connectors s ! i) \<and> works (s_connectors t' ! i)" if i: "i < slots s" for i
  proof (cases "r = Full i")
    case True
    then have law: "start_law (s_connectors t ! i) (s_connectors t' ! i) p" using sp by simp
    show ?thesis
    proof (cases "p = Ret ()")
      case True
      then show ?thesis using law r(2) \<open>r = Full i\<close> start_law_works by blast
    next
      case False
      then have "looks_same (s_connectors t ! i) (s_connectors t' ! i)" by (rule start_law_fail [OF law])
      then show ?thesis using t i by (auto simp: mended_def looks_same_def)
    qed
  next
    case False
    then have "s_connectors t' ! i = s_connectors t ! i" using sp i t by (cases r) (auto simp: mended_def)
    then show ?thesis using t i by (simp add: mended_def)
  qed
  then show ?thesis using t sp evolves_sel(11) [of t t'] by (simp add: mended_def)
qed

lemma restart_all_mended:
  assumes "restart_all y rd es s = (s', q)"
    and es: "\<forall>(k, r) \<in> set es. ref_index r < slots s \<and> (\<forall>i. r = Full i \<longrightarrow> \<not> up (s_connectors s ! i))"
  shows "mended s s'"
proof (rule restart_all_keeps [OF assms(1), of "mended s"])
  fix t k r t' p assume "mended s t" "(k, r) \<in> set es" "ref_Start y r t = (t', p)"
  then show "mended s t'" using mended_start es by blast
qed (simp_all add: mended_def)

lemma restart_all_frame:
  assumes "restart_all y rd es s = (s', q)" and es: "\<forall>(k, r) \<in> set es. ref_index r < slots s \<and> ref_index r \<noteq> i" and i: "i < slots s"
  shows "s_connectors s' ! i = s_connectors s ! i"
proof -
  have "slots s' = slots s \<and> s_connectors s' ! i = s_connectors s ! i"
  proof (rule restart_all_keeps [OF assms(1), of "\<lambda>t. slots t = slots s \<and> s_connectors t ! i = s_connectors s ! i"])
    fix t k r t' p assume t: "slots t = slots s \<and> s_connectors t ! i = s_connectors s ! i" and r: "(k, r) \<in> set es" "ref_Start y r t = (t', p)"
    have "ref_index r < slots t" "ref_index r \<noteq> i" using es r(1) t by auto
    from ref_Start_spec [OF r(2) this(1)] this(2) t i show "slots t' = slots s \<and> s_connectors t' ! i = s_connectors s ! i"
      using evolves_sel(11) [of t t'] by auto
  qed simp_all
  then show ?thesis by simp
qed

lemma pass_mended:
  assumes run: "reconnect_pass y s = (s', Ret ())" and ns: "\<not> s_stopped s" and ord: "map_order (y_queue_order y)"
    and wf: "queue_wf s" "queue_idle s"
  shows "mended s s'"
proof -
  obtain a m rd where p: "reconnects s a" "restart_all y rd (y_queue_order y (s_reconnect a)) a = (m, Ret ())"
      "\<forall>(k, r) \<in> set (y_queue_order y (s_reconnect a)). ref_index r < slots a" "s' = rearm m"
    using pass_queue [OF run ns ord wf(1)] by blast
  have "\<forall>(k, r) \<in> set (y_queue_order y (s_reconnect a)). ref_index r < slots a \<and> (\<forall>i. r = Full i \<longrightarrow> \<not> up (s_connectors a ! i))"
    using p(3) wf(2) map_order.set_order [OF ord] reconnects_sel(3,4) [OF p(1)] by (auto simp: queue_idle_def)
  from restart_all_mended [OF p(2) this] show ?thesis
    using p(4) reconnects_sel(3) [OF p(1)] by (simp add: mended_def rearm_def Let_def ensureReconnectTimer_def)
qed

lemma pass_frame:
  assumes run: "reconnect_pass y s = (s', Ret ())" and ns: "\<not> s_stopped s" and ord: "map_order (y_queue_order y)"
    and wf: "queue_wf s" and i: "i < slots s" "\<forall>(k, r) \<in> set (s_reconnect s). ref_index r \<noteq> i"
  shows "s_connectors s' ! i = s_connectors s ! i"
proof -
  obtain a m rd where p: "reconnects s a" "restart_all y rd (y_queue_order y (s_reconnect a)) a = (m, Ret ())"
      "\<forall>(k, r) \<in> set (y_queue_order y (s_reconnect a)). ref_index r < slots a" "s' = rearm m"
    using pass_queue [OF run ns ord wf] by blast
  have "\<forall>(k, r) \<in> set (y_queue_order y (s_reconnect a)). ref_index r < slots a \<and> ref_index r \<noteq> i"
    using p(3) i(2) map_order.set_order [OF ord] reconnects_sel(4) [OF p(1)] by auto
  from restart_all_frame [OF p(2) this] show ?thesis
    using p(4) i(1) reconnects_sel(3) [OF p(1)] by (simp add: rearm_def Let_def ensureReconnectTimer_def)
qed

lemma reconnect_pass_but:
  assumes run: "reconnect_pass y s = (s', Ret ())" and care: "cared_but I s" and ns: "\<not> s_stopped s" and ord: "map_order (y_queue_order y)"
  shows "\<exists>a m rd. redial_all y (y_queue_order y (s_reconnect (pass_stan y s))) [] (pass_stan y s) = (a, Ret rd) \<and>
    reconnects s a \<and> requeues a m \<and> cared_but I m \<and> s' = rearm m"
proof -
  have "queue_wf s" using care by (simp add: cared_but_def)
  from pass_queue [OF run ns ord this] obtain a m rd where
      p: "redial_all y (y_queue_order y (s_reconnect (pass_stan y s))) [] (pass_stan y s) = (a, Ret rd)" "reconnects s a"
      "restart_all y rd (y_queue_order y (s_reconnect a)) a = (m, Ret ())" "requeues a m" "s' = rearm m"
    by blast
  have ca: "cared_but I a" using care cared_but_sel [of a s] reconnects_sel(3,4) [OF p(2)] by simp
  then have wf: "map_wf (s_reconnect a)" by (simp add: cared_but_def queue_wf_def)
  have "cared_but I m"
  proof (rule restart_all_cared [OF p(3) ca])
    show "distinct (map fst (y_queue_order y (s_reconnect a)))" by (rule map_order.distinct_order [OF ord wf])
    show "\<forall>(k, r) \<in> set (y_queue_order y (s_reconnect a)). map_of (s_reconnect a) k = Some r"
      using map_order.set_order [OF ord] map_of_in [OF wf] by auto
  qed
  then show ?thesis using p by blast
qed

lemma reconnect_pass_spec:
  assumes "reconnect_pass y s = (s', Ret ())" "cared_for s" "\<not> s_stopped s" "map_order (y_queue_order y)"
  shows "\<exists>a m rd. redial_all y (y_queue_order y (s_reconnect (pass_stan y s))) [] (pass_stan y s) = (a, Ret rd) \<and>
    reconnects s a \<and> requeues a m \<and> cared_for m \<and> s' = rearm m"
  using reconnect_pass_but [OF assms(1) _ assms(3,4), of "{}"] assms(2) by simp

section \<open>Starting the connectors\<close>

text \<open>What one start, and so the whole loop, keeps or only adds to.\<close>

definition starting :: "bridge \<Rightarrow> bridge \<Rightarrow> bool" where
  "starting s s' \<longleftrightarrow> s_running s' = s_running s \<and> s_config s' = s_config s \<and> s_conns s' = s_conns s \<and>
     s_stopped s' = s_stopped s \<and> slots s' = slots s \<and>
     (\<forall>i < slots s. same_identity (s_connectors s ! i) (s_connectors s' ! i) \<and>
       (up (s_connectors s ! i) \<longrightarrow> up (s_connectors s' ! i))) \<and>
     keys (s_reconnect s) \<subseteq> keys (s_reconnect s') \<and> (s_timer s \<noteq> None \<longrightarrow> s_timer s' \<noteq> None)"

lemma starting_refl [simp, intro]: "starting s s"
  by (simp add: starting_def)

lemma starting_trans [trans]: "starting a b \<Longrightarrow> starting b c \<Longrightarrow> starting a c"
  by (auto simp: starting_def intro: same_identity_trans)

lemma starting_sel:
  assumes "starting s s'"
  shows "slots s' = slots s" "i < slots s \<Longrightarrow> id_at s' i = id_at s i"
    "i < slots s \<Longrightarrow> ref_NATSConnection s' (Full i) = ref_NATSConnection s (Full i)"
  using assms by (simp_all add: starting_def same_identity_def ref_NATSConnection_def conn_at_def conn_NATSConnection_def)

lemma ensure_sel [simp]:
  "s_running (ensureReconnectTimer s) = s_running s" "s_config (ensureReconnectTimer s) = s_config s"
  "s_conns (ensureReconnectTimer s) = s_conns s" "s_connectors (ensureReconnectTimer s) = s_connectors s"
  "s_reconnect (ensureReconnectTimer s) = s_reconnect s" "s_stopped (ensureReconnectTimer s) = s_stopped s"
  "s_parked (ensureReconnectTimer s) = s_parked s"
  "s_timer (ensureReconnectTimer s) = None \<longleftrightarrow> s_timer s = None \<and> s_stopped s"
  by (auto simp: ensureReconnectTimer_def)

lemma starting_start:
  assumes "ref_Start y (Full i) s = (s', q)" "i < slots s"
  shows "starting s s'" and "q = Ret () \<Longrightarrow> up (s_connectors s' ! i)"
proof -
  note sp = ref_Start_spec [OF assms(1), simplified, OF assms(2)]
  then have "up (s_connectors s' ! j)" if "j < slots s" "up (s_connectors s ! j)" for j
    using that start_law_up by (cases "j = i") auto
  moreover have ev: "evolves s s'" using sp by simp
  ultimately show "starting s s'" using evolves_sel [OF ev] evolves_same [OF ev] by (simp add: starting_def)
  show "q = Ret () \<Longrightarrow> up (s_connectors s' ! i)" using sp by (simp add: start_law_def)
qed

lemma starting_queue: "starting s (ensureReconnectTimer (enqueue r s))"
  by (auto simp: starting_def enqueue_def)

lemma start_connectors_starting:
  "start_connectors y is s = (s', r) \<Longrightarrow> \<forall>i \<in> set is. i < slots s \<Longrightarrow> starting s s'"
proof (induction "is" arbitrary: s)
  case (Cons i "is")
  obtain m q where m: "ref_Start y (Full i) s = (m, q)" by (metis surj_pair)
  have sm: "starting s m" using starting_start(1) [OF m] Cons.prems(2) by simp
  then have sq: "starting s (ensureReconnectTimer (enqueue (Full i) m))" using starting_trans [OF _ starting_queue] by blast
  have "\<forall>j \<in> set is. j < slots m" "\<forall>j \<in> set is. j < slots (ensureReconnectTimer (enqueue (Full i) m))"
    using Cons.prems(2) starting_sel(1) [OF sm] starting_sel(1) [OF sq] by auto
  then show ?case using Cons.IH [of m] Cons.IH [of "ensureReconnectTimer (enqueue (Full i) m)"] Cons.prems(1) m sm
      starting_trans [OF sm] starting_trans [OF sq]
    by (cases q) (auto split: if_splits)
qed simp

lemma start_connectors_fail:
  "start_connectors y is s = (s', Fail e) \<Longrightarrow> \<forall>i \<in> set is. i < slots s \<Longrightarrow>
   \<exists>i \<in> set is. ref_NATSConnection s (Full i) = [] \<and> (\<exists>t t'. ref_Start y (Full i) t = (t', Fail e))"
proof (induction "is" arbitrary: s)
  case (Cons i "is")
  obtain m q where m: "ref_Start y (Full i) s = (m, q)" by (metis surj_pair)
  let ?q = "ensureReconnectTimer (enqueue (Full i) m)"
  have sm: "starting s m" using starting_start(1) [OF m] Cons.prems(2) by simp
  have sq: "starting s ?q" using starting_trans [OF sm starting_queue] .
  have idx: "\<forall>j \<in> set is. j < slots m" "\<forall>j \<in> set is. j < slots ?q"
    using Cons.prems(2) starting_sel(1) [OF sm] starting_sel(1) [OF sq] by auto
  have later: "\<exists>j \<in> set (i # is). ref_NATSConnection s (Full j) = [] \<and> (\<exists>t t'. ref_Start y (Full j) t = (t', Fail e))"
    if run: "start_connectors y is n = (s', Fail e)" and n: "n = m \<or> n = ?q" for n
    using Cons.IH [OF run] n idx starting_sel(3) [OF sm] starting_sel(3) [OF sq] Cons.prems(2) by fastforce
  show ?case
  proof (cases q)
    case (Fail e')
    show ?thesis
    proof (cases "ref_NATSConnection m (Full i) = []")
      case True
      then have "e' = e" using Cons.prems(1) m Fail by simp
      then show ?thesis using True m Fail starting_sel(3) [OF sm, of i] Cons.prems(2) by auto
    qed (use Cons.prems(1) m Fail later in auto)
  qed (use Cons.prems(1) m later in auto)
qed simp

text \<open>After a successful loop each connector it started is up, or it is one of a named cluster and is
  queued with the timer armed.\<close>

definition up_or_queued :: "bridge \<Rightarrow> nat \<Rightarrow> bool" where
  "up_or_queued s i \<longleftrightarrow> up (s_connectors s ! i) \<or>
     ref_NATSConnection s (Full i) \<noteq> [] \<and> id_at s i \<in> keys (s_reconnect s) \<and> (s_stopped s \<or> s_timer s \<noteq> None)"

lemma up_or_queued_starting: "starting s s' \<Longrightarrow> i < slots s \<Longrightarrow> up_or_queued s i \<Longrightarrow> up_or_queued s' i"
  using starting_sel [of s s'] by (auto simp: up_or_queued_def starting_def)

lemma start_connectors_ret:
  "start_connectors y is s = (s', Ret ()) \<Longrightarrow> \<forall>i \<in> set is. i < slots s \<Longrightarrow> i \<in> set is \<Longrightarrow> up_or_queued s' i"
proof (induction "is" arbitrary: s)
  case (Cons j "is")
  obtain m q where m: "ref_Start y (Full j) s = (m, q)" by (metis surj_pair)
  define n where "n = (case q of Ret _ \<Rightarrow> m | _ \<Rightarrow> ensureReconnectTimer (enqueue (Full j) m))"
  note st = starting_start [OF m]
  have j: "j < slots s" using Cons.prems(2) by simp
  have run: "start_connectors y is n = (s', Ret ())"
    using Cons.prems(1) m by (cases q) (auto simp: n_def split: if_splits)
  have sn: "starting s n" using st(1) [OF j] starting_trans [OF _ starting_queue] by (auto simp: n_def split: res.splits)
  have idx: "\<forall>i \<in> set is. i < slots n" using Cons.prems(2) starting_sel(1) [OF sn] by simp
  have "ref_NATSConnection m (Full j) \<noteq> []" if "q \<noteq> Ret ()"
    using that Cons.prems(1) m by (cases q) (auto split: if_splits)
  then have "up_or_queued n j" using st(2) [OF j]
    by (cases q) (auto simp: n_def up_or_queued_def enqueue_def ref_ID_def ref_NATSConnection_def conn_at_def)
  then have "up_or_queued s' j"
    using up_or_queued_starting [OF start_connectors_starting [OF run idx]] j starting_sel(1) [OF sn] by simp
  then show ?case using Cons.IH [OF run idx] Cons.prems(3) by auto
qed simp

end
