(* ===== verification/BridgeLaws.thy ===== *)
theory BridgeLaws
  imports BridgeSteps
begin

text \<open>
  What the bridge guarantees about its connectors: the interleaving of its goroutines as a step
  relation, the invariants of its reachable states, and what start and stop achieve.
\<close>

section \<open>The goroutines of a running bridge\<close>

text \<open>
  Besides the bridge itself a state has the handlers that are under way and how far \<open>Stop\<close> has come.
  A handler is started by a library or by a listener, checks that the bridge runs, and later does its
  work under the reconnect lock; the handlers of connection events check twice, the second time in
  \<open>checkConnections\<close>. The work of a handler and a reconnect pass are single steps, because they hold
  the reconnect lock. \<open>Stop\<close> holds the server lock only: it stops the timer, clears the queue, shuts the
  connectors down one after the other and closes the connections, and handlers that have passed their
  check may run in between. A step that panics ends the process and has no successor. Between the
  steps the connectors handle messages, which changes neither their identity nor their subscription,
  reader and listener, nor whether they are up (\<open>traffic\<close>). A listener whose \<^verbatim>\<open>Fetch\<close> fails returns, and the
  goroutine it leaves behind reports the error with the embedded base connector; one that fails to
  commit a message reports the error in the same way and goes on.
\<close>

datatype pending = PListenerError connref | PConnectorError connref | PStanLost | PRecheck | PCheckConnections

datatype stop_phase = NotStopping | Clearing | Closing "nat list"

record run =
  r_bridge :: bridge
  r_pending :: "pending list"
  r_stop :: stop_phase

definition perform :: "('n, 'j, 'm) surroundings \<Rightarrow> pending \<Rightarrow> bridge \<Rightarrow> (bridge \<times> unit res) \<times> pending list" where
  "perform y p s =
     (case p of
        PListenerError r \<Rightarrow> ((s, Ret ()), if checkRunning s then [PConnectorError r] else [])
      | PConnectorError r \<Rightarrow> (ConnectorError y r s, [])
      | PStanLost \<Rightarrow> ((stanConnectionLost s, Ret ()), [PRecheck])
      | PRecheck \<Rightarrow> ((s, Ret ()), if checkRunning s then [PCheckConnections] else [])
      | PCheckConnections \<Rightarrow> (checkConnections y s, []))"

definition fire :: "nat \<Rightarrow> bridge \<Rightarrow> bridge" where
  "fire t s = s\<lparr>s_waiting := removeAll t (s_waiting s), s_parked := t # s_parked s\<rparr>"

definition unpark :: "nat \<Rightarrow> bridge \<Rightarrow> bridge" where
  "unpark t s = s\<lparr>s_parked := removeAll t (s_parked s)\<rparr>"

definition listener_returns :: "nat \<Rightarrow> bridge \<Rightarrow> bridge" where
  "listener_returns i s = s\<lparr>s_connectors := (s_connectors s)[i := (s_connectors s ! i)\<lparr>n_alive := False\<rparr>]\<rparr>"

definition listens :: "bridge \<Rightarrow> nat \<Rightarrow> bool" where
  "listens s i \<longleftrightarrow> i < length (s_connectors s) \<and> readsKafka (n_kind (s_connectors s ! i)) \<and> n_alive (s_connectors s ! i)"

definition handles_messages :: "connector \<Rightarrow> connector \<Rightarrow> bool" where
  "handles_messages c c' \<longleftrightarrow> same_identity c c' \<and> up c' = up c \<and> n_sub c' = n_sub c \<and> n_reader c' = n_reader c \<and>
     n_listening c' = n_listening c \<and> n_alive c' = n_alive c"

inductive bridge_step :: "('n, 'j, 'm) surroundings \<Rightarrow> run \<Rightarrow> run \<Rightarrow> bool" for y where
  fetch_fails: "listens (r_bridge g) i \<Longrightarrow>
    bridge_step y g (g\<lparr>r_bridge := listener_returns i (r_bridge g), r_pending := PListenerError (Base i) # r_pending g\<rparr>)"
| commit_fails: "listens (r_bridge g) i \<Longrightarrow> bridge_step y g (g\<lparr>r_pending := PListenerError (Base i) # r_pending g\<rparr>)"
| stan_lost: "checkRunning (r_bridge g) \<Longrightarrow> bridge_step y g (g\<lparr>r_pending := PStanLost # r_pending g\<rparr>)"
| nats_disconnected: "checkRunning (r_bridge g) \<Longrightarrow> bridge_step y g (g\<lparr>r_pending := PRecheck # r_pending g\<rparr>)"
| nats_closed: "checkRunning (r_bridge g) \<Longrightarrow> natsClosed cell = RecheckConnectors \<Longrightarrow>
    bridge_step y g (g\<lparr>r_pending := PRecheck # r_pending g\<rparr>)"
| handler: "r_pending g = ps @ p # qs \<Longrightarrow> perform y p (r_bridge g) = ((s, Ret ()), ms) \<Longrightarrow>
    bridge_step y g (g\<lparr>r_bridge := s, r_pending := ps @ ms @ qs\<rparr>)"
| timer_fires: "t \<in> set (s_waiting (r_bridge g)) \<Longrightarrow> bridge_step y g (g\<lparr>r_bridge := fire t (r_bridge g)\<rparr>)"
| timer_runs: "t \<in> set (s_parked (r_bridge g)) \<Longrightarrow> reconnect_pass y (unpark t (r_bridge g)) = (s, Ret ()) \<Longrightarrow>
    bridge_step y g (g\<lparr>r_bridge := s\<rparr>)"
| stop_begins: "s_running (r_bridge g) \<Longrightarrow>
    bridge_step y g (g\<lparr>r_bridge := stop_timers (r_bridge g), r_stop := Clearing\<rparr>)"
| stop_clears: "r_stop g = Clearing \<Longrightarrow>
    bridge_step y g (g\<lparr>r_bridge := stop_clear (r_bridge g), r_stop := Closing [0..<length (s_connectors (r_bridge g))]\<rparr>)"
| stop_shuts: "r_stop g = Closing (i # is) \<Longrightarrow> stop_one y i (r_bridge g) = (s, Ret ()) \<Longrightarrow>
    bridge_step y g (g\<lparr>r_bridge := s, r_stop := Closing is\<rparr>)"
| stop_ends: "r_stop g = Closing [] \<Longrightarrow> stop_close y (r_bridge g) = (s, Ret ()) \<Longrightarrow>
    bridge_step y g (g\<lparr>r_bridge := s, r_stop := NotStopping\<rparr>)"
| traffic: "i < length (s_connectors (r_bridge g)) \<Longrightarrow> handles_messages (s_connectors (r_bridge g) ! i) c \<Longrightarrow>
    bridge_step y g (g\<lparr>r_bridge := (r_bridge g)\<lparr>s_connectors := (s_connectors (r_bridge g))[i := c],
      s_history := s_history (r_bridge g) @ w\<rparr>\<rparr>)"

text \<open>
  A run begins with a successful \<open>Start\<close> of a new bridge. \<open>Start\<close> holds the server lock, so handlers
  wait for its end; but a timer armed for a connector that could not be started fires, and its pass runs,
  while the connectors behind that one are still to be started, and the listener of a connector that was
  started may return. A state of the start has the connectors that are left; the goroutines that
  report listeners' errors are there when the start is over.
\<close>

inductive startup_step :: "('n, 'j, 'm) surroundings \<Rightarrow> nat list \<times> bridge \<Rightarrow> nat list \<times> bridge \<Rightarrow> bool" for y where
  next_connector: "start_one y i s = (s', Ret ()) \<Longrightarrow> startup_step y (i # is, s) (is, s')"
| early_fire: "t \<in> set (s_waiting s) \<Longrightarrow> startup_step y (is, s) (is, fire t s)"
| early_pass: "t \<in> set (s_parked s) \<Longrightarrow> reconnect_pass y (unpark t s) = (s', Ret ()) \<Longrightarrow> startup_step y (is, s) (is, s')"
| early_return: "listens s i \<Longrightarrow> startup_step y (is, s) (is, listener_returns i s)"
| early_traffic: "i < length (s_connectors s) \<Longrightarrow> handles_messages (s_connectors s ! i) c \<Longrightarrow>
    startup_step y (is, s) (is, s\<lparr>s_connectors := (s_connectors s)[i := c], s_history := s_history s @ w\<rparr>)"

definition bridge_init :: "('n, 'j, 'm) surroundings \<Rightarrow> NATSKafkaBridgeConfig \<Rightarrow> run \<Rightarrow> bool" where
  "bridge_init y cfg g \<longleftrightarrow> r_stop g = NotStopping \<and>
     (\<forall>p \<in> set (r_pending g). \<exists>i < length (s_connectors (r_bridge g)). p = PListenerError (Base i)) \<and>
     (\<exists>now a m. start_connect y now (NewNATSKafkaBridge\<lparr>s_config := cfg\<rparr>) = (a, Ret ()) \<and>
       (startup_step y)\<^sup>*\<^sup>* ([0..<length (s_connectors a)], a) ([], m) \<and> start_monitor y m = (r_bridge g, Ret ()))"

text \<open>\<open>Start\<close> without any timer in between is one way to begin.\<close>

lemma start_connectors_startup:
  "start_connectors y is s = (s', Ret ()) \<Longrightarrow> (startup_step y)\<^sup>*\<^sup>* (is, s) ([], s')"
proof (induction "is" arbitrary: s)
  case (Cons i "is")
  obtain m where m: "start_one y i s = (m, Ret ())" "start_connectors y is m = (s', Ret ())"
    using Cons.prems by (auto simp: start_connectors.simps(2) then_do_Ret simp del: start_connectors_Cons)
  from converse_rtranclp_into_rtranclp [OF next_connector [OF m(1)] Cons.IH [OF m(2)]] show ?case .
qed simp

lemma bridge_init_Start:
  assumes "bridge_Start y now (NewNATSKafkaBridge\<lparr>s_config := cfg\<rparr>) = (s, Ret ())"
  shows "bridge_init y cfg \<lparr>r_bridge = s, r_pending = [], r_stop = NotStopping\<rparr>"
  using assms start_connectors_startup by (auto simp: bridge_init_def bridge_Start_def startConnectors_def then_do_Ret) blast

section \<open>The invariant\<close>

text \<open>The timer: a queue has one, and the timer of the bridge has a goroutine behind it.\<close>

definition timer_wf :: "bridge \<Rightarrow> bool" where
  "timer_wf s \<longleftrightarrow> (s_reconnect s \<noteq> [] \<longrightarrow> s_timer s \<noteq> None) \<and>
     (\<forall>t. s_timer s = Some t \<longrightarrow> t \<in> set (s_waiting s) \<union> set (s_parked s))"

lemma timer_wf_ensure:
  assumes "\<not> s_stopped s" "\<forall>t. s_timer s = Some t \<longrightarrow> t \<in> set (s_waiting s) \<union> set (s_parked s)"
  shows "timer_wf (ensureReconnectTimer s)"
  using assms by (auto simp: timer_wf_def ensureReconnectTimer_def)

lemma timer_wf_rearm:
  assumes "\<not> s_stopped m"
  shows "timer_wf (rearm m) \<and> (stanNeeded (rearm m) \<longrightarrow> s_timer (rearm m) \<noteq> None)"
  using assms timer_wf_ensure [of "m\<lparr>s_timer := None\<rparr>"]
  by (auto simp: rearm_def timer_wf_def stanNeeded_def Let_def simp del: not_None_eq)

lemma rearm_sel [simp]: "s_connectors (rearm s) = s_connectors s" "s_stopped (rearm s) = s_stopped s" "s_running (rearm s) = s_running s"
  "s_reconnect (rearm s) = s_reconnect s" "s_config (rearm s) = s_config s" "s_conns (rearm s) = s_conns s"
  by (simp_all add: rearm_def Let_def)

text \<open>Handling messages is not seen from outside; a listener that returns strands its connector.\<close>

lemma handles_messages_same: "handles_messages c c' \<Longrightarrow> looks_same c c' \<and> same_identity c c' \<and> n_reader c' = n_reader c"
  by (auto simp: handles_messages_def looks_same_def works_def stranded_def same_identity_def)

lemma evolves_returns: "listens s i \<Longrightarrow> evolves s (listener_returns i s)"
  using evolves_put [of i s "(s_connectors s ! i)\<lparr>n_alive := False\<rparr>" "Full i" "s_history s"]
  by (simp add: listens_def listener_returns_def put_conn_def)

lemma returns_at:
  assumes "listens s i" "j < slots s"
  shows "up (s_connectors (listener_returns i s) ! j) = up (s_connectors s ! j)"
    and "held (s_connectors (listener_returns i s) ! j) = held (s_connectors s ! j)"
    and "looks_same (s_connectors s ! j) (s_connectors (listener_returns i s) ! j) \<or>
      works (s_connectors s ! j) \<and> stranded (s_connectors (listener_returns i s) ! j)"
  using assms by (auto simp: listens_def listener_returns_def works_def stranded_def looks_same_def nth_list_update)

lemma cared_but_returns:
  assumes "cared_but I s" "listens s i"
  shows "cared_but I (listener_returns i s)"
  using cared_but_evolves [OF assms(1) evolves_returns [OF assms(2)]] returns_at(1,2) [OF assms(2)] by blast

lemma queue_idle_still:
  assumes "queue_idle s" "s_reconnect m = s_reconnect s"
    and "\<And>k j. (k, Full j) \<in> set (s_reconnect m) \<Longrightarrow> up (s_connectors m ! j) \<Longrightarrow> up (s_connectors s ! j)"
  shows "queue_idle m"
  using assms unfolding queue_idle_def by fastforce

text \<open>The invariant of the start, with the connectors that are left.\<close>

definition start_inv :: "nat list \<Rightarrow> bridge \<Rightarrow> bool" where
  "start_inv is s \<longleftrightarrow> s_running s \<and> \<not> s_stopped s \<and> cared_but (set is) s \<and> timer_wf s \<and>
     (stanNeeded s \<longrightarrow> s_timer s \<noteq> None) \<and> distinct is \<and> (\<forall>i \<in> set is. i < slots s \<and> \<not> up (s_connectors s ! i))"

lemma start_inv_started:
  assumes inv: "start_inv (i # is) s" and m: "ref_Start y (Full i) s = (m, q)" and "q = Ret ()"
  shows "start_inv is m"
proof -
  have i: "i < slots s" "i \<notin> set is" using inv by (simp_all add: start_inv_def)
  note sp = ref_Start_spec [OF m, simplified, OF i(1)]
  have ev: "evolves s m" using sp by simp
  note sel = evolves_sel [OF ev] and ids = evolves_id [OF ev]
  have frame: "s_connectors m ! j = s_connectors s ! j" if "j < slots s" "j \<noteq> i" for j using sp that by blast
  have "works (s_connectors m ! i)" using sp assms(3) start_law_works by auto
  then have "held (s_connectors m ! j) \<or> map_of (s_reconnect s) (id_at s j) = Some (Full j)" if "j < slots s" "j \<notin> set is" for j
    using inv frame [of j] that by (cases "j = i") (auto simp: start_inv_def cared_but_def covered_but_def)
  then have "covered_but (set is) m" unfolding covered_but_def sel(4,11) using ids by simp
  moreover have "queue_wf m" using inv queue_wf_evolves [OF _ ev] by (simp add: start_inv_def cared_but_def)
  moreover have "queue_idle m"
  proof (rule queue_idle_still)
    show "up (s_connectors s ! j)" if "(k, Full j) \<in> set (s_reconnect m)" "up (s_connectors m ! j)" for k j
    proof -
      have "j < slots s" "j \<noteq> i" using inv that(1) sel(4) by (auto simp: start_inv_def cared_but_def queue_wf_def)
      then show ?thesis using frame that(2) by simp
    qed
  qed (use inv sel(4) in \<open>simp_all add: start_inv_def cared_but_def\<close>)
  moreover have "\<forall>j \<in> set is. j < slots m \<and> \<not> up (s_connectors m ! j)" using inv i frame sel(11) by (metis list.set_intros(2) start_inv_def)
  ultimately show ?thesis using inv sel ids
    by (auto simp: start_inv_def cared_but_def distinct_ids_def timer_wf_def stanNeeded_def)
qed

lemma start_inv_queued:
  assumes inv: "start_inv (i # is) s" and m: "ref_Start y (Full i) s = (m, q)" and "q \<noteq> Ret ()"
  shows "start_inv is (ensureReconnectTimer (enqueue (Full i) m))"
proof -
  let ?q = "ensureReconnectTimer (enqueue (Full i) m)"
  have i: "i < slots s" "i \<notin> set is" using inv by (simp_all add: start_inv_def)
  note sp = ref_Start_spec [OF m, simplified, OF i(1)]
  have ev: "evolves s m" using sp by simp
  note sel = evolves_sel [OF ev] and ids = evolves_id [OF ev]
  have queue: "s_reconnect ?q = map_put (id_at s i) (Full i) (s_reconnect s)"
    using sel ids i by (simp add: enqueue_def ref_ID_def conn_at_def)
  have conns: "s_connectors ?q = s_connectors m" by (simp add: enqueue_def)
  have same: "looks_same (s_connectors s ! j) (s_connectors m ! j)" if "j < slots s" for j
    using sp that start_law_fail [OF _ assms(3)] by (cases "j = i") auto
  then have "covered_but (set is) ?q" unfolding covered_but_def queue conns
    using inv sel ids i by (auto simp: start_inv_def cared_but_def covered_but_def update_conv' distinct_ids_def looks_same_def)
  moreover have "queue_wf ?q" unfolding queue_wf_def queue conns
    using inv sel ids i by (auto simp: start_inv_def cared_but_def queue_wf_def dest!: set_put_subset)
  moreover have down: "\<not> up (s_connectors m ! j)" if "j < slots s" "\<not> up (s_connectors s ! j)" for j
    using same [of j] that by (simp add: looks_same_def)
  have "\<not> up (s_connectors m ! j)" if "(k, Full j) \<in> set (s_reconnect ?q)" for k j
  proof -
    have "j = i \<or> (k, Full j) \<in> set (s_reconnect s)" using that unfolding queue by (auto dest!: set_put_subset)
    then have "j < slots s \<and> \<not> up (s_connectors s ! j)"
      using inv i by (auto simp: start_inv_def cared_but_def queue_idle_def queue_wf_def)
    then show ?thesis using down by blast
  qed
  then have "queue_idle ?q" unfolding queue_idle_def conns by blast
  moreover have "\<forall>(k, r) \<in> set (s_reconnect ?q). ref_index r \<notin> set is" unfolding queue
    using inv i by (auto simp: start_inv_def cared_but_def dest!: set_put_subset)
  moreover have "timer_wf ?q"
    using inv sel by (intro timer_wf_ensure) (auto simp: start_inv_def timer_wf_def enqueue_def)
  moreover have "s_timer ?q \<noteq> None" using inv sel by (simp add: start_inv_def enqueue_def)
  moreover have "\<forall>j \<in> set is. j < slots ?q \<and> \<not> up (s_connectors ?q ! j)" unfolding conns using inv sel(11) down by (simp add: start_inv_def)
  ultimately show ?thesis using inv sel ids conns
    by (auto simp: start_inv_def cared_but_def distinct_ids_def enqueue_def)
qed

lemma start_inv_one:
  assumes "start_inv (i # is) s" "start_one y i s = (s', Ret ())"
  shows "start_inv is s'"
proof -
  obtain m q where m: "ref_Start y (Full i) s = (m, q)" by (metis surj_pair)
  show ?thesis using assms(2) m start_inv_started [OF assms(1) m] start_inv_queued [OF assms(1) m]
    by (cases q) (auto simp: start_one_def split: if_splits)
qed

lemma start_inv_pass:
  assumes inv: "start_inv is s" and run: "reconnect_pass y (unpark t s) = (s', Ret ())" and ord: "map_order (y_queue_order y)"
  shows "start_inv is s'"
proof -
  have u: "cared_but (set is) (unpark t s)" "\<not> s_stopped (unpark t s)" "s_running (unpark t s)" "slots (unpark t s) = slots s"
    using inv cared_but_sel [of "unpark t s" s] by (simp_all add: start_inv_def unpark_def)
  obtain a m where p: "reconnects (unpark t s) a" "requeues a m" "cared_but (set is) m" "s' = rearm m"
    using reconnect_pass_but [OF run u(1,2) ord] by blast
  have m: "s_running m" "\<not> s_stopped m" "slots m = slots s"
    using u reconnects_sel(1,3,6) [OF p(1)] requeues_sel(1,5,9) [OF p(2)] by simp_all
  have "queue_wf (unpark t s)" using u(1) by (simp add: cared_but_def)
  note frame = pass_frame [OF run u(2) ord this]
  have "s_connectors s' ! j = s_connectors s ! j" if "j \<in> set is" for j
    using frame [of j] that inv by (fastforce simp: start_inv_def cared_but_def unpark_def)
  then show ?thesis using inv p m timer_wf_rearm [of m] cared_but_sel [of "rearm m" m "set is"] by (simp add: start_inv_def)
qed

lemma cared_but_traffic:
  assumes "cared_but I s" "i < slots s" "handles_messages (s_connectors s ! i) c"
  shows "cared_but I (s\<lparr>s_connectors := (s_connectors s)[i := c], s_history := w\<rparr>)"
proof (rule cared_but_evolves [OF assms(1)])
  note same = handles_messages_same [OF assms(3)]
  show "evolves s (s\<lparr>s_connectors := (s_connectors s)[i := c], s_history := w\<rparr>)"
    using evolves_put [of i s c "Full i" w] assms(2) same by (simp add: put_conn_def)
qed (use assms(2) handles_messages_same [OF assms(3)] in \<open>auto simp: nth_list_update looks_same_def\<close>)

lemma start_inv_step:
  assumes "startup_step y c d" "map_order (y_queue_order y)" "start_inv (fst c) (snd c)"
  shows "start_inv (fst d) (snd d)"
  using assms(1)
proof cases
  case (next_connector i s s' "is")
  then show ?thesis using assms(3) start_inv_one [of i "is" s y s'] by simp
next
  case (early_fire t s "is")
  have "cared_but (set is) (fire t s) = cared_but (set is) s" by (rule cared_but_sel) (simp_all add: fire_def)
  then show ?thesis using assms(3) early_fire by (auto simp: start_inv_def timer_wf_def stanNeeded_def fire_def)
next
  case (early_pass t s s' "is")
  then show ?thesis using assms(3) start_inv_pass [OF _ early_pass(4) assms(2)] by simp
next
  case (early_return s i "is")
  note sel = evolves_sel [OF evolves_returns [OF early_return(3)]]
  then show ?thesis using assms(3) early_return cared_but_returns [OF _ early_return(3)] returns_at(1) [OF early_return(3)]
    by (simp add: start_inv_def timer_wf_def stanNeeded_def)
next
  case (early_traffic i s c' "is" w)
  then show ?thesis using assms(3) cared_but_traffic [of "set is" s i c'] handles_messages_same [OF early_traffic(4)]
    by (auto simp: start_inv_def timer_wf_def stanNeeded_def nth_list_update looks_same_def)
qed

text \<open>The start keeps the connectors' identities, whether or not they are distinct.\<close>

definition same_crew :: "bridge \<Rightarrow> bridge \<Rightarrow> bool" where
  "same_crew s s' \<longleftrightarrow> slots s' = slots s \<and> (\<forall>i < slots s. same_identity (s_connectors s ! i) (s_connectors s' ! i))"

lemma same_crew_trans: "same_crew a b \<Longrightarrow> same_crew b c \<Longrightarrow> same_crew a c"
  by (auto simp: same_crew_def intro: same_identity_trans)

lemma same_crew_evolves: "evolves s s' \<Longrightarrow> same_crew s s'"
  by (simp add: same_crew_def evolves_def)

lemma same_crew_ids: "same_crew s s' \<Longrightarrow> distinct_ids s' = distinct_ids s"
  by (auto simp: same_crew_def distinct_ids_def same_identity_def)

definition start_wf :: "nat list \<Rightarrow> bridge \<Rightarrow> bool" where
  "start_wf is s \<longleftrightarrow> queue_wf s \<and> \<not> s_stopped s \<and> (\<forall>i \<in> set is. i < slots s)"

lemma start_one_crew:
  assumes "start_one y i s = (s', Ret ())" "queue_wf s" "i < slots s"
  shows "same_crew s s' \<and> queue_wf s' \<and> s_stopped s' = s_stopped s"
proof -
  obtain m q where m: "ref_Start y (Full i) s = (m, q)" by (metis surj_pair)
  have ev: "evolves s m" using ref_Start_spec [OF m] assms(3) by simp
  then have wf: "queue_wf m" by (rule queue_wf_evolves [OF assms(2)])
  then have "queue_wf (ensureReconnectTimer (enqueue (Full i) m))"
    using assms(3) evolves_sel(11) [OF ev] by (auto simp: queue_wf_def enqueue_def ref_ID_def conn_at_def dest!: set_put_subset)
  moreover have "s' = m \<or> s' = ensureReconnectTimer (enqueue (Full i) m)"
    using assms(1) m by (cases q) (auto simp: start_one_def split: if_splits)
  ultimately show ?thesis using wf ev evolves_sel(6) [OF ev] by (auto simp: same_crew_def evolves_def enqueue_def)
qed

lemma pass_crew:
  assumes run: "reconnect_pass y s = (s', Ret ())" and wf: "queue_wf s" and ns: "\<not> s_stopped s" and ord: "map_order (y_queue_order y)"
  shows "same_crew s s' \<and> queue_wf s' \<and> \<not> s_stopped s'"
proof -
  obtain a m where p: "reconnects s a" "requeues a m" "queue_wf m" "s' = rearm m" using pass_queue [OF run ns ord wf] by blast
  have "same_crew a m" using p(2) same_crew_evolves by (auto simp: requeues_def same_crew_def)
  then show ?thesis using p ns reconnects_sel(3,6) [OF p(1)] requeues_sel(5) [OF p(2)] queue_wf_sel [of "rearm m" m]
    by (simp add: same_crew_def)
qed

lemma start_wf_step:
  assumes "startup_step y c d" "map_order (y_queue_order y)" "start_wf (fst c) (snd c)"
  shows "start_wf (fst d) (snd d) \<and> same_crew (snd c) (snd d)"
  using assms(1)
proof cases
  case (next_connector i s s' "is")
  then show ?thesis using assms(3) start_one_crew [OF next_connector(3)] by (auto simp: start_wf_def same_crew_def)
next
  case (early_fire t s "is")
  then show ?thesis using assms(3) queue_wf_sel [of "fire t s" s] by (auto simp: start_wf_def same_crew_def fire_def same_identity_def)
next
  case (early_pass t s s' "is")
  have u: "queue_wf (unpark t s)" "\<not> s_stopped (unpark t s)"
    using assms(3) early_pass(1) queue_wf_sel [of "unpark t s" s] by (simp_all add: start_wf_def unpark_def)
  then show ?thesis using assms(3) early_pass pass_crew [OF early_pass(4) u assms(2)] by (auto simp: start_wf_def same_crew_def unpark_def)
next
  case (early_return s i "is")
  note ev = evolves_returns [OF early_return(3)]
  then show ?thesis using assms(3) early_return(1,2) same_crew_evolves [OF ev] queue_wf_evolves [OF _ ev] evolves_sel [OF ev]
    by (auto simp: start_wf_def)
next
  case (early_traffic i s c' "is" w)
  have "evolves s (snd d)" using evolves_put [of i s c' "Full i" "s_history s @ w"] early_traffic handles_messages_same
    by (simp add: put_conn_def)
  from same_crew_evolves [OF this] queue_wf_evolves [OF _ this] evolves_sel [OF this]
  show ?thesis using assms(3) early_traffic(1,2) by (auto simp: start_wf_def)
qed

lemma startup_wf:
  assumes "(startup_step y)\<^sup>*\<^sup>* c d" "map_order (y_queue_order y)" "start_wf (fst c) (snd c)"
  shows "start_wf (fst d) (snd d) \<and> same_crew (snd c) (snd d)"
  using assms(1)
proof (induction rule: rtranclp_induct)
  case base
  then show ?case using assms(3) by (simp add: same_crew_def same_identity_def)
next
  case (step d e)
  then show ?case using start_wf_step [OF step(2) assms(2)] same_crew_trans by blast
qed

lemma startup_inv:
  assumes "(startup_step y)\<^sup>*\<^sup>* c d" "map_order (y_queue_order y)" "start_inv (fst c) (snd c)"
  shows "start_inv (fst d) (snd d)"
  using assms(1) by (induction rule: rtranclp_induct) (use assms start_inv_step in blast)+

text \<open>What holds just before the connectors are started, whatever the surroundings answered.\<close>

lemma opt_res_Ret [simp]: "opt_res e = Ret () \<longleftrightarrow> e = None"
  by (cases e) simp_all

lemma connectToSTAN_connects:
  "connectToSTAN env d cfg b w = ((b', w'), None) \<Longrightarrow> stan_ClusterID (b_STAN cfg) \<noteq> [] \<Longrightarrow> bn_stan b' \<noteq> None"
  by (auto simp: connectToSTAN_def Let_def split: if_splits option.splits prod.splits sum.splits)

lemma connect_js_stan: "connect_js env cfg xs b w = ((b', w'), r) \<Longrightarrow> bn_stan b' = bn_stan b"
  by (induction env cfg xs b w rule: connect_js.induct)
    (auto simp: connectCellJetStream_def split: if_splits option.splits prod.splits sum.splits res.splits)

lemma create_connectors_sel:
  "create_connectors y cs s = (s', r) \<Longrightarrow> \<exists>xs. s' = s\<lparr>s_connectors := xs\<rparr>"
proof (induction cs arbitrary: s)
  case (Cons c cs)
  have self: "\<exists>xs. s = s\<lparr>s_connectors := xs\<rparr>" by (rule exI [of _ "s_connectors s"]) simp
  show ?case using Cons self
    by (cases "CreateConnector (y_ext y) (y_nuid y (length (s_connectors s))) c") fastforce+
qed (metis (no_types, lifting) bridge.surjective bridge.update_convs(5) create_connectors.simps(1) prod.inject)

lemma start_connect_Ret:
  assumes "start_connect y now s = (a, Ret ())"
  shows "s_reconnect a = [] \<and> s_timer a = s_timer s \<and> s_waiting a = s_waiting s \<and> s_parked a = s_parked s \<and>
    \<not> s_stopped a \<and> s_running a \<and> \<not> stanNeeded a"
proof -
  obtain s1 b1 w1 b2 w2 b3 w3 where
      st: "connectToSTAN (y_env y) (y_DefaultDiscoverPrefix y) s1 b1 w1 = ((b2, w2), None)"
    and js: "connectToJetStream (y_env y) (y_cell_order y) s1 b2 w2 = ((b3, w3), Ret ())"
    and a: "initializeConnectors y ((start_init now s)\<lparr>s_config := s1, s_conns := b3, s_history := w3\<rparr>) = (a, Ret ())"
    using assms by (auto simp: start_connect_def Let_def then_do_Ret with_conns_def split: prod.splits)
  obtain xs where xs: "a = (start_init now s)\<lparr>s_config := s1, s_conns := b3, s_history := w3, s_connectors := xs\<rparr>"
    using create_connectors_sel a unfolding initializeConnectors_def by fastforce
  have "\<not> stanNeeded a"
    using connectToSTAN_connects [OF st] connect_js_stan js xs
    by (auto simp: stanNeeded_def connectToJetStream_def Stan_def)
  then show ?thesis using xs by (simp add: start_init_def)
qed

lemma new_connector_down: "new_connector x f k cc d n = Ret c \<Longrightarrow> \<not> up c"
  by (auto simp: new_connector_def init_connector_def bind_res_Ret_iff SetNATSConnection_def NewConnectorStatsHolder_def Let_def)

lemma CreateConnector_down: "CreateConnector x f cc = Ret c \<Longrightarrow> \<not> up c"
  unfolding CreateConnector_def NewNATS2KafkaConnector_def NewStan2KafkaConnector_def NewJetStream2KafkaConnector_def
    NewKafka2NATSConnector_def NewKafka2StanConnector_def NewKafka2JetStreamConnector_def
  by (auto split: if_splits option.splits dest!: new_connector_down)

lemma create_connectors_down:
  "create_connectors y cs s = (s', Ret ()) \<Longrightarrow> \<forall>c \<in> set (s_connectors s). \<not> up c \<Longrightarrow> \<forall>c \<in> set (s_connectors s'). \<not> up c"
proof (induction cs arbitrary: s)
  case (Cons cc cs)
  obtain c where c: "CreateConnector (y_ext y) (y_nuid y (slots s)) cc = Ret c"
    and run: "create_connectors y cs (s\<lparr>s_connectors := s_connectors s @ [c]\<rparr>) = (s', Ret ())"
    using Cons.prems by (auto split: res.splits)
  from Cons.IH [OF run] CreateConnector_down [OF c] Cons.prems(2) show ?case by simp
qed simp

lemma start_connect_down:
  assumes "start_connect y now s = (a, Ret ())"
  shows "\<forall>i < slots a. \<not> up (s_connectors a ! i)"
proof -
  obtain cs b where b: "create_connectors y cs b = (a, Ret ())" "s_connectors b = []"
    using assms by (auto simp: start_connect_def start_init_def initializeConnectors_def Let_def then_do_Ret with_conns_def split: prod.splits)
  have "\<forall>c \<in> set (s_connectors a). \<not> up c" by (rule create_connectors_down [OF b(1)]) (simp add: b(2))
  then show ?thesis by simp
qed

lemma start_monitor_sel: "start_monitor y m = (s, q) \<Longrightarrow> \<exists>mo w. s = m\<lparr>s_monitor := mo, s_history := w\<rparr>"
  by (auto simp: start_monitor_def split: prod.splits)

lemma bridge_Start_running:
  assumes "bridge_Start y now s = (s', Ret ())"
  shows "s_running s'"
proof -
  obtain a m where a: "start_connect y now s = (a, Ret ())" and m: "startConnectors y a = (m, Ret ())" and e: "start_monitor y m = (s', Ret ())"
    using assms by (auto simp: bridge_Start_def then_do_Ret)
  have "starting a m" using start_connectors_starting [of y "[0..<slots a]" a m "Ret ()"] m by (simp add: startConnectors_def)
  then show ?thesis using start_connect_Ret [OF a] start_monitor_sel [OF e] by (auto simp: starting_def)
qed

text \<open>The invariant of a run.\<close>

definition tended :: "bridge \<Rightarrow> pending list \<Rightarrow> bool" where
  "tended s ps \<longleftrightarrow> s_stopped s \<or> s_running s \<and> cared_for s \<and> timer_wf s \<and>
     (stanNeeded s \<longrightarrow> s_timer s \<noteq> None \<or> PRecheck \<in> set ps \<or> PCheckConnections \<in> set ps)"

text \<open>What \<open>Stop\<close> has shut down stays down, and that is everything when it is over.\<close>

definition stop_wf :: "run \<Rightarrow> bool" where
  "stop_wf g \<longleftrightarrow> (case r_stop g of
     NotStopping \<Rightarrow> s_stopped (r_bridge g) \<longrightarrow> (\<forall>i < slots (r_bridge g). \<not> up (s_connectors (r_bridge g) ! i))
   | Clearing \<Rightarrow> s_stopped (r_bridge g)
   | Closing is \<Rightarrow> s_stopped (r_bridge g) \<and> (\<forall>i \<in> set is. i < slots (r_bridge g)) \<and>
       (\<forall>i < slots (r_bridge g). i \<notin> set is \<longrightarrow> \<not> up (s_connectors (r_bridge g) ! i)))"

definition bridge_inv :: "run \<Rightarrow> bool" where
  "bridge_inv g \<longleftrightarrow> tended (r_bridge g) (r_pending g) \<and> (s_running (r_bridge g) \<longleftrightarrow> \<not> s_stopped (r_bridge g)) \<and> stop_wf g \<and>
     (\<forall>r. PConnectorError r \<in> set (r_pending g) \<or> PListenerError r \<in> set (r_pending g) \<longrightarrow> ref_index r < slots (r_bridge g))"

lemma stop_wf_stopped: "stop_wf g \<Longrightarrow> r_stop g \<noteq> NotStopping \<Longrightarrow> s_stopped (r_bridge g)"
  by (simp add: stop_wf_def split: stop_phase.splits)

lemma bridge_init_parts:
  assumes "bridge_init y cfg g" "map_order (y_queue_order y)"
  obtains now a m mo w where "start_connect y now (NewNATSKafkaBridge\<lparr>s_config := cfg\<rparr>) = (a, Ret ())"
    "(startup_step y)\<^sup>*\<^sup>* ([0..<slots a], a) ([], m)" "r_bridge g = m\<lparr>s_monitor := mo, s_history := w\<rparr>" "same_crew a m"
    "start_wf [0..<slots a] a" "\<forall>p \<in> set (r_pending g). \<exists>i < slots (r_bridge g). p = PListenerError (Base i)" "r_stop g = NotStopping"
proof -
  obtain now a m where a: "start_connect y now (NewNATSKafkaBridge\<lparr>s_config := cfg\<rparr>) = (a, Ret ())"
    and m: "(startup_step y)\<^sup>*\<^sup>* ([0..<slots a], a) ([], m)" and e: "start_monitor y m = (r_bridge g, Ret ())"
    and g: "\<forall>p \<in> set (r_pending g). \<exists>i < slots (r_bridge g). p = PListenerError (Base i)" "r_stop g = NotStopping"
    using assms(1) unfolding bridge_init_def by blast
  have wf: "start_wf [0..<slots a] a" using start_connect_Ret [OF a] by (simp add: start_wf_def queue_wf_def)
  then have "same_crew a m" using startup_wf [OF m assms(2)] by simp
  then show thesis using that a m wf g start_monitor_sel [OF e] by blast
qed

lemma bridge_init_inv:
  assumes "bridge_init y cfg g" and ids: "distinct_ids (r_bridge g)" and ord: "map_order (y_queue_order y)"
  shows "bridge_inv g \<and> s_running (r_bridge g)"
proof -
  obtain now a m mo w where a: "start_connect y now (NewNATSKafkaBridge\<lparr>s_config := cfg\<rparr>) = (a, Ret ())"
      and run: "(startup_step y)\<^sup>*\<^sup>* ([0..<slots a], a) ([], m)" and m: "r_bridge g = m\<lparr>s_monitor := mo, s_history := w\<rparr>" "same_crew a m"
      and g: "\<forall>p \<in> set (r_pending g). \<exists>i < slots (r_bridge g). p = PListenerError (Base i)" "r_stop g = NotStopping"
    using bridge_init_parts [OF assms(1) ord] .
  have "distinct_ids a" using ids m same_crew_ids [OF m(2)] by (simp add: distinct_ids_def)
  then have "start_inv [0..<slots a] a"
    using start_connect_Ret [OF a] start_connect_down [OF a]
    by (simp add: start_inv_def cared_but_def queue_wf_def timer_wf_def covered_but_def queue_idle_def NewNATSKafkaBridge_def)
  then have inv: "start_inv [] m" using startup_inv [OF run ord] by simp
  moreover have "cared_for (r_bridge g) = cared_for m" using m by (intro cared_for_sel) simp_all
  ultimately show ?thesis using m(1) g
    by (fastforce simp: bridge_inv_def stop_wf_def tended_def start_inv_def timer_wf_def stanNeeded_def)
qed

lemma tended_requeues:
  assumes "tended s ps" "requeues s m" "\<not> s_stopped s \<Longrightarrow> cared_for m"
  shows "tended (ensureReconnectTimer m) qs"
proof (cases "s_stopped s")
  case False
  note sel = requeues_sel [OF assms(2)]
  have "timer_wf (ensureReconnectTimer m)"
    using assms(1) False sel by (intro timer_wf_ensure) (auto simp: tended_def timer_wf_def)
  moreover have "cared_for (ensureReconnectTimer m)" using assms(3) [OF False] cared_for_sel [of "ensureReconnectTimer m" m] by simp
  ultimately show ?thesis using assms(1) False sel by (auto simp: tended_def)
qed (use requeues_sel(5) [OF assms(2)] in \<open>simp add: tended_def\<close>)

lemma tended_rearm:
  assumes "s_running m" "\<not> s_stopped m" "cared_for m"
  shows "tended (rearm m) ps"
  using assms timer_wf_rearm [of m] cared_for_sel [of "rearm m" m] by (auto simp: tended_def)

text \<open>What every handler keeps, before and after \<open>Stop\<close>: the connectors and their number, the flags, and
  that a connector which is down stays down; one that is up afterwards looks the same as before.\<close>

definition steady :: "bridge \<Rightarrow> bridge \<Rightarrow> bool" where
  "steady s s' \<longleftrightarrow> slots s' = slots s \<and> s_stopped s' = s_stopped s \<and> s_running s' = s_running s \<and>
     (\<forall>i < slots s. up (s_connectors s' ! i) \<longrightarrow> up (s_connectors s ! i) \<and> looks_same (s_connectors s ! i) (s_connectors s' ! i))"

lemma steady_refl [simp, intro]: "steady s s"
  by (simp add: steady_def)

lemma steady_trans [trans]: "steady a b \<Longrightarrow> steady b c \<Longrightarrow> steady a c"
  by (auto simp: steady_def intro: looks_same_trans)

lemma steady_Shutdown:
  assumes "ref_Shutdown y r s = (s', q)" "ref_index r < slots s"
  shows "steady s s'" and "r = Full i \<Longrightarrow> \<not> up (s_connectors s' ! i)"
proof -
  note sp = ref_Shutdown_spec [OF assms]
  have ev: "evolves s s'" using sp by simp
  have "\<not> up (s_connectors s' ! i)" if "r = Full i" for i using sp that by (simp add: shutdown_law_def)
  then have "up (s_connectors s ! j) \<and> looks_same (s_connectors s ! j) (s_connectors s' ! j)" if "j < slots s" "up (s_connectors s' ! j)" for j
    using sp that by (cases r; cases "j = ref_index r") auto
  then show "steady s s'" using evolves_sel [OF ev] by (simp add: steady_def)
qed (use ref_Shutdown_spec [OF assms] in \<open>auto simp: shutdown_law_def\<close>)

lemma steady_enqueue [simp]: "steady s (enqueue r m) = steady s m" "steady s (ensureReconnectTimer m) = steady s m"
  "steady s (m\<lparr>s_reconnect := q\<rparr>) = steady s m" "steady (s\<lparr>s_history := w\<rparr>) m = steady s m"
  "steady (s\<lparr>s_reconnect := q\<rparr>) m = steady s m" "steady s (m\<lparr>s_history := w\<rparr>) = steady s m"
  by (simp_all add: steady_def enqueue_def)

lemma ConnectorError_steady:
  assumes "ConnectorError y r s = (s', q)" "ref_index r < slots s"
  shows "steady s s'"
proof -
  obtain m p where m: "ref_Shutdown y r s = (m, p)" by (metis surj_pair)
  show ?thesis using assms(1) m steady_Shutdown(1) [OF m assms(2)]
    by (cases p) (auto simp: ConnectorError_def split: if_splits)
qed

lemma check_connectors_steady:
  "check_connectors y is s = (s', q) \<Longrightarrow> \<forall>i \<in> set is. i < slots s \<Longrightarrow> steady s s'"
proof (induction "is" arbitrary: s)
  case (Cons i "is")
  obtain w e where w: "CheckConnections (y_env y) (s_conns s) (s_connectors s ! i) (s_history s) = (w, e)" by (metis surj_pair)
  let ?s = "s\<lparr>s_history := w\<rparr>"
  obtain m p where m: "ref_Shutdown y (Full i) ?s = (m, p)" by (metis surj_pair)
  have sm: "steady s m" using steady_Shutdown(1) [OF m] Cons.prems(2) by simp
  have "s' = m \<or> (\<exists>n. check_connectors y is n = (s', q) \<and> (n = s \<or> n = ?s \<or> n = enqueue (Full i) m))"
    using Cons.prems(1) w m
    by (cases "ref_ID s (Full i) \<in> keys (s_reconnect s)"; cases e; cases p) (auto simp del: ref_Shutdown.simps)
  then show ?case
  proof
    assume "\<exists>n. check_connectors y is n = (s', q) \<and> (n = s \<or> n = ?s \<or> n = enqueue (Full i) m)"
    then obtain n where n: "check_connectors y is n = (s', q)" "steady s n" using sm by auto
    then have "\<forall>i \<in> set is. i < slots n" using Cons.prems(2) by (simp add: steady_def)
    then show ?thesis using Cons.IH [OF n(1)] n(2) steady_trans by blast
  qed (use sm in simp)
qed simp

lemma checkConnections_steady: "checkConnections y s = (s', q) \<Longrightarrow> steady s s'"
  using check_connectors_steady [of y "[0..<slots s]" s]
  by (auto simp: checkConnections_def then_do_def split: prod.splits res.splits)

lemma shutdown_all_steady:
  "shutdown_all y is s = (s', Ret ()) \<Longrightarrow> \<forall>i \<in> set is. i < slots s \<Longrightarrow>
   steady s s' \<and> (\<forall>i \<in> set is. \<not> up (s_connectors s' ! i))"
proof (induction "is" arbitrary: s)
  case (Cons i "is")
  obtain m p where m: "ref_Shutdown y (Full i) s = (m, p)" by (metis surj_pair)
  have i: "i < slots s" using Cons.prems(2) by simp
  note sm = steady_Shutdown [OF m, simplified, OF i]
  have "shutdown_all y is m = (s', Ret ())" using Cons.prems(1) m by (cases p) (auto simp del: ref_Shutdown.simps)
  then have "steady m s'" "\<forall>i \<in> set is. \<not> up (s_connectors s' ! i)"
    using Cons.IH [of m] Cons.prems(2) sm(1) by (simp_all add: steady_def)
  then show ?case using sm i steady_trans by (auto simp: steady_def)
qed simp

lemma stop_one_steady:
  assumes "stop_one y i s = (s', Ret ())" "i < slots s"
  shows "steady s s' \<and> \<not> up (s_connectors s' ! i)"
proof -
  obtain m p where m: "ref_Shutdown y (Full i) s = (m, p)" by (metis surj_pair)
  then have "s' = m" using assms(1) by (cases p) (auto simp: stop_one_def)
  then show ?thesis using steady_Shutdown [OF m] assms(2) by simp
qed

lemma stop_close_sel: "stop_close y s = (s', q) \<Longrightarrow> q = Ret () \<and> (\<exists>mo w. s' = s\<lparr>s_monitor := mo, s_history := w\<rparr>)"
  by (auto simp: stop_close_def Let_def split: prod.splits)

lemma stop_rest_spec:
  assumes "stop_rest y s = (s', Ret ())"
  shows "steady s s' \<and> (\<forall>i < slots s. \<not> up (s_connectors s' ! i))"
proof -
  obtain m where m: "shutdown_all y [0..<slots s] (stop_clear s) = (m, Ret ())" and e: "stop_close y m = (s', Ret ())"
    using assms by (auto simp: stop_rest_def then_do_Ret)
  then show ?thesis using shutdown_all_steady [OF m] stop_close_sel [OF e] by (auto simp: steady_def stop_clear_def)
qed

lemma stop_wf_up:
  "stop_wf g \<Longrightarrow> slots (r_bridge h) = slots (r_bridge g) \<Longrightarrow> s_stopped (r_bridge h) = s_stopped (r_bridge g) \<Longrightarrow> r_stop h = r_stop g \<Longrightarrow>
   \<forall>i < slots (r_bridge g). up (s_connectors (r_bridge h) ! i) \<longrightarrow> up (s_connectors (r_bridge g) ! i) \<Longrightarrow> stop_wf h"
  by (auto simp: stop_wf_def split: stop_phase.splits)

lemma stop_wf_steady: "stop_wf g \<Longrightarrow> steady (r_bridge g) (r_bridge h) \<Longrightarrow> r_stop h = r_stop g \<Longrightarrow> stop_wf h"
  by (rule stop_wf_up) (auto simp: steady_def)

lemma perform_steady:
  assumes "perform y p s = ((s', q), ms)" "\<And>r. p = PConnectorError r \<Longrightarrow> ref_index r < slots s"
  shows "steady s s'"
  using assms ConnectorError_steady [of y _ s s' q] checkConnections_steady [of y s s' q]
  by (cases p) (auto simp: perform_def stanConnectionLost_def steady_def)

lemma perform_more: "perform y p s = (r, ms) \<Longrightarrow> PListenerError x \<notin> set ms \<and> (PConnectorError x \<in> set ms \<longrightarrow> p = PListenerError x)"
  by (auto simp: perform_def split: pending.splits if_splits)

lemma tended_perform:
  assumes t: "tended s (ps @ p # qs)" and run: "perform y p s = ((s', Ret ()), ms)"
    and idx: "\<And>r. p = PConnectorError r \<Longrightarrow> ref_index r < slots s" and ns: "\<not> s_stopped s"
  shows "tended s' (ps @ ms @ qs)"
proof (cases p)
  case (PConnectorError r)
  then have e: "ConnectorError y r s = (s', Ret ())" and ms: "ms = []" using run by (simp_all add: perform_def)
  have "cared_for s" using t ns by (simp add: tended_def)
  from ConnectorError_spec [OF e this idx [OF PConnectorError]]
  show ?thesis
  proof
    assume "s' = s"
    then show ?thesis using t PConnectorError by (auto simp: tended_def)
  next
    assume "\<exists>m. requeues s m \<and> cared_for m \<and> s' = ensureReconnectTimer m"
    then show ?thesis using tended_requeues [OF t] by blast
  qed
next
  case PCheckConnections
  then have "checkConnections y s = (s', Ret ())" using run by (simp add: perform_def)
  then obtain m where "requeues s m" "cared_for m" "s' = ensureReconnectTimer m"
    using checkConnections_spec [of y s s'] t ns by (auto simp: tended_def)
  then show ?thesis using tended_requeues [OF t] by blast
next
  case (PListenerError r)
  then show ?thesis using t ns run by (auto simp: tended_def perform_def)
next
  case PRecheck
  then show ?thesis using t ns run by (auto simp: tended_def perform_def checkRunning_def)
next
  case PStanLost
  have "cared_for (stanConnectionLost s) = cared_for s" by (rule cared_for_sel) (simp_all add: stanConnectionLost_def)
  then show ?thesis using t ns run PStanLost
    by (auto simp: tended_def perform_def stanConnectionLost_def timer_wf_def)
qed

section \<open>Runs of the bridge\<close>

inductive_cases bridge_stepE: "bridge_step y g h"

lemma reconnect_pass_stopped: "s_stopped s \<Longrightarrow> reconnect_pass y s = (s', q) \<Longrightarrow> s' = s\<lparr>s_timer := None\<rparr>"
  by (simp add: reconnect_pass_def)

lemma pass_tended:
  assumes t: "tended s ps" and run: "reconnect_pass y (unpark t0 s) = (s', Ret ())" and ord: "map_order (y_queue_order y)"
    and ns: "\<not> s_stopped s"
  shows "tended s' ps \<and> slots s' = slots s \<and> s_running s' \<and> \<not> s_stopped s'"
proof -
  have u: "cared_for (unpark t0 s)" "s_running (unpark t0 s)" "\<not> s_stopped (unpark t0 s)"
    using t ns cared_for_sel [of "unpark t0 s" s] by (simp_all add: tended_def unpark_def)
  obtain a m where p: "reconnects (unpark t0 s) a" "requeues a m" "cared_for m" "s' = rearm m"
    using reconnect_pass_spec [OF run u(1,3) ord] by blast
  have m: "s_running m" "\<not> s_stopped m" "slots m = slots (unpark t0 s)"
    using u reconnects_sel(1,3,6) [OF p(1)] requeues_sel(1,5,9) [OF p(2)] by simp_all
  then show ?thesis using tended_rearm [OF m(1,2) p(3)] p(4) by (simp add: unpark_def)
qed

text \<open>
  The interface of the surroundings: ranging over the queue visits every entry once. Under it each
  step keeps the invariant, so it holds throughout every run that begins with distinct identifiers.
\<close>

locale bridge_run =
  fixes y :: "('n, 'j, 'm) surroundings" and cfg :: NATSKafkaBridgeConfig
  assumes queue_order: "map_order (y_queue_order y)"
begin

lemma step_inv:
  assumes inv: "bridge_inv g" and step: "bridge_step y g h"
  shows "bridge_inv h"
  using step
proof cases
  case (handler ps p qs s ms)
  have idx: "ref_index r < slots (r_bridge g)" if "p = PConnectorError r" for r
    using inv handler(2) that by (auto simp: bridge_inv_def)
  note st = perform_steady [OF handler(3) idx]
  have "tended s (ps @ ms @ qs)"
  proof (cases "s_stopped (r_bridge g)")
    case True
    then show ?thesis using st by (simp add: tended_def steady_def)
  next
    case False
    have "tended (r_bridge g) (ps @ p # qs)" using inv handler(2) by (simp add: bridge_inv_def)
    from tended_perform [OF this handler(3) idx False] show ?thesis .
  qed
  moreover have "stop_wf h" using inv st handler(1) stop_wf_steady [of g h] by (simp add: bridge_inv_def)
  ultimately show ?thesis using inv handler st perform_more [OF handler(3)] by (auto simp: bridge_inv_def steady_def)
next
  case (timer_runs t s)
  show ?thesis
  proof (cases "s_stopped (r_bridge g)")
    case True
    then show ?thesis using inv timer_runs reconnect_pass_stopped [of "unpark t (r_bridge g)" y s]
      by (simp add: bridge_inv_def stop_wf_def tended_def unpark_def cong: stop_phase.case_cong)
  next
    case False
    then have "r_stop g = NotStopping" using inv stop_wf_stopped by (auto simp: bridge_inv_def)
    then show ?thesis using inv False timer_runs(1) pass_tended [OF _ timer_runs(3) queue_order]
      by (auto simp: bridge_inv_def stop_wf_def)
  qed
next
  case (timer_fires t)
  have "cared_for (fire t (r_bridge g)) = cared_for (r_bridge g)" by (rule cared_for_sel) (simp_all add: fire_def)
  then show ?thesis using inv timer_fires
    by (auto simp: bridge_inv_def stop_wf_def tended_def timer_wf_def stanNeeded_def fire_def split: stop_phase.splits)
next
  case stop_begins
  then show ?thesis using inv
    by (auto simp: bridge_inv_def stop_wf_def tended_def stop_timers_def stopReconnectTimer_def Let_def split: option.splits)
next
  case stop_clears
  then show ?thesis using inv by (auto simp: bridge_inv_def stop_wf_def tended_def stop_clear_def)
next
  case (stop_shuts i "is" s)
  then have "s_stopped (r_bridge g)" "i < slots (r_bridge g)" using inv by (auto simp: bridge_inv_def stop_wf_def)
  then show ?thesis using inv stop_shuts(1,2) stop_one_steady [OF stop_shuts(3)]
    by (auto simp: bridge_inv_def stop_wf_def tended_def steady_def)
next
  case (stop_ends s)
  then have "s_stopped (r_bridge g)" using inv by (auto simp: bridge_inv_def stop_wf_def)
  then show ?thesis using inv stop_ends(1,2) stop_close_sel [OF stop_ends(3)] by (auto simp: bridge_inv_def stop_wf_def tended_def)
next
  case (fetch_fails i)
  note ev = evolves_returns [OF fetch_fails(2)]
  have "stop_wf h" using inv fetch_fails(1) evolves_sel [OF ev] returns_at(1) [OF fetch_fails(2)]
    by (intro stop_wf_up [of g h]) (simp_all add: bridge_inv_def)
  moreover have "i < slots (r_bridge g)" using fetch_fails(2) by (simp add: listens_def)
  ultimately show ?thesis using inv fetch_fails(1) evolves_sel [OF ev] cared_but_returns [of "{}", OF _ fetch_fails(2)]
    by (auto simp: bridge_inv_def tended_def timer_wf_def stanNeeded_def)
next
  case (commit_fails i)
  then show ?thesis using inv
    by (auto simp: bridge_inv_def stop_wf_def tended_def listens_def split: stop_phase.splits)
next
  case (traffic i c w)
  have "steady (r_bridge g) (r_bridge h)" using traffic handles_messages_same [OF traffic(3)]
    by (auto simp: steady_def nth_list_update looks_same_def)
  then have "stop_wf h" using inv traffic(1) stop_wf_steady [of g h] by (simp add: bridge_inv_def)
  then show ?thesis using inv traffic cared_but_traffic [of "{}", OF _ traffic(2,3)]
    by (auto simp: bridge_inv_def tended_def timer_wf_def stanNeeded_def)
qed (use inv in \<open>auto simp: bridge_inv_def stop_wf_def tended_def split: stop_phase.splits\<close>)

end

sublocale bridge_run \<subseteq> invariant_system "\<lambda>g. bridge_init y cfg g \<and> distinct_ids (r_bridge g)" "bridge_step y" bridge_inv
  using bridge_init_inv queue_order step_inv by unfold_locales blast+

context bridge_run
begin

lemma run_inv:
  "reachable (\<lambda>g. bridge_init y cfg g \<and> distinct_ids (r_bridge g)) (bridge_step y) g \<Longrightarrow> bridge_inv g"
  by (rule reachable_inv)

end

text \<open>A bridge that was stopped: \<open>Stop\<close> is over and no connector is up.\<close>

definition halted :: "run \<Rightarrow> bool" where
  "halted g \<longleftrightarrow> bridge_inv g \<and> s_stopped (r_bridge g) \<and> r_stop g = NotStopping"

lemma halted_down: "halted g \<Longrightarrow> \<not> s_running (r_bridge g) \<and> (\<forall>i < slots (r_bridge g). \<not> up (s_connectors (r_bridge g) ! i))"
  by (auto simp: halted_def bridge_inv_def stop_wf_def)

context bridge_run
begin

lemma halted_step:
  assumes "halted g" "bridge_step y g h"
  shows "halted h"
proof -
  have inv: "bridge_inv g" "\<not> s_running (r_bridge g)" using assms(1) halted_down by (auto simp: halted_def)
  have "s_stopped (r_bridge h) \<and> r_stop h = NotStopping" using assms(2)
  proof cases
    case (handler ps p qs s ms)
    have "ref_index r < slots (r_bridge g)" if "p = PConnectorError r" for r
      using inv handler(2) that by (auto simp: bridge_inv_def)
    from perform_steady [OF handler(3) this] show ?thesis using assms(1) handler(1) by (simp add: halted_def steady_def)
  next
    case (timer_runs t s)
    then show ?thesis using assms(1) reconnect_pass_stopped [of "unpark t (r_bridge g)" y s] by (simp add: halted_def unpark_def)
  qed (use assms(1) inv in \<open>auto simp: halted_def fire_def checkRunning_def listener_returns_def\<close>)
  then show ?thesis using step_inv [OF inv(1) assms(2)] by (simp add: halted_def)
qed

end

sublocale bridge_run \<subseteq> halt: invariant_system halted "bridge_step y" halted
  using halted_step by unfold_locales

context bridge_run
begin

lemma run_halted: "(bridge_step y)\<^sup>*\<^sup>* g h \<Longrightarrow> halted g \<Longrightarrow> halted h"
  by (rule halt.inv_steps)

end

section \<open>A concrete run\<close>

text \<open>A bridge with a connector on the default cluster and one on a named cluster that cannot be reached.\<close>

definition half_env :: env where
  "half_env = calm_env\<lparr>env_handle := (\<lambda>w q. case q of NatsConnect url os \<Rightarrow>
     if url = ''b'' then Inl (ExtErr ''unreachable'') else Inr (length w) | _ \<Rightarrow> Inr (length w))\<rparr>"

definition half_config :: NATSKafkaBridgeConfig where
  "half_config = DefaultBridgeConfig\<lparr>
     b_NATSClusters := [zero_NATSConfig\<lparr>nats_Name := ''cell-b'', nats_Servers := [''b'']\<rparr>],
     b_Connect := [zero_ConnectorConfig\<lparr>cc_ID := ''one'', cc_Type := NATSToKafka, cc_Subject := ''s'', cc_Topic := ''t''\<rparr>,
       zero_ConnectorConfig\<lparr>cc_ID := ''two'', cc_Type := NATSToKafka, cc_Subject := ''s'', cc_Topic := ''t'',
         cc_NATSConnection := ''cell-b''\<rparr>]\<rparr>"

definition half_world :: "(bytes, bytes, bytes) surroundings" where
  "half_world = \<lparr>y_env = half_env, y_ext = demo_ext, y_cell_order = (\<lambda>m. m), y_queue_order = (\<lambda>m. m),
     y_DefaultDiscoverPrefix = ''_STAN.discover'', y_addr_port = (\<lambda>_. 0), y_nuid = (\<lambda>_. ''fresh'')\<rparr>"

interpretation half: bridge_run half_world half_config
  by unfold_locales (simp add: half_world_def)

lemma half_calls [simp]:
  "call_url half_env q w = (w @ [(q, Url ''nats://localhost:4222'')], ''nats://localhost:4222'')"
  "call_handle half_env (NatsConnect u os) w =
     (if u = ''b'' then (w @ [(NatsConnect u os, Handle (Inl (ExtErr ''unreachable'')))], Inl (ExtErr ''unreachable''))
      else (w @ [(NatsConnect u os, Handle (Inr (length w)))], Inr (length w)))"
  "call_handle half_env (NatsSubscribe c sb qn) w = (w @ [(NatsSubscribe c sb qn, Handle (Inr (length w)))], Inr (length w))"
  by (simp_all add: call_defs half_env_def calm_env_def Let_def)

lemmas half_defs = half_world_def half_config_def DefaultBridgeConfig_def zero_config_defs

lemma half_starts:
  "\<exists>s. bridge_Start half_world 0 (NewNATSKafkaBridge\<lparr>s_config := half_config\<rparr>) = (s, Ret ()) \<and> slots s = 2 \<and> s_running s \<and>
    map (\<lambda>c. conn_ID (n_base c)) (s_connectors s) = [''one'', ''two''] \<and> s_reconnect s = [(''two'', Full 1)] \<and>
    (\<forall>c \<in> set (s_connectors s). n_kind c = NATS2Kafka)"
  by (simp add: half_defs bridge_Start_def start_connect_def start_monitor_def start_one_def NewNATSKafkaBridge_def start_init_def ValidateNATSClusters_def fill_cluster_def
     no_conns_def connectToNATS_def build_cells_def dialCell_def dial_options_def client_name_def new_cell_def update_cell_def
     connectToSTAN_def connectToJetStream_def cellHasJetStream_def connector_type_defs initializeConnectors_def CreateConnector_def
     NewNATS2KafkaConnector_def new_connector_def init_connector_def initDestTemplate_def demo_ext_def startConnectors_def
     Start_def NATS2Kafka_Start_def CheckNATSFor_def isConnected_def subscribed_def subscribeToNATS_def NATSFor_def
     mark_connected_def AddConnect_def put_conn_def enqueue_def ref_ID_def ref_NATSConnection_def conn_at_def conn_ID_def
     holder_ID_def conn_NATSConnection_def NewConnectorStatsHolder_def SetNATSConnection_def ensureReconnectTimer_def
     startMonitoring_def upt_rec Let_def then_do_def with_conns_def requires_err_def)

lemma half_reaches:
  "\<exists>g. reachable (\<lambda>g. bridge_init half_world half_config g \<and> distinct_ids (r_bridge g)) (bridge_step half_world) g \<and>
    s_running (r_bridge g) \<and> slots (r_bridge g) = 2 \<and> id_at (r_bridge g) 1 = ''two'' \<and>
    s_reconnect (r_bridge g) = [(''two'', Full 1)] \<and> (\<forall>c \<in> set (s_connectors (r_bridge g)). n_kind c = NATS2Kafka)"
proof -
  obtain s where s: "bridge_Start half_world 0 (NewNATSKafkaBridge\<lparr>s_config := half_config\<rparr>) = (s, Ret ())" "slots s = 2" "s_running s"
      and ids: "map (\<lambda>c. conn_ID (n_base c)) (s_connectors s) = [''one'', ''two'']" and q: "s_reconnect s = [(''two'', Full 1)]"
      and k: "\<forall>c \<in> set (s_connectors s). n_kind c = NATS2Kafka"
    using half_starts by (elim exE conjE)
  let ?g = "\<lparr>r_bridge = s, r_pending = [], r_stop = NotStopping\<rparr>"
  have "id_at s i = [''one'', ''two''] ! i" if "i < 2" for i using ids s(2) that by (metis nth_map)
  then have i: "id_at s 0 = ''one''" "id_at s 1 = ''two''" by simp_all
  have init: "bridge_init half_world half_config ?g \<and> distinct_ids (r_bridge ?g)"
    using s i bridge_init_Start [OF s(1)] by (auto simp: distinct_ids_def less_2_cases_iff)
  show ?thesis using reach_init [of "\<lambda>g. bridge_init half_world half_config g \<and> distinct_ids (r_bridge g)", OF init]
      s(2,3) i(2) q k by (intro exI [of _ ?g]) simp
qed

section \<open>Listener errors and shared identifiers\<close>

lemma restart_base:
  "restart_all y rd es s = (s', q) \<Longrightarrow> \<forall>(k, r) \<in> set es. \<exists>i. r = Base i \<Longrightarrow> s_connectors s' = s_connectors s"
proof (induction es arbitrary: s)
  case (Cons e es)
  obtain k i where e: "e = (k, Base i)" using Cons.prems(2) by (cases e) auto
  obtain m ok where m: "may_start y rd (Base i) s = (m, ok)" by (metis surj_pair)
  then have "s_connectors m = s_connectors s" using may_start_spec by fastforce
  then show ?case using Cons e m by (cases ok) (simp_all add: base_Start_def put_conn_def)
qed simp

lemma check_connectors_append:
  "check_connectors y (xs @ ys) s = then_do (check_connectors y xs s) (check_connectors y ys)"
proof (induction xs arbitrary: s)
  case (Cons i xs)
  obtain w e where w: "CheckConnections (y_env y) (s_conns s) (s_connectors s ! i) (s_history s) = (w, e)" by (metis surj_pair)
  obtain m q where m: "ref_Shutdown y (Full i) (s\<lparr>s_history := w\<rparr>) = (m, q)" by (metis surj_pair)
  show ?case using Cons w m by (cases e; cases q) (auto simp: then_do_def simp del: ref_Shutdown.simps)
qed (simp add: then_do_def)

text \<open>One turn of the loop, as what it does to the connector at its index and to the queue.\<close>

lemma check_connectors_Cons:
  assumes "check_connectors y (i # is) s = (s', Ret ())" "i < slots s"
  obtains n where "check_connectors y is n = (s', Ret ())" "slots n = slots s"
    "\<forall>j < slots s. id_at n j = id_at s j" "\<forall>j < slots s. j \<noteq> i \<longrightarrow> s_connectors n ! j = s_connectors s ! j"
    "s_connectors n ! i = s_connectors s ! i \<and> s_reconnect n = s_reconnect s \<or>
     id_at s i \<notin> keys (s_reconnect s) \<and> s_reconnect n = map_put (id_at s i) (Full i) (s_reconnect s)"
proof -
  obtain w e where w: "CheckConnections (y_env y) (s_conns s) (s_connectors s ! i) (s_history s) = (w, e)" by (metis surj_pair)
  let ?s = "s\<lparr>s_history := w\<rparr>"
  obtain m q where m: "ref_Shutdown y (Full i) ?s = (m, q)" by (metis surj_pair)
  note sp = ref_Shutdown_spec [OF m, simplified, OF assms(2)]
  then have ev: "evolves ?s m" by simp
  consider (skip) "check_connectors y is s = (s', Ret ())" | (happy) "check_connectors y is ?s = (s', Ret ())"
    | (queued) "id_at s i \<notin> keys (s_reconnect s)" "check_connectors y is (enqueue (Full i) m) = (s', Ret ())"
    using assms(1) w m
    by (cases "ref_ID s (Full i) \<in> keys (s_reconnect s)"; cases e; cases q)
      (auto simp: ref_ID_def conn_at_def simp del: ref_Shutdown.simps)
  then show thesis
  proof cases
    case queued
    show thesis
    proof (rule that [OF queued(2)])
      show "slots (enqueue (Full i) m) = slots s" using evolves_sel(11) [OF ev] by (simp add: enqueue_def)
      show "\<forall>j < slots s. id_at (enqueue (Full i) m) j = id_at s j" using evolves_id [OF ev] by (simp add: enqueue_def)
      show "\<forall>j < slots s. j \<noteq> i \<longrightarrow> s_connectors (enqueue (Full i) m) ! j = s_connectors s ! j" using sp by (simp add: enqueue_def)
    qed (use queued(1) evolves_id [OF ev, of i] evolves_sel(4) [OF ev] assms(2) in \<open>simp add: enqueue_def ref_ID_def conn_at_def\<close>)
  qed (auto intro: that)
qed

lemma check_connectors_frame:
  "check_connectors y is s = (s', Ret ()) \<Longrightarrow> \<forall>i \<in> set is. i < slots s \<Longrightarrow> j < slots s \<Longrightarrow>
   j \<notin> set is \<or> id_at s j \<in> keys (s_reconnect s) \<Longrightarrow> s_connectors s' ! j = s_connectors s ! j"
proof (induction "is" arbitrary: s)
  case (Cons i "is")
  have i: "i < slots s" using Cons.prems(2) by simp
  from check_connectors_Cons [OF Cons.prems(1) i] obtain n where n: "check_connectors y is n = (s', Ret ())"
      "slots n = slots s" "\<forall>j < slots s. id_at n j = id_at s j" "\<forall>j < slots s. j \<noteq> i \<longrightarrow> s_connectors n ! j = s_connectors s ! j"
      "s_connectors n ! i = s_connectors s ! i \<and> s_reconnect n = s_reconnect s \<or>
       id_at s i \<notin> keys (s_reconnect s) \<and> s_reconnect n = map_put (id_at s i) (Full i) (s_reconnect s)" .
  have "s_connectors n ! j = s_connectors s ! j" using n(4,5) Cons.prems(3,4) by (cases "j = i") auto
  moreover have "s_connectors s' ! j = s_connectors n ! j"
    using Cons.IH [OF n(1)] n(2,3,5) Cons.prems(2-4) by auto
  ultimately show ?case by simp
qed simp

lemma reconnect_pass_base:
  assumes run: "reconnect_pass y s = (s', Ret ())" and ord: "map_order (y_queue_order y)"
    and base: "\<forall>(k, r) \<in> set (s_reconnect s). \<exists>i. r = Base i"
  shows "s_connectors s' = s_connectors s"
proof (cases "s_stopped s")
  case True
  then show ?thesis using reconnect_pass_stopped [OF True run] by simp
next
  case False
  obtain a rd m where p: "reconnects s a" "restart_all y rd (y_queue_order y (s_reconnect a)) a = (m, Ret ())" "s' = rearm m"
    using reconnect_pass_parts [OF run False] .
  have "\<forall>(k, r) \<in> set (y_queue_order y (s_reconnect a)). \<exists>i. r = Base i"
    using base map_order.set_order [OF ord] reconnects_sel(4) [OF p(1)] by simp
  from restart_base [OF p(2) this] show ?thesis using p(3) reconnects_sel(3) [OF p(1)] by simp
qed

lemma half_flag [simp]: "call_flag half_env q w = (w @ [(q, Flag False)], False)"
  by (simp add: call_defs half_env_def calm_env_def Let_def)

text \<open>The timer of the bridge is armed: a goroutine waits for it, or is about to run its pass.\<close>

definition repair_armed :: "bridge \<Rightarrow> bool" where
  "repair_armed s \<longleftrightarrow> (case s_timer s of None \<Rightarrow> False | Some t \<Rightarrow> t \<in> set (s_waiting s) \<union> set (s_parked s))"

lemma tended_armed: "tended s ps \<Longrightarrow> \<not> s_stopped s \<Longrightarrow> s_timer s \<noteq> None \<Longrightarrow> repair_armed s"
  by (auto simp: tended_def timer_wf_def repair_armed_def split: option.splits)

lemma check_arms:
  assumes "tended s ps" "\<not> s_stopped s" "s_running s" "checkConnections y s = (s', Ret ())"
  shows "repair_armed s'"
proof -
  obtain m where m: "requeues s m" "cared_for m" "s' = ensureReconnectTimer m"
    using checkConnections_spec [of y s s'] assms by (auto simp: tended_def)
  have "tended s' ps" using tended_requeues [OF assms(1) m(1)] m(2,3) by blast
  moreover have "\<not> s_stopped s'" "s_timer s' \<noteq> None" using m(3) requeues_sel(5) [OF m(1)] assms(2) by simp_all
  ultimately show ?thesis by (rule tended_armed)
qed

section \<open>Properties\<close>

text \<open>C2. No connector is forgotten, except one whose listener has returned. In every state a running bridge can
  reach, through any interleaving of listener errors, lost connections, handlers, timers and message
  traffic, and of timers with the end of \<open>Start\<close>, each connector works (it is up and has its
  subscription, or its listener goroutine), or it is in the reconnect queue under its identifier as
  itself, or it reads from Kafka, is up and its listener has returned on an error, provided the
  configured identifiers are distinct.\<close>

theorem no_connector_forgotten:
  assumes "map_order (y_queue_order y)"
    and "reachable (\<lambda>g. bridge_init y cfg g \<and> distinct_ids (r_bridge g)) (bridge_step y) g"
    and "s_running (r_bridge g)" and "i < slots (r_bridge g)"
  shows "works (s_connectors (r_bridge g) ! i) \<or> map_of (s_reconnect (r_bridge g)) (id_at (r_bridge g) i) = Some (Full i) \<or>
    stranded (s_connectors (r_bridge g) ! i)"
  using bridge_run.run_inv [OF bridge_run.intro [OF assms(1)] assms(2)] assms(3,4)
  by (auto simp: bridge_inv_def tended_def cared_for_def covered_def)

theorem no_connector_forgotten_witness:
  "\<exists>g. reachable (\<lambda>g. bridge_init half_world half_config g \<and> distinct_ids (r_bridge g)) (bridge_step half_world) g \<and>
    s_reconnect (r_bridge g) = [(''two'', Full 1)] \<and> works (s_connectors (r_bridge g) ! 0)"
proof -
  obtain g where g: "reachable (\<lambda>g. bridge_init half_world half_config g \<and> distinct_ids (r_bridge g)) (bridge_step half_world) g"
      "s_running (r_bridge g)" "slots (r_bridge g) = 2" "id_at (r_bridge g) 1 = ''two''" "s_reconnect (r_bridge g) = [(''two'', Full 1)]"
      "\<forall>c \<in> set (s_connectors (r_bridge g)). n_kind c = NATS2Kafka"
    using half_reaches by (elim exE conjE)
  have "n_kind (s_connectors (r_bridge g) ! 0) = NATS2Kafka" using g(3,6) by simp
  then have "works (s_connectors (r_bridge g) ! 0)"
    using no_connector_forgotten [OF half.queue_order g(1,2), of 0] g(3,5) by (simp add: stranded_def readsKafka_def split: if_splits)
  then show ?thesis using g(1,5) by (intro exI conjI)
qed

text \<open>C9. A repair is always scheduled. While a bridge with distinct identifiers runs, a non-empty reconnect queue
  always has the reconnect timer armed, with a goroutine that waits for the timer or is about to run
  its pass; a configured streaming connection that is lost has such a timer, or a handler is
  under way that checks the connections, and a check of the connections that returns leaves the timer
  armed, with such a goroutine.\<close>

theorem repair_always_scheduled:
  assumes "map_order (y_queue_order y)"
    and "reachable (\<lambda>g. bridge_init y cfg g \<and> distinct_ids (r_bridge g)) (bridge_step y) g"
    and "s_running (r_bridge g)"
  shows "(s_reconnect (r_bridge g) \<noteq> [] \<longrightarrow> repair_armed (r_bridge g)) \<and>
    (stanNeeded (r_bridge g) \<longrightarrow> repair_armed (r_bridge g) \<or> PRecheck \<in> set (r_pending g) \<or> PCheckConnections \<in> set (r_pending g)) \<and>
    (\<forall>s'. checkConnections y (r_bridge g) = (s', Ret ()) \<longrightarrow> repair_armed s')"
proof -
  have inv: "tended (r_bridge g) (r_pending g)" "\<not> s_stopped (r_bridge g)" "s_running (r_bridge g)"
    using bridge_run.run_inv [OF bridge_run.intro [OF assms(1)] assms(2)] assms(3) by (simp_all add: bridge_inv_def)
  have "repair_armed s'" if "checkConnections y (r_bridge g) = (s', Ret ())" for s' by (rule check_arms [OF inv that])
  moreover have "repair_armed (r_bridge g)" if "s_timer (r_bridge g) \<noteq> None" by (rule tended_armed [OF inv(1,2) that])
  ultimately show ?thesis using inv by (auto simp: tended_def timer_wf_def)
qed

theorem repair_always_scheduled_witness:
  "\<exists>g. reachable (\<lambda>g. bridge_init half_world half_config g \<and> distinct_ids (r_bridge g)) (bridge_step half_world) g \<and>
    s_reconnect (r_bridge g) = [(''two'', Full 1)] \<and> repair_armed (r_bridge g)"
proof -
  obtain g where g: "reachable (\<lambda>g. bridge_init half_world half_config g \<and> distinct_ids (r_bridge g)) (bridge_step half_world) g"
      "s_running (r_bridge g)" "s_reconnect (r_bridge g) = [(''two'', Full 1)]"
    using half_reaches by (elim exE conjE)
  have "repair_armed (r_bridge g)" using repair_always_scheduled [OF half.queue_order g(1,2)] g(3) by simp
  with g(1,3) show ?thesis by (intro exI conjI)
qed

definition idle_bridge :: bridge where
  "idle_bridge = NewNATSKafkaBridge\<lparr>s_running := True, s_conns := demo_conns, s_connectors :=
     [\<lparr>n_kind = Kafka2NATS, n_base = demo_conn, n_sub = None, n_reader = None, n_listening = True, n_alive = False\<rparr>]\<rparr>"


definition two_config :: ConnectorConfig where
  "two_config = zero_ConnectorConfig\<lparr>cc_NATSConnection := ''cell-b''\<rparr>"

definition cut_off :: bridge where
  "cut_off = idle_bridge\<lparr>s_connectors := [\<lparr>n_kind = NATS2Kafka, n_base = demo_conn\<lparr>k_config := two_config\<rparr>,
     n_sub = None, n_reader = None, n_listening = False, n_alive = False\<rparr>]\<rparr>"


text \<open>C34. A listener that dies is not restarted. A Kafka listener reports its error with the embedded base
  connector, whose shutdown and start do nothing: it is queued, and the next pass changes no connector,
  so the reader stays as it is, without a listener, and is counted as connected.\<close>

theorem dead_listener_not_restarted:
  assumes "map_order (y_queue_order y)" and "s_reconnect s = []" and "i < slots s"
    and "ConnectorError y (Base i) s = (s1, Ret ())" and "reconnect_pass y s1 = (s2, Ret ())"
  shows "s_reconnect s1 = [(id_at s i, Base i)] \<and> s_connectors s1 = s_connectors s \<and> s_connectors s2 = s_connectors s"
proof -
  have s1: "s1 = ensureReconnectTimer (enqueue (Base i) s)"
    using assms(2,4) by (simp add: ConnectorError_def base_Shutdown_def put_conn_def)
  then have q: "s_reconnect s1 = [(id_at s i, Base i)]" "s_connectors s1 = s_connectors s"
    using assms(2) by (simp_all add: enqueue_def ref_ID_def conn_at_def)
  then show ?thesis using reconnect_pass_base [OF assms(5,1)] by simp
qed

lemma idle_pass:
  "\<exists>s1 s2. ConnectorError half_world (Base 0) idle_bridge = (s1, Ret ()) \<and> reconnect_pass half_world s1 = (s2, Ret ()) \<and>
    s_reconnect s2 = [] \<and> s_timer s2 = None"
  by (simp add: ConnectorError_def idle_bridge_def NewNATSKafkaBridge_def base_Shutdown_def base_Start_def put_conn_def enqueue_def
      ref_ID_def conn_at_def ensureReconnectTimer_def reconnect_pass_def pass_stan_def Stan_def demo_conns_def half_world_def
      ref_NATSConnection_def conn_NATSConnection_def demo_conn_def zero_config_defs redialCell_def redial_begin_def redial_js_def
      with_conns_def Let_def may_start_def CheckNATSFor_def isConnected_def map_get_def then_do_def rearm_def stanNeeded_def
      DefaultBridgeConfig_def)

theorem dead_listener_not_restarted_witness:
  "\<exists>s1 s2. ConnectorError half_world (Base 0) idle_bridge = (s1, Ret ()) \<and> reconnect_pass half_world s1 = (s2, Ret ()) \<and>
    s_reconnect s2 = [] \<and> s_timer s2 = None \<and> s_connectors s2 = s_connectors idle_bridge"
proof -
  obtain s1 s2 where run: "ConnectorError half_world (Base 0) idle_bridge = (s1, Ret ())" "reconnect_pass half_world s1 = (s2, Ret ())"
      and q: "s_reconnect s2 = []" "s_timer s2 = None"
    using idle_pass by (elim exE conjE)
  have "s_reconnect idle_bridge = []" "0 < slots idle_bridge" by (simp_all add: idle_bridge_def NewNATSKafkaBridge_def)
  from dead_listener_not_restarted [OF half.queue_order this run] have "s_connectors s2 = s_connectors idle_bridge" by simp
  with run q show ?thesis by (intro exI conjI)
qed

text \<open>Connectors that share an identifier are not all restarted. When a lost connection makes the bridge shut
  down a connector, another one behind it in the list with the same identifier is left as it is,
  and the queue has the first one only.\<close>

theorem duplicate_id_skipped:
  assumes run: "checkConnections y s = (s', Ret ())" and ij: "i < j" "j < slots s" and same: "id_at s i = id_at s j"
    and down: "up (s_connectors s ! i)" "\<not> up (s_connectors s' ! i)"
  shows "s_connectors s' ! j = s_connectors s ! j"
proof -
  let ?rest = "[Suc i..<slots s]"
  have split: "[0..<slots s] = [0..<i] @ i # ?rest" using ij upt_add_eq_append [of 0 i "slots s - i"] upt_conv_Cons [of i "slots s"] by simp
  obtain m where m: "check_connectors y [0..<slots s] s = (m, Ret ())" and s': "s_connectors s' = s_connectors m"
    using run by (auto simp: checkConnections_def then_do_Ret)
  obtain a where a: "check_connectors y [0..<i] s = (a, Ret ())" and tl: "check_connectors y (i # ?rest) a = (m, Ret ())"
    using m unfolding split check_connectors_append then_do_Ret by blast
  have sa: "slots a = slots s" using check_connectors_steady [OF a] ij by (simp add: steady_def)
  have fr: "s_connectors a ! k = s_connectors s ! k" if "i \<le> k" "k < slots s" for k
    using check_connectors_frame [OF a, of k] that ij by simp
  obtain n where n: "check_connectors y ?rest n = (m, Ret ())" "slots n = slots a" "\<forall>j < slots a. id_at n j = id_at a j"
      "\<forall>j < slots a. j \<noteq> i \<longrightarrow> s_connectors n ! j = s_connectors a ! j"
      "s_connectors n ! i = s_connectors a ! i \<and> s_reconnect n = s_reconnect a \<or>
       id_at a i \<notin> keys (s_reconnect a) \<and> s_reconnect n = map_put (id_at a i) (Full i) (s_reconnect a)"
    using check_connectors_Cons [OF tl] ij sa by auto
  have mi: "s_connectors m ! i = s_connectors n ! i" using check_connectors_frame [OF n(1), of i] ij sa n(2) by simp
  then have "id_at n j \<in> keys (s_reconnect n)" using n(3,5) down s' fr [of i] fr [of j] ij sa same by auto
  then have "s_connectors m ! j = s_connectors n ! j" using check_connectors_frame [OF n(1), of j] ij sa n(2) by simp
  then show ?thesis using s' n(4) fr [of j] ij sa by simp
qed

definition twins :: bridge where
  "twins = idle_bridge\<lparr>s_conns := \<lparr>bn_cells = [], bn_stan = None\<rparr>, s_connectors := replicate 2 (mark_connected
     \<lparr>n_kind = NATS2Kafka, n_base = demo_conn, n_sub = None, n_reader = None, n_listening = False, n_alive = False\<rparr>)\<rparr>"

lemma twins_check:
  "\<exists>s'. checkConnections half_world twins = (s', Ret ()) \<and> \<not> up (s_connectors s' ! 0)"
  by (simp add: checkConnections_def twins_def idle_bridge_def NewNATSKafkaBridge_def half_world_def demo_ext_def demo_conn_def
      zero_config_defs upt_rec ref_ID_def conn_at_def conn_ID_def holder_ID_def CheckConnections_def NATS2Kafka_CheckConnections_def
      check_def CheckNATSFor_def Shutdown_def NATS2Kafka_Shutdown_def mark_disconnected_def closeWriters_def AddDisconnect_def
      mark_connected_def AddConnect_def NewConnectorStatsHolder_def put_conn_def enqueue_def then_do_def ensureReconnectTimer_def
      numeral_2_eq_2 Let_def)

theorem duplicate_id_skipped_witness:
  "\<exists>s'. checkConnections half_world twins = (s', Ret ()) \<and> \<not> up (s_connectors s' ! 0) \<and>
    s_connectors s' ! 1 = s_connectors twins ! 1 \<and> up (s_connectors s' ! 1)"
proof -
  obtain s' where s': "checkConnections half_world twins = (s', Ret ())" "\<not> up (s_connectors s' ! 0)"
    using twins_check by (elim exE conjE)
  have t: "1 < slots twins" "id_at twins 0 = id_at twins 1" "up (s_connectors twins ! 0)" "up (s_connectors twins ! 1)"
    by (simp_all add: twins_def)
  have "s_connectors s' ! 1 = s_connectors twins ! 1"
    by (rule duplicate_id_skipped [OF s'(1) _ t(1,2,3) s'(2)]) simp
  with s' t show ?thesis by (intro exI [of _ s']) simp
qed

end
