(* ===== verification/Lifecycle.thy ===== *)
theory Lifecycle
  imports BridgeLaws
begin

text \<open>
  What the bridge promises about the life of its connectors, as an abstract machine, and the proof that
  the goroutines of \<open>BridgeLaws\<close> implement it. A connector works, is stranded without its listener, is
  being repaired, or is down for good; the bridge serves, is stopping, or has halted.
\<close>

section \<open>The specification\<close>

datatype mode = Serving | Stopping | Halted

datatype phase = Working | Stranded | Repairing | Down

record life =
  l_mode :: mode
  l_phases :: "phase list"

definition retire :: "phase \<Rightarrow> phase" where
  "retire p = (if p = Repairing then Down else p)"

text \<open>
  While the bridge serves, a connector that works may break or lose its listener, one without listener
  may break too, and one that is being repaired may work again; none goes down, and one that has lost
  its listener works again only after it broke and was repaired. Stopping gives up the repairs; from
  then on connectors only lose their listeners and go down, and the bridge halts when all of them are
  down. A halted bridge does not change any more.
\<close>

inductive life_step :: "life \<Rightarrow> life \<Rightarrow> bool" where
  breaks: "i < length ps \<Longrightarrow> ps ! i = Working \<or> ps ! i = Stranded \<Longrightarrow>
    life_step \<lparr>l_mode = Serving, l_phases = ps\<rparr> \<lparr>l_mode = Serving, l_phases = ps[i := Repairing]\<rparr>"
| strands: "i < length ps \<Longrightarrow> ps ! i = Working \<Longrightarrow> m \<noteq> Halted \<Longrightarrow>
    life_step \<lparr>l_mode = m, l_phases = ps\<rparr> \<lparr>l_mode = m, l_phases = ps[i := Stranded]\<rparr>"
| repaired: "i < length ps \<Longrightarrow> ps ! i = Repairing \<Longrightarrow>
    life_step \<lparr>l_mode = Serving, l_phases = ps\<rparr> \<lparr>l_mode = Serving, l_phases = ps[i := Working]\<rparr>"
| stops: "life_step \<lparr>l_mode = Serving, l_phases = ps\<rparr> \<lparr>l_mode = Stopping, l_phases = map retire ps\<rparr>"
| goes_down: "i < length ps \<Longrightarrow> ps ! i = Working \<or> ps ! i = Stranded \<Longrightarrow>
    life_step \<lparr>l_mode = Stopping, l_phases = ps\<rparr> \<lparr>l_mode = Stopping, l_phases = ps[i := Down]\<rparr>"
| halts: "\<forall>p \<in> set ps. p = Down \<Longrightarrow>
    life_step \<lparr>l_mode = Stopping, l_phases = ps\<rparr> \<lparr>l_mode = Halted, l_phases = ps\<rparr>"

definition life_init :: "life \<Rightarrow> bool" where
  "life_init a \<longleftrightarrow> l_mode a = Serving \<and> Down \<notin> set (l_phases a)"

text \<open>What the specification guarantees of every run: a serving bridge has no connector that is down and not
  being repaired.\<close>

lemma life_step_cases:
  assumes "life_step a b"
  shows "l_mode a \<noteq> Halted \<and> length (l_phases b) = length (l_phases a) \<and>
    (l_mode b = Serving \<longrightarrow> l_mode a = Serving) \<and> (l_mode a = Stopping \<longrightarrow> l_mode b \<noteq> Serving) \<and>
    (\<forall>i < length (l_phases a). l_phases a ! i = Down \<longrightarrow> l_phases b ! i = Down)"
  using assms by cases (auto simp: nth_list_update retire_def)

lemma life_serving_up:
  assumes "life_step\<^sup>*\<^sup>* a b" "life_init a" "l_mode b = Serving"
  shows "Down \<notin> set (l_phases b)"
  using assms(1,3)
proof (induction rule: rtranclp_induct)
  case (step b c)
  from step.hyps(2) step.IH step.prems show ?case by cases (auto dest!: set_update_subset_insert [THEN subsetD])
qed (use assms(2) in \<open>simp add: life_init_def\<close>)

section \<open>The abstraction\<close>

text \<open>
  A connector is being repaired when it is in the reconnect queue as itself, and the timer that
  leads to a reconnect pass is armed.
\<close>

definition phase_of :: "bridge \<Rightarrow> nat \<Rightarrow> phase" where
  "phase_of s i =
     (if works (s_connectors s ! i) then Working
      else if stranded (s_connectors s ! i) then Stranded
      else if \<not> s_stopped s \<and> map_of (s_reconnect s) (id_at s i) = Some (Full i) \<and> repair_armed s then Repairing
      else Down)"

definition life_of :: "run \<Rightarrow> life" where
  "life_of g = \<lparr>l_mode = (if \<not> s_stopped (r_bridge g) then Serving else if r_stop g \<noteq> NotStopping then Stopping else Halted),
     l_phases = map (phase_of (r_bridge g)) [0..<slots (r_bridge g)]\<rparr>"

section \<open>The refinement\<close>

text \<open>What the invariant leaves of the phases: they can be read off the connectors alone.\<close>

definition shown :: "phase \<Rightarrow> connector \<Rightarrow> phase" where
  "shown p c = (if works c then Working else if stranded c then Stranded else p)"

lemma shown_same [simp]: "looks_same c c' \<Longrightarrow> shown p c' = shown p c"
  by (simp add: looks_same_def shown_def)

lemma shown_down [simp]: "\<not> up c \<Longrightarrow> shown p c = p"
  by (simp add: shown_def works_def stranded_def)

lemma shown_moves:
  assumes "looks_same c c' \<or> \<not> up c' \<or> works c \<and> stranded c' \<or> a \<and> \<not> up c \<and> works c'"
  shows "shown p c' = shown p c \<or> (shown p c = Working \<or> shown p c = Stranded) \<and> shown p c' = p \<or>
    shown p c = Working \<and> shown p c' = Stranded \<or> a \<and> shown p c = p \<and> shown p c' = Working"
  using assms by (auto simp: shown_def looks_same_def works_def stranded_def)

definition phases :: "run \<Rightarrow> phase list" where
  "phases g = map (shown (if s_stopped (r_bridge g) then Down else Repairing)) (s_connectors (r_bridge g))"

lemma life_phases:
  assumes "bridge_inv g"
  shows "l_phases (life_of g) = phases g"
proof (cases "s_stopped (r_bridge g)")
  case False
  then have c: "cared_for (r_bridge g)" "timer_wf (r_bridge g)" using assms by (simp_all add: bridge_inv_def tended_def)
  have "phase_of (r_bridge g) i = shown Repairing (s_connectors (r_bridge g) ! i)" if i: "i < slots (r_bridge g)" for i
  proof (cases "held (s_connectors (r_bridge g) ! i)")
    case nh: False
    then have q: "map_of (s_reconnect (r_bridge g)) (id_at (r_bridge g) i) = Some (Full i)"
      using c(1) i by (auto simp: cared_for_def covered_def)
    then have "s_reconnect (r_bridge g) \<noteq> []" by auto
    then have "repair_armed (r_bridge g)" using c(2) by (auto simp: timer_wf_def repair_armed_def split: option.splits)
    then show ?thesis using nh q False by (simp add: phase_of_def shown_def)
  qed (auto simp: phase_of_def shown_def)
  then have "map (phase_of (r_bridge g)) [0..<slots (r_bridge g)] = phases g"
    using False by (intro nth_equalityI) (simp_all add: phases_def)
  then show ?thesis by (simp add: life_of_def)
next
  case True
  then have "map (phase_of (r_bridge g)) [0..<slots (r_bridge g)] = phases g"
    by (intro nth_equalityI) (simp_all add: phases_def phase_of_def shown_def)
  then show ?thesis by (simp add: life_of_def)
qed

text \<open>A change of some connectors in one mode of the bridge.\<close>

lemma life_changes:
  assumes "\<And>ps i p. i < length ps \<Longrightarrow> R (ps ! i) p \<Longrightarrow> life_step \<lparr>l_mode = md, l_phases = ps\<rparr> \<lparr>l_mode = md, l_phases = ps[i := p]\<rparr>"
    and inv: "bridge_inv g" "bridge_inv h" and md: "l_mode (life_of g) = md" "l_mode (life_of h) = md"
    and "slots (r_bridge h) = slots (r_bridge g)"
    and "\<And>i. i < slots (r_bridge g) \<Longrightarrow> phases h ! i = phases g ! i \<or> R (phases g ! i) (phases h ! i)"
  shows "life_step\<^sup>*\<^sup>* (life_of g) (life_of h)"
proof -
  have "life_step\<^sup>*\<^sup>* \<lparr>l_mode = md, l_phases = phases g\<rparr> \<lparr>l_mode = md, l_phases = phases h\<rparr>"
    by (rule pointwise_steps [of R life_step "\<lambda>ps. \<lparr>l_mode = md, l_phases = ps\<rparr>"])
      (use assms in \<open>auto simp: list_all2_conv_all_nth phases_def\<close>)
  moreover have "life_of g = \<lparr>l_mode = md, l_phases = phases g\<rparr>" "life_of h = \<lparr>l_mode = md, l_phases = phases h\<rparr>"
    using md life_phases inv by (metis life.surjective old.unit.exhaust)+
  ultimately show ?thesis by simp
qed

text \<open>What a step that is not one of \<open>Stop\<close> does to a connector: nothing one could see, it takes it down, its
  listener returns, or, as long as the bridge is not stopped, it mends it.\<close>

definition moves :: "bridge \<Rightarrow> bridge \<Rightarrow> bool" where
  "moves s s' \<longleftrightarrow> slots s' = slots s \<and> s_stopped s' = s_stopped s \<and>
     (\<forall>i < slots s. let c = s_connectors s ! i; c' = s_connectors s' ! i in
        looks_same c c' \<or> \<not> up c' \<or> works c \<and> stranded c' \<or> \<not> s_stopped s \<and> \<not> up c \<and> works c')"

lemma moves_steady: "steady s s' \<Longrightarrow> moves s s'"
  by (auto simp: moves_def steady_def Let_def)

lemma moves_returns: "listens s i \<Longrightarrow> moves s (listener_returns i s)"
  using returns_at(3) [of s i] evolves_sel(6,11) [OF evolves_returns, of s i] by (auto simp: moves_def Let_def)

lemma moves_mended: "mended s s' \<Longrightarrow> \<not> s_stopped s \<Longrightarrow> \<not> s_stopped s' \<Longrightarrow> moves s s'"
  by (auto simp: moves_def mended_def Let_def)

lemma halted_life:
  assumes "halted g"
  shows "life_of g = \<lparr>l_mode = Halted, l_phases = replicate (slots (r_bridge g)) Down\<rparr>"
proof -
  have "phases g = replicate (slots (r_bridge g)) Down"
    using assms halted_down [OF assms] by (intro nth_equalityI) (simp_all add: phases_def halted_def)
  then have "l_phases (life_of g) = replicate (slots (r_bridge g)) Down" using assms life_phases by (simp add: halted_def)
  moreover have "l_mode (life_of g) = Halted" using assms by (simp add: life_of_def halted_def)
  ultimately show ?thesis by simp
qed

lemma moves_life:
  assumes inv: "bridge_inv g" "bridge_inv h" and mv: "moves (r_bridge g) (r_bridge h)"
    and stop: "r_stop h = NotStopping \<longleftrightarrow> r_stop g = NotStopping"
  shows "life_step\<^sup>*\<^sup>* (life_of g) (life_of h)"
proof -
  have "looks_same (s_connectors (r_bridge g) ! i) (s_connectors (r_bridge h) ! i) \<or> \<not> up (s_connectors (r_bridge h) ! i) \<or>
      works (s_connectors (r_bridge g) ! i) \<and> stranded (s_connectors (r_bridge h) ! i) \<or>
      \<not> s_stopped (r_bridge g) \<and> \<not> up (s_connectors (r_bridge g) ! i) \<and> works (s_connectors (r_bridge h) ! i)"
    if "i < slots (r_bridge g)" for i using mv that by (simp add: moves_def Let_def)
  note change = shown_moves [OF this]
  have sel: "slots (r_bridge h) = slots (r_bridge g)" "s_stopped (r_bridge h) = s_stopped (r_bridge g)"
    using mv by (simp_all add: moves_def)
  have ph: "phases g ! i = shown (if s_stopped (r_bridge g) then Down else Repairing) (s_connectors (r_bridge g) ! i)"
      "phases h ! i = shown (if s_stopped (r_bridge g) then Down else Repairing) (s_connectors (r_bridge h) ! i)"
    if "i < slots (r_bridge g)" for i using sel that by (simp_all add: phases_def)
  consider (serving) "\<not> s_stopped (r_bridge g)" | (stopping) "s_stopped (r_bridge g)" "r_stop g \<noteq> NotStopping"
    | (halted) "halted g" "halted h"
    using inv sel(2) stop by (auto simp: halted_def)
  then show ?thesis
  proof cases
    case serving
    let ?R = "\<lambda>p q. (p, q) \<in> {(Working, Repairing), (Stranded, Repairing), (Working, Stranded), (Repairing, Working)}"
    show ?thesis
    proof (rule life_changes [where R = ?R, OF _ inv])
      show "life_step \<lparr>l_mode = Serving, l_phases = ps\<rparr> \<lparr>l_mode = Serving, l_phases = ps[i := p]\<rparr>"
        if "i < length ps" "?R (ps ! i) p" for ps i p
        using that breaks [of i ps] strands [of i ps Serving] repaired [of i ps] by auto
      show "phases h ! i = phases g ! i \<or> ?R (phases g ! i) (phases h ! i)" if i: "i < slots (r_bridge g)" for i
        using change [OF i, of Repairing] ph [OF i] serving by auto
    qed (use serving sel in \<open>simp_all add: life_of_def\<close>)
  next
    case stopping
    let ?R = "\<lambda>p q. (p, q) \<in> {(Working, Down), (Stranded, Down), (Working, Stranded)}"
    show ?thesis
    proof (rule life_changes [where R = ?R, OF _ inv])
      show "life_step \<lparr>l_mode = Stopping, l_phases = ps\<rparr> \<lparr>l_mode = Stopping, l_phases = ps[i := p]\<rparr>"
        if "i < length ps" "?R (ps ! i) p" for ps i p
        using that goes_down [of i ps] strands [of i ps Stopping] by auto
      show "phases h ! i = phases g ! i \<or> ?R (phases g ! i) (phases h ! i)" if i: "i < slots (r_bridge g)" for i
        using change [OF i, of Down] ph [OF i] stopping(1) by auto
    qed (use stopping sel stop in \<open>simp_all add: life_of_def\<close>)
  next
    case halted
    then show ?thesis using halted_life sel(1) by simp
  qed
qed

lemma stop_begins_life:
  assumes "bridge_inv g" "bridge_inv h" "s_running (r_bridge g)"
    and h: "h = g\<lparr>r_bridge := stop_timers (r_bridge g), r_stop := Clearing\<rparr>"
  shows "life_step (life_of g) (life_of h)"
proof -
  have ns: "\<not> s_stopped (r_bridge g)" using assms by (simp add: bridge_inv_def)
  have t: "s_stopped (stop_timers (r_bridge g))" "s_connectors (stop_timers (r_bridge g)) = s_connectors (r_bridge g)"
    by (simp_all add: stop_timers_def stopReconnectTimer_def Let_def split: option.splits)
  have "phases h = map retire (phases g)" using ns t h by (simp add: phases_def retire_def shown_def)
  then show ?thesis using ns t h stops [of "phases g"] life_phases [OF assms(1)] life_phases [OF assms(2)]
    by (simp add: life_of_def)
qed

lemma stop_ends_life:
  assumes inv: "bridge_inv g" and "r_stop g = Closing []" and run: "stop_close y (r_bridge g) = (s, Ret ())"
  shows "life_step (life_of g) (life_of (g\<lparr>r_bridge := s, r_stop := NotStopping\<rparr>))"
proof -
  have s: "s_stopped s = s_stopped (r_bridge g)" "s_connectors s = s_connectors (r_bridge g)"
    using stop_close_sel [OF run] by auto
  have st: "s_stopped (r_bridge g)" "\<forall>i < slots (r_bridge g). \<not> up (s_connectors (r_bridge g) ! i)"
    using inv assms(2) by (auto simp: bridge_inv_def stop_wf_def)
  have p: "map (phase_of s) [0..<slots (r_bridge g)] = map (phase_of (r_bridge g)) [0..<slots (r_bridge g)]"
    using s st(1) by (simp add: phase_of_def)
  have "\<forall>p \<in> set (map (phase_of (r_bridge g)) [0..<slots (r_bridge g)]). p = Down"
    using st by (simp add: phase_of_def works_def stranded_def)
  from halts [OF this] show ?thesis unfolding life_of_def using s st(1) assms(2) p by (simp del: map_eq_conv)
qed

lemma init_life: "bridge_inv g \<Longrightarrow> s_running (r_bridge g) \<Longrightarrow> life_init (life_of g)"
  using life_phases [of g] by (auto simp: life_init_def life_of_def phases_def bridge_inv_def shown_def)

context bridge_run
begin

lemma step_moves:
  assumes inv: "bridge_inv g" and step: "bridge_step y g h" and begun: "r_stop h = Clearing \<longrightarrow> r_stop g = Clearing"
  shows "moves (r_bridge g) (r_bridge h)"
  using step
proof cases
  case (handler ps p qs s ms)
  have "ref_index r < slots (r_bridge g)" if "p = PConnectorError r" for r
    using inv handler(2) that by (auto simp: bridge_inv_def)
  then show ?thesis using moves_steady perform_steady [OF handler(3)] handler(1) by simp
next
  case (timer_runs t s)
  show ?thesis
  proof (cases "s_stopped (r_bridge g)")
    case True
    then show ?thesis using timer_runs reconnect_pass_stopped [of "unpark t (r_bridge g)" y s] by (simp add: moves_def unpark_def)
  next
    case False
    then have q: "queue_wf (unpark t (r_bridge g))" "queue_idle (unpark t (r_bridge g))"
      using inv by (simp_all add: bridge_inv_def tended_def cared_for_def queue_wf_def queue_idle_def unpark_def)
    have "tended (r_bridge g) (r_pending g)" using inv by (simp add: bridge_inv_def)
    from pass_tended [OF this timer_runs(3) queue_order False] have "\<not> s_stopped s" by simp
    moreover have "mended (unpark t (r_bridge g)) s"
      by (rule pass_mended [OF timer_runs(3) _ queue_order q]) (simp add: False unpark_def)
    ultimately show ?thesis using moves_mended [of "r_bridge g" s] False timer_runs(1) by (simp add: mended_def unpark_def)
  qed
next
  case stop_begins
  then show ?thesis using inv begun by (auto simp: bridge_inv_def dest: stop_wf_stopped)
next
  case (stop_shuts i "is" s)
  then have "i < slots (r_bridge g)" using inv by (simp add: bridge_inv_def stop_wf_def)
  then show ?thesis using moves_steady stop_one_steady [OF stop_shuts(3)] stop_shuts(1) by simp
next
  case (stop_ends s)
  then show ?thesis using stop_close_sel [OF stop_ends(3)] by (auto simp: moves_def)
next
  case (fetch_fails i)
  then show ?thesis using moves_returns by simp
next
  case (traffic i c w)
  then show ?thesis using handles_messages_same [OF traffic(3)] by (auto simp: moves_def nth_list_update Let_def)
qed (simp_all add: moves_def fire_def stop_clear_def)

lemma life_step_refines:
  assumes inv: "bridge_inv g" and step: "bridge_step y g h"
  shows "life_step\<^sup>*\<^sup>* (life_of g) (life_of h)"
proof -
  note ih = step_inv [OF inv step]
  show ?thesis using step
  proof cases
    case stop_begins
    then show ?thesis using stop_begins_life [OF inv ih] by auto
  next
    case (stop_ends s)
    then show ?thesis using stop_ends_life [OF inv stop_ends(2,3)] by auto
  qed (use moves_life [OF inv ih step_moves [OF inv step]] in auto)
qed

end

sublocale bridge_run \<subseteq> life: refines
  "\<lambda>g. bridge_init y cfg g \<and> distinct_ids (r_bridge g)" "bridge_step y" bridge_inv life_of life_init life_step
proof unfold_locales
  fix g assume g: "bridge_init y cfg g \<and> distinct_ids (r_bridge g)"
  then have inv: "bridge_inv g" "s_running (r_bridge g)" using bridge_init_inv queue_order by blast+
  show "life_init (life_of g)" using init_life [OF inv] .
qed (use life_step_refines in blast)

context bridge_run
begin

lemma run_refines:
  assumes "reachable (\<lambda>g. bridge_init y cfg g \<and> distinct_ids (r_bridge g)) (bridge_step y) g"
    and "(bridge_step y)\<^sup>*\<^sup>* g h"
  shows "(\<exists>a. life_init a \<and> life_step\<^sup>*\<^sup>* a (life_of g)) \<and> life_step\<^sup>*\<^sup>* (life_of g) (life_of h)"
  using life.abs_reachable [OF assms(1)] life.abs_steps [OF assms(2) run_inv [OF assms(1)]] by blast

end



end
