(* ===== verification/StopLaws.thy ===== *)
theory StopLaws
  imports Lifecycle
begin

text \<open>
  That stopping the bridge is final, and that neither \<open>Stop\<close> nor a handler panics. Shutting a Kafka connector
  down closes its reader, which would panic on a reader that was not fully made or that is closed
  already; that every reader of a reachable bridge is made and open is an invariant.
\<close>

section \<open>Well-formed readers\<close>

definition readers_wf :: "bridge \<Rightarrow> bool" where
  "readers_wf s \<longleftrightarrow> (\<forall>c \<in> set (s_connectors s). connector_wf c)"

lemma readers_wf_nth: "readers_wf s \<longleftrightarrow> (\<forall>i < slots s. connector_wf (s_connectors s ! i))"
  by (fastforce simp: readers_wf_def in_set_conv_nth)

lemma readers_wf_same: "s_connectors s' = s_connectors s \<Longrightarrow> readers_wf s' = readers_wf s"
  by (simp add: readers_wf_def)

lemma wf_start:
  assumes "ref_Start y r s = (s', q)" "ref_index r < slots s" "readers_wf s"
  shows "readers_wf s' \<and> slots s' = slots s"
proof -
  note sp = ref_Start_spec [OF assms(1,2)]
  have "connector_wf (s_connectors s' ! i)" if "i < slots s" for i
    using sp assms(3) that by (cases r; cases "i = ref_index r") (auto simp: readers_wf_nth start_law_def)
  then show ?thesis using sp evolves_sel(11) by (auto simp: readers_wf_nth)
qed

lemma wf_shutdown:
  assumes "ref_index r < slots s" "readers_wf s"
  shows "\<exists>s'. ref_Shutdown y r s = (s', Ret ()) \<and> readers_wf s' \<and> slots s' = slots s"
proof -
  obtain s' q where run: "ref_Shutdown y r s = (s', q)" by (metis surj_pair)
  note sp = ref_Shutdown_spec [OF run assms(1)]
  have "connector_wf (s_connectors s' ! i)" if "i < slots s" for i
    using sp assms that by (cases r; cases "i = ref_index r") (auto simp: readers_wf_nth shutdown_law_def)
  moreover have "q = Ret ()" using sp assms by (cases r) (auto simp: readers_wf_nth shutdown_law_def)
  ultimately show ?thesis using run sp evolves_sel(11) by (auto simp: readers_wf_nth)
qed

section \<open>The handlers return\<close>

lemma ConnectorError_returns:
  assumes "ref_index r < slots s" "readers_wf s"
  shows "\<exists>s'. ConnectorError y r s = (s', Ret ()) \<and> readers_wf s'"
proof (cases "ref_ID s r \<in> keys (s_reconnect s)")
  case False
  obtain m where "ref_Shutdown y r s = (m, Ret ())" "readers_wf m" using wf_shutdown [OF assms] by blast
  then show ?thesis using False readers_wf_same [of "ensureReconnectTimer (enqueue r m)" m]
    by (simp add: ConnectorError_def enqueue_def)
qed (use assms in \<open>simp add: ConnectorError_def\<close>)

lemma check_connectors_returns:
  "\<forall>i \<in> set is. i < slots s \<Longrightarrow> readers_wf s \<Longrightarrow> \<exists>s'. check_connectors y is s = (s', Ret ()) \<and> readers_wf s'"
proof (induction "is" arbitrary: s)
  case (Cons i "is")
  obtain w e where w: "CheckConnections (y_env y) (s_conns s) (s_connectors s ! i) (s_history s) = (w, e)" by (metis surj_pair)
  let ?s = "s\<lparr>s_history := w\<rparr>"
  have s: "\<forall>i \<in> set is. i < slots ?s" "readers_wf ?s" "i < slots ?s" using Cons.prems by (simp_all add: readers_wf_def)
  obtain m where m: "ref_Shutdown y (Full i) ?s = (m, Ret ())" "readers_wf m" "slots m = slots ?s"
    using wf_shutdown [of "Full i" ?s] s by auto
  have "readers_wf (enqueue (Full i) m)" "\<forall>j \<in> set is. j < slots (enqueue (Full i) m)"
    using m s by (simp_all add: readers_wf_def enqueue_def)
  then show ?case using Cons.IH [of s] Cons.IH [OF s(1,2)] Cons.IH [of "enqueue (Full i) m"] Cons.prems w m(1)
    by (cases "ref_ID s (Full i) \<in> keys (s_reconnect s)"; cases e) (auto simp del: ref_Shutdown.simps)
qed simp

lemma checkConnections_returns:
  assumes "readers_wf s"
  shows "\<exists>s'. checkConnections y s = (s', Ret ()) \<and> readers_wf s'"
proof -
  obtain m where "check_connectors y [0..<slots s] s = (m, Ret ())" "readers_wf m"
    using check_connectors_returns [of "[0..<slots s]" s y] assms by auto
  then show ?thesis using readers_wf_same [of "ensureReconnectTimer m" m] by (simp add: checkConnections_def then_do_def)
qed

lemma perform_returns:
  assumes "readers_wf s" and idx: "\<And>r. p = PConnectorError r \<Longrightarrow> ref_index r < slots s"
  shows "\<exists>s' ms. perform y p s = ((s', Ret ()), ms) \<and> readers_wf s'"
proof (cases p)
  case (PConnectorError r)
  then show ?thesis using ConnectorError_returns [OF idx assms(1), of r y] by (auto simp: perform_def)
next
  case PCheckConnections
  then show ?thesis using checkConnections_returns [OF assms(1), of y] by (auto simp: perform_def)
qed (use assms(1) in \<open>auto simp: perform_def stanConnectionLost_def readers_wf_def\<close>)

lemma stop_one_returns:
  assumes "i < slots s" "readers_wf s"
  shows "\<exists>s'. stop_one y i s = (s', Ret ()) \<and> readers_wf s' \<and> slots s' = slots s"
  using wf_shutdown [of "Full i" s y] assms by (auto simp: stop_one_def simp del: ref_Shutdown.simps)

lemma shutdown_all_returns:
  "\<forall>i \<in> set is. i < slots s \<Longrightarrow> readers_wf s \<Longrightarrow> \<exists>s'. shutdown_all y is s = (s', Ret ()) \<and> readers_wf s'"
proof (induction "is" arbitrary: s)
  case (Cons i "is")
  obtain m where m: "ref_Shutdown y (Full i) s = (m, Ret ())" "readers_wf m" "slots m = slots s"
    using wf_shutdown [of "Full i" s] Cons.prems by auto
  then show ?case using Cons.IH [of m] Cons.prems by (simp del: ref_Shutdown.simps)
qed simp

lemma stop_close_returns: "readers_wf s \<Longrightarrow> \<exists>s'. stop_close y s = (s', Ret ()) \<and> readers_wf s'"
  using stop_close_sel [of y s] by (cases "stop_close y s") (auto simp: readers_wf_def)

lemma stop_rest_returns:
  assumes "readers_wf s"
  shows "\<exists>s'. stop_rest y s = (s', Ret ()) \<and> readers_wf s'"
proof -
  obtain m where m: "shutdown_all y [0..<slots s] (stop_clear s) = (m, Ret ())" "readers_wf m"
    using shutdown_all_returns [of "[0..<slots s]" "stop_clear s" y] assms by (auto simp: readers_wf_def stop_clear_def)
  then show ?thesis using stop_close_returns [of m y] by (simp add: stop_rest_def then_do_def)
qed

section \<open>The passes and the start keep the readers\<close>

lemma restart_all_wf:
  assumes "restart_all y rd es s = (s', q)" and es: "\<forall>(k, r) \<in> set es. ref_index r < slots s" and wf: "readers_wf s"
  shows "readers_wf s'"
proof -
  have "readers_wf s' \<and> slots s' = slots s"
  proof (rule restart_all_keeps [OF assms(1), of "\<lambda>t. readers_wf t \<and> slots t = slots s"])
    fix t k r t' p assume t: "readers_wf t \<and> slots t = slots s" and r: "(k, r) \<in> set es" "ref_Start y r t = (t', p)"
    then show "readers_wf t' \<and> slots t' = slots s" using wf_start [OF r(2)] es by auto
  qed (use wf in \<open>simp_all add: readers_wf_def\<close>)
  then show ?thesis by simp
qed

lemma start_one_wf:
  assumes "start_one y i s = (s', Ret ())" "i < slots s" "readers_wf s"
  shows "readers_wf s'"
proof -
  obtain m p where m: "ref_Start y (Full i) s = (m, p)" by (metis surj_pair)
  have "readers_wf m" using wf_start [OF m] assms by simp
  then show ?thesis using assms(1) m
    by (cases p) (auto simp: start_one_def readers_wf_def enqueue_def split: if_splits simp del: ref_Start.simps)
qed

lemma new_connector_reader: "new_connector x f k cc d n = Ret c \<Longrightarrow> n_reader c = None"
  by (auto simp: new_connector_def bind_res_Ret_iff)

lemma CreateConnector_wf: "CreateConnector x f cc = Ret c \<Longrightarrow> connector_wf c"
  unfolding CreateConnector_def NewNATS2KafkaConnector_def NewStan2KafkaConnector_def NewJetStream2KafkaConnector_def
    NewKafka2NATSConnector_def NewKafka2StanConnector_def NewKafka2JetStreamConnector_def connector_wf_def
  by (auto split: if_splits option.splits dest!: new_connector_reader)

lemma create_connectors_wf: "create_connectors y cs s = (s', Ret ()) \<Longrightarrow> readers_wf s \<Longrightarrow> readers_wf s'"
proof (induction cs arbitrary: s)
  case (Cons c cs)
  obtain x where x: "CreateConnector (y_ext y) (y_nuid y (slots s)) c = Ret x"
    and run: "create_connectors y cs (s\<lparr>s_connectors := s_connectors s @ [x]\<rparr>) = (s', Ret ())"
    using Cons.prems(1) by (auto split: res.splits)
  show ?case using Cons.IH [OF run] CreateConnector_wf [OF x] Cons.prems(2) by (simp add: readers_wf_def)
qed simp

lemma start_connect_wf:
  assumes "start_connect y now s = (a, Ret ())"
  shows "readers_wf a"
proof -
  obtain cs b where b: "create_connectors y cs b = (a, Ret ())" "s_connectors b = []"
    using assms by (auto simp: start_connect_def start_init_def initializeConnectors_def Let_def then_do_Ret with_conns_def split: prod.splits)
  show ?thesis by (rule create_connectors_wf [OF b(1)]) (simp add: readers_wf_def b(2))
qed

lemma pass_wf:
  assumes run: "reconnect_pass y s = (s', Ret ())" and ord: "map_order (y_queue_order y)" and wf: "queue_wf s" "readers_wf s"
    and ns: "\<not> s_stopped s"
  shows "readers_wf s'"
proof -
  obtain a m rd where p: "reconnects s a" "restart_all y rd (y_queue_order y (s_reconnect a)) a = (m, Ret ())"
      "\<forall>(k, r) \<in> set (y_queue_order y (s_reconnect a)). ref_index r < slots a" "s' = rearm m"
    using pass_queue [OF run ns ord wf(1)] by blast
  have "readers_wf a" using wf(2) reconnects_sel(3) [OF p(1)] by (simp add: readers_wf_def)
  from restart_all_wf [OF p(2,3) this] show ?thesis using p(4) by (simp add: readers_wf_def)
qed

lemma traffic_wf:
  "readers_wf s \<Longrightarrow> handles_messages (s_connectors s ! i) c \<Longrightarrow>
   readers_wf (s\<lparr>s_connectors := (s_connectors s)[i := c], s_history := w\<rparr>)"
  using handles_messages_same [of "s_connectors s ! i" c]
  by (cases "i < slots s") (auto simp: readers_wf_nth connector_wf_def nth_list_update same_identity_def)

lemma returns_wf: "readers_wf s \<Longrightarrow> listens s i \<Longrightarrow> readers_wf (listener_returns i s)"
  by (auto simp: readers_wf_nth connector_wf_def nth_list_update listens_def listener_returns_def)

lemma startup_readers:
  assumes "(startup_step y)\<^sup>*\<^sup>* c d" "map_order (y_queue_order y)" "start_wf (fst c) (snd c)" "readers_wf (snd c)"
  shows "readers_wf (snd d)"
  using assms(1)
proof (induction rule: rtranclp_induct)
  case (step d e)
  have wf: "start_wf (fst d) (snd d)" using startup_wf [OF step(1) assms(2,3)] by simp
  from step(2) show ?case
  proof cases
    case (next_connector i s s' "is")
    then show ?thesis using start_one_wf [OF next_connector(3)] wf step.IH by (simp add: start_wf_def)
  next
    case (early_pass t s s' "is")
    have "queue_wf (unpark t s)" "readers_wf (unpark t s)" "\<not> s_stopped (unpark t s)"
      using wf step.IH early_pass(1) by (simp_all add: start_wf_def queue_wf_def readers_wf_def unpark_def)
    from pass_wf [OF early_pass(4) assms(2) this] show ?thesis using early_pass(2) by simp
  next
    case (early_traffic i s c' "is" w)
    then show ?thesis using traffic_wf step.IH by simp
  next
    case (early_return s i "is")
    then show ?thesis using returns_wf step.IH by simp
  qed (use step.IH in \<open>simp add: readers_wf_def fire_def\<close>)
qed (use assms(4) in simp)

section \<open>Runs\<close>

definition stop_inv :: "run \<Rightarrow> bool" where
  "stop_inv g \<longleftrightarrow> bridge_inv g \<and> readers_wf (r_bridge g)"

context bridge_run
begin

lemma stop_inv_step:
  assumes inv: "stop_inv g" and step: "bridge_step y g h"
  shows "stop_inv h"
proof -
  have b: "bridge_inv g" "bridge_inv h" and wf: "readers_wf (r_bridge g)"
    using inv step_inv [OF _ step] by (auto simp: stop_inv_def)
  have "readers_wf (r_bridge h)" using step
  proof cases
    case (handler ps p qs s ms)
    have "ref_index r < slots (r_bridge g)" if "p = PConnectorError r" for r
      using b(1) handler(2) that by (auto simp: bridge_inv_def)
    then show ?thesis using perform_returns [OF wf, of p y] handler(1,3) by auto
  next
    case (timer_runs t s)
    show ?thesis
    proof (cases "s_stopped (r_bridge g)")
      case True
      then show ?thesis using timer_runs wf reconnect_pass_stopped [of "unpark t (r_bridge g)" y s] by (simp add: unpark_def readers_wf_def)
    next
      case False
      then have "queue_wf (unpark t (r_bridge g))" using b(1) by (simp add: bridge_inv_def tended_def cared_for_def queue_wf_def unpark_def)
      then show ?thesis using pass_wf [OF timer_runs(3) queue_order] wf False timer_runs(1) by (simp add: unpark_def readers_wf_def)
    qed
  next
    case stop_begins
    then show ?thesis using wf by (simp add: readers_wf_def stop_timers_def stopReconnectTimer_def Let_def split: option.splits)
  next
    case stop_clears
    then show ?thesis using wf by (simp add: readers_wf_def stop_clear_def)
  next
    case (stop_shuts i "is" s)
    then have "i < slots (r_bridge g)" using b(1) by (simp add: bridge_inv_def stop_wf_def)
    then show ?thesis using stop_one_returns [OF _ wf, of i y] stop_shuts(1,3) by auto
  next
    case (stop_ends s)
    then show ?thesis using stop_close_returns [OF wf, of y] by auto
  next
    case (traffic i c w)
    then show ?thesis using traffic_wf [OF wf] by simp
  next
    case (fetch_fails i)
    then show ?thesis using returns_wf [OF wf] by simp
  qed (use wf in \<open>simp_all add: readers_wf_def fire_def\<close>)
  then show ?thesis using b(2) by (simp add: stop_inv_def)
qed

end

sublocale bridge_run \<subseteq> halting: invariant_system
  "\<lambda>g. bridge_init y cfg g \<and> distinct_ids (r_bridge g)" "bridge_step y" stop_inv
proof unfold_locales
  fix g assume g: "bridge_init y cfg g \<and> distinct_ids (r_bridge g)"
  then have i: "bridge_init y cfg g" by simp
  obtain now a m mo w where a: "start_connect y now (NewNATSKafkaBridge\<lparr>s_config := cfg\<rparr>) = (a, Ret ())"
      "(startup_step y)\<^sup>*\<^sup>* ([0..<slots a], a) ([], m)" "r_bridge g = m\<lparr>s_monitor := mo, s_history := w\<rparr>" "start_wf [0..<slots a] a"
    using bridge_init_parts [OF i queue_order] .
  have "readers_wf m" using startup_readers [OF a(2) queue_order] a(4) start_connect_wf [OF a(1)] by simp
  then show "stop_inv g" using inv_init g a(3) by (simp add: stop_inv_def readers_wf_def)
qed (rule stop_inv_step)

context bridge_run
begin

lemma run_stops:
  assumes "reachable (\<lambda>g. bridge_init y cfg g \<and> distinct_ids (r_bridge g)) (bridge_step y) g"
  shows "stop_inv g"
  by (rule halting.reachable_inv [OF assms])

lemma run_slots:
  assumes "reachable (\<lambda>g. bridge_init y cfg g \<and> distinct_ids (r_bridge g)) (bridge_step y) g" and "(bridge_step y)\<^sup>*\<^sup>* g h"
  shows "slots (r_bridge h) = slots (r_bridge g)"
proof -
  have "length (l_phases b) = length (l_phases a)" if "life_step\<^sup>*\<^sup>* a b" for a b
    using that by (induction rule: rtranclp_induct) (auto dest: life_step_cases)
  from this [OF conjunct2 [OF run_refines [OF assms]]] show ?thesis by (simp add: life_of_def)
qed

text \<open>\<open>Stop\<close> comes to its end, from wherever it stands.\<close>

lemma closing_ends:
  "stop_inv g \<Longrightarrow> r_stop g = Closing is \<Longrightarrow> \<exists>h. (bridge_step y)\<^sup>*\<^sup>* g h \<and> halted h"
proof (induction "is" arbitrary: g)
  case Nil
  obtain s where s: "stop_close y (r_bridge g) = (s, Ret ())" using stop_close_returns [of "r_bridge g" y] Nil.prems(1) by (auto simp: stop_inv_def)
  let ?h = "g\<lparr>r_bridge := s, r_stop := NotStopping\<rparr>"
  have step: "bridge_step y g ?h" using stop_ends [OF Nil.prems(2) s] .
  have "s_stopped (r_bridge g)" using Nil.prems stop_wf_stopped by (simp add: stop_inv_def bridge_inv_def)
  then have "halted ?h" using step_inv [OF _ step] Nil.prems(1) stop_close_sel [OF s] by (auto simp: halted_def stop_inv_def)
  then show ?case using step by blast
next
  case (Cons i "is")
  then have "i < slots (r_bridge g)" by (simp add: stop_inv_def bridge_inv_def stop_wf_def)
  then obtain s where s: "stop_one y i (r_bridge g) = (s, Ret ())" using stop_one_returns [of i "r_bridge g" y] Cons.prems(1) by (auto simp: stop_inv_def)
  have step: "bridge_step y g (g\<lparr>r_bridge := s, r_stop := Closing is\<rparr>)" using stop_shuts [OF Cons.prems(2) s] .
  from Cons.IH [OF stop_inv_step [OF Cons.prems(1) step]] show ?case using converse_rtranclp_into_rtranclp [of "bridge_step y", OF step] by auto
qed

lemma clearing_ends:
  assumes "stop_inv g" "r_stop g = Clearing"
  shows "\<exists>h. (bridge_step y)\<^sup>*\<^sup>* g h \<and> halted h"
proof -
  note step = stop_clears [OF assms(2), of y]
  from closing_ends [OF stop_inv_step [OF assms(1) step]] show ?thesis
    using converse_rtranclp_into_rtranclp [of "bridge_step y", OF step] by auto
qed

lemma stop_completes:
  assumes "stop_inv g"
  shows "\<exists>h. (bridge_step y)\<^sup>*\<^sup>* g h \<and> halted h"
proof (cases "r_stop g")
  case NotStopping
  show ?thesis
  proof (cases "s_running (r_bridge g)")
    case True
    note step = stop_begins [OF True, of y]
    from clearing_ends [OF stop_inv_step [OF assms step]] show ?thesis
      using converse_rtranclp_into_rtranclp [of "bridge_step y", OF step] by auto
  next
    case False
    then have "halted g" using assms NotStopping by (simp add: halted_def stop_inv_def bridge_inv_def)
    then show ?thesis by blast
  qed
qed (use assms clearing_ends closing_ends in blast)+

end

section \<open>The properties\<close>

text \<open>C10. Stopping is final. Once \<open>Stop\<close> of a bridge with distinct identifiers is over, whatever handlers ran between its steps, no connector is up, and
  none comes up again, whatever handlers are still under way and whatever timers fire later; a timer
  goroutine that was parked on the reconnect lock dials nothing and starts nothing.\<close>

theorem stop_is_final:
  assumes "map_order (y_queue_order y)"
    and "reachable (\<lambda>g. bridge_init y cfg g \<and> distinct_ids (r_bridge g)) (bridge_step y) g"
    and "\<not> s_running (r_bridge g)" and "r_stop g = NotStopping" and "(bridge_step y)\<^sup>*\<^sup>* g h"
  shows "\<not> s_running (r_bridge h) \<and> (\<forall>i < slots (r_bridge h). \<not> up (s_connectors (r_bridge h) ! i)) \<and>
    reconnect_pass y (r_bridge h) = ((r_bridge h)\<lparr>s_timer := None\<rparr>, Ret ())"
proof -
  note run = bridge_run.intro [OF assms(1)]
  have "halted g" using bridge_run.run_inv [OF run assms(2)] assms(3,4) by (simp add: halted_def bridge_inv_def)
  then have "halted h" using bridge_run.run_halted [OF run assms(5)] by blast
  then show ?thesis using halted_down [of h] by (simp add: halted_def reconnect_pass_def)
qed

lemma half_halts:
  "\<exists>g. reachable (\<lambda>g. bridge_init half_world half_config g \<and> distinct_ids (r_bridge g)) (bridge_step half_world) g \<and> halted g \<and>
    slots (r_bridge g) = 2"
proof -
  obtain g where g: "reachable (\<lambda>g. bridge_init half_world half_config g \<and> distinct_ids (r_bridge g)) (bridge_step half_world) g"
      "slots (r_bridge g) = 2"
    using half_reaches by (elim exE conjE)
  obtain h where h: "(bridge_step half_world)\<^sup>*\<^sup>* g h" "halted h" using half.stop_completes [OF half.run_stops [OF g(1)]] by blast
  have "slots (r_bridge h) = 2" using half.run_slots [OF g(1) h(1)] g(2) by simp
  then show ?thesis using h(2) reachable_steps [OF g(1) h(1)] by blast
qed

theorem stop_is_final_witness:
  "\<exists>g. reachable (\<lambda>g. bridge_init half_world half_config g \<and> distinct_ids (r_bridge g)) (bridge_step half_world) g \<and>
    slots (r_bridge g) = 2 \<and> \<not> s_running (r_bridge g) \<and> (\<forall>i < slots (r_bridge g). \<not> up (s_connectors (r_bridge g) ! i))"
proof -
  obtain g where g: "reachable (\<lambda>g. bridge_init half_world half_config g \<and> distinct_ids (r_bridge g)) (bridge_step half_world) g"
      "halted g" "slots (r_bridge g) = 2"
    using half_halts by (elim exE conjE)
  have h: "\<not> s_running (r_bridge g)" "r_stop g = NotStopping" using halted_down [OF g(2)] g(2) by (simp_all add: halted_def)
  from stop_is_final [OF half.queue_order g(1) h rtranclp.rtrancl_refl] g show ?thesis by (intro exI [of _ g]) simp
qed

text \<open>C11. Neither the handlers nor \<open>Stop\<close> panic. In every state a bridge with distinct identifiers can reach,
  whatever handlers and timers are under way and however far \<open>Stop\<close> has come, the code of each pending
  handler of an error or a lost connection runs to its end without a panic (no reader is closed
  that was not fully made, and none twice, whose channels would be closed already); so does the code
  of \<open>Stop\<close>, which leaves the bridge not running and every connector down; and what is left of a \<open>Stop\<close> that
  is under way can be run to its end. This is about the code of the handlers and of \<open>Stop\<close>: that a lock, a
  wait for a listener or a call of a library ends is taken for granted, and panics of other
  goroutines, such as a consumer group's claims, are not covered.\<close>

theorem stop_never_panics:
  assumes "map_order (y_queue_order y)"
    and "reachable (\<lambda>g. bridge_init y cfg g \<and> distinct_ids (r_bridge g)) (bridge_step y) g"
  shows "(\<forall>p \<in> set (r_pending g). \<exists>s ms. perform y p (r_bridge g) = ((s, Ret ()), ms)) \<and>
    (\<exists>s. Stop y (r_bridge g) = (s, Ret ()) \<and> \<not> s_running s \<and> (s_running (r_bridge g) \<longrightarrow> (\<forall>i < slots s. \<not> up (s_connectors s ! i)))) \<and>
    (\<exists>h. (bridge_step y)\<^sup>*\<^sup>* g h \<and> r_stop h = NotStopping \<and> \<not> s_running (r_bridge h) \<and>
      (\<forall>i < slots (r_bridge h). \<not> up (s_connectors (r_bridge h) ! i)))"
proof -
  have inv: "stop_inv g" using bridge_run.run_stops [OF bridge_run.intro [OF assms(1)] assms(2)] .
  then have wf: "readers_wf (r_bridge g)" "readers_wf (stop_timers (r_bridge g))"
    by (simp_all add: stop_inv_def readers_wf_def stop_timers_def stopReconnectTimer_def Let_def split: option.splits)
  have idx: "ref_index r < slots (r_bridge g)" if "PConnectorError r \<in> set (r_pending g)" for r
    using inv that by (simp add: stop_inv_def bridge_inv_def)
  obtain s where s: "stop_rest y (stop_timers (r_bridge g)) = (s, Ret ())" using stop_rest_returns [OF wf(2)] by blast
  have "\<not> s_running (stop_timers (r_bridge g))"
    by (simp add: stop_timers_def stopReconnectTimer_def Let_def split: option.splits)
  then have "\<not> s_running s" "\<forall>i < slots s. \<not> up (s_connectors s ! i)" using stop_rest_spec [OF s] by (simp_all add: steady_def)
  then have "\<exists>s. Stop y (r_bridge g) = (s, Ret ()) \<and> \<not> s_running s \<and> (s_running (r_bridge g) \<longrightarrow> (\<forall>i < slots s. \<not> up (s_connectors s ! i)))"
    using s by (cases "s_running (r_bridge g)") (simp_all add: Stop_def)
  moreover have "\<exists>s ms. perform y p (r_bridge g) = ((s, Ret ()), ms)" if "p \<in> set (r_pending g)" for p
    using perform_returns [OF wf(1), of p y] idx that by blast
  moreover obtain h where "(bridge_step y)\<^sup>*\<^sup>* g h" "halted h"
    using bridge_run.stop_completes [OF bridge_run.intro [OF assms(1)] inv] by blast
  moreover from this have "r_stop h = NotStopping" "\<not> s_running (r_bridge h)" "\<forall>i < slots (r_bridge h). \<not> up (s_connectors (r_bridge h) ! i)"
    using halted_down [of h] by (simp_all add: halted_def)
  ultimately show ?thesis by blast
qed

theorem stop_never_panics_witness:
  "\<exists>g s. reachable (\<lambda>g. bridge_init half_world half_config g \<and> distinct_ids (r_bridge g)) (bridge_step half_world) g \<and>
    s_running (r_bridge g) \<and> Stop half_world (r_bridge g) = (s, Ret ()) \<and> (\<forall>i < slots s. \<not> up (s_connectors s ! i))"
proof -
  obtain g where g: "reachable (\<lambda>g. bridge_init half_world half_config g \<and> distinct_ids (r_bridge g)) (bridge_step half_world) g"
      "s_running (r_bridge g)"
    using half_reaches by (elim exE conjE)
  from stop_never_panics [OF half.queue_order g(1)] g show ?thesis by blast
qed

end
