(* ===== verification/Relay.thy ===== *)
theory Relay
  imports ConnectorLaws
begin

text \<open>
  Two connectors in a row: a message that goes from NATS to Kafka through one connector and back to NATS
  through another. What lies between them is the broker, which hands the consumer the record it
  accepted from the producer.
\<close>

section \<open>The way to Kafka\<close>

text \<open>A connector without a schema registry, whose cached writers have none either.\<close>

definition plain_writers :: "BridgeConnector \<Rightarrow> bool" where
  "plain_writers conn \<longleftrightarrow> cc_SchemaRegistryURL (k_config conn) = [] \<and>
     (\<forall>h p. map_of (k_writers conn) h = Some (SaramaProducer p) \<longrightarrow> \<not> sp_schemaRegistryOn p)"

lemma plain_writer:
  assumes "writer env x bc msg conn w = ((conn', w'), r)" "plain_writers conn"
  shows "plain_writers conn'" and "r = Ret (SaramaProducer p) \<Longrightarrow> \<not> sp_schemaRegistryOn p"
  using assms
  by (auto simp: writer_def plain_writers_def NewProducer_def Let_def update_conv'
      split: option.splits prod.splits res.splits sum.splits if_splits)

lemma plain_Write:
  assumes "Write env cd p m (c, w) = ((c', w'), Ret ())" and "\<And>q. p = SaramaProducer q \<Longrightarrow> \<not> sp_schemaRegistryOn q"
  shows "\<exists>q. p = SaramaProducer q \<and> w' = w @ [(SendMessage (sp_sp q) \<lparr>pm_Topic = sp_topic q, pm_Value = m_Value m,
    pm_Key = refineKeyWithSubjectHeader (m_Key m) (m_Headers m), pm_Headers = m_Headers m\<rparr>, Err None)]"
  using assms by (cases p) (auto simp: sarama_Write_def errored_Write_def call_err_def Let_def split: option.splits)

lemma plain_write_to_kafka:
  assumes run: "write_to_kafka env x bc msg key data (Ret hs) (conn, cache, w) = ((conn', cache', w'), Ret ())"
    and plain: "plain_writers conn"
  shows "\<exists>pre h pm. quiet pre \<and> w' = w @ pre @ [(SendMessage h pm, Err None)] \<and> pm_Value pm = data \<and> pm_Headers pm = hs"
proof -
  obtain c1 w1 p where wr: "writer env x bc msg conn w = ((c1, w1), Ret p)"
    and wt: "Write env (x_cd x) p \<lparr>m_Topic = [], m_Partition = 0, m_Offset = 0, m_Key = key, m_Value = data, m_Headers = hs\<rparr>
      (cache, w1) = ((cache', w'), Ret ())"
    using run by (auto simp: write_to_kafka_def split: prod.splits res.splits)
  obtain pre where pre: "w1 = w @ pre" "quiet pre" using writer_spec(1) [OF wr] by blast
  from plain_Write [OF wt] plain_writer(2) [OF wr plain] pre show ?thesis by fastforce
qed

lemma nats_callback_record:
  assumes run: "nats_callback env x bc elapsed msg (conn, cache, w) = ((conn', cache', w'), Ret ())"
    and plain: "plain_writers conn" and sent: "sends w' \<noteq> sends w"
  shows "\<exists>pre h pm. quiet pre \<and> w' = w @ pre @ [(SendMessage h pm, Err None)] \<and> pm_Value pm = nm_Data msg \<and>
    convertFromNatsToKafkaHeaders x (nm_Header msg) = Ret (pm_Headers pm)"
proof -
  let ?key = "calculateKey x conn (nm_Subject msg) (nm_Reply msg)" and ?hs = "convertFromNatsToKafkaHeaders x (nm_Header msg)"
  obtain s1 r where wk: "write_to_kafka env x bc (NatsMsg msg) ?key (nm_Data msg) ?hs (conn, cache, w) = (s1, r)" by (metis surj_pair)
  obtain c1 k1 w1 where s1: "s1 = (c1, k1, w1)" by (metis prod_cases3)
  have w1: "w1 = w'" using run wk s1 by (cases r) (auto simp: nats_callback_def set_stats_def Let_def split: res.splits)
  have ret: "r = Ret ()" using write_to_kafka_sends [OF wk [unfolded s1]] sent w1 by (auto split: if_splits)
  then obtain hs where hs: "?hs = Ret hs" using wk by (auto simp: write_to_kafka_def split: prod.splits res.splits)
  from plain_write_to_kafka [OF _ plain] show ?thesis using wk hs ret s1 w1 by fastforce
qed

section \<open>The way back\<close>

lemma plain_Fetch:
  "\<not> co_schemaRegistryOn c \<Longrightarrow> \<exists>m. Fetch cd c (Arrived (Some cm)) cache = (cache, Ret m) \<and>
    m_Value m = cm_Value cm \<and> m_Headers m = cm_Headers cm \<and> m_Topic m = cm_Topic cm"
  by (simp add: Fetch_def convertToMessageHeaders_def)

lemma nats_published:
  assumes "natsMessageHandler env x b conn m w = (w', Ret ())"
  shows "\<exists>nc. NATSFor (cc_NATSConnection (k_config conn)) b = Some nc \<and> w' = w @ [(NatsPublish nc (nats_message x conn m), Err None)]"
  using assms by (auto simp: natsMessageHandler_def err_res_def call_err_def Let_def split: option.splits)

text \<open>Headers with one value each come back as they were.\<close>

definition single_valued :: "nats_header \<Rightarrow> bool" where
  "single_valued h \<longleftrightarrow> map_wf h \<and> (\<forall>(k, v) \<in> set h. \<exists>s. v = Some [s])"

lemma headers_back:
  "\<forall>(k, v) \<in> set h. \<exists>s. v = Some [s] \<Longrightarrow> kafka_headers h = Ret hs \<Longrightarrow>
   map plain_header hs = h \<and> map rh_Key hs = map (str_bytes \<circ> fst) h \<and> (\<forall>x \<in> set hs. rh_Value x \<noteq> None)"
proof (induction h arbitrary: hs)
  case (Cons e h)
  obtain k v where e: "e = (k, Some [v])" using Cons.prems(1) by force
  obtain hs' where "kafka_headers h = Ret hs'" "hs = \<lparr>rh_Key = str_bytes k, rh_Value = Some (str_bytes v)\<rparr> # hs'"
    using Cons.prems(2) e by (auto simp: bind_res_Ret_iff)
  then show ?case using Cons.IH [of hs'] Cons.prems(1) e by (simp add: plain_header_def)
qed simp

lemma headers_return:
  assumes add: "x_Header_Add x = add_value" and ord: "map_order (x_header_order x)" and sv: "single_valued h"
    and run: "convertFromNatsToKafkaHeaders x h = Ret hs"
  shows "mset (convertFromKafkaToNatsHeaders x hs) = mset h"
proof (cases "h = []")
  case False
  let ?o = "x_header_order x h"
  have perm: "mset ?o = mset h" by (rule map_order.order_perm [OF ord])
  have "kafka_headers ?o = Ret hs" using run False by (simp add: convertFromNatsToKafkaHeaders_def)
  moreover have "\<forall>(k, v) \<in> set ?o. \<exists>s. v = Some [s]" using sv map_order.set_order [OF ord] by (simp add: single_valued_def)
  ultimately have hs: "map plain_header hs = ?o" "map rh_Key hs = map (str_bytes \<circ> fst) ?o" "\<forall>x \<in> set hs. rh_Value x \<noteq> None"
    using headers_back by blast+
  have "distinct (map fst ?o)" using map_order.distinct_order [OF ord] sv by (simp add: single_valued_def)
  then have "distinct (map rh_Key hs)" using hs(2) by (simp add: distinct_map inj_on_def)
  from to_nats_headers [OF add this hs(3), of "[]"] show ?thesis using hs(1) perm by (simp add: convertFromKafkaToNatsHeaders_def)
qed (use run in \<open>simp add: convertFromNatsToKafkaHeaders_def convertFromKafkaToNatsHeaders_def\<close>)

text \<open>With the documented \<^verbatim>\<open>Header.Add\<close>, and a loop over the header that visits each entry once.\<close>

definition headers_kept :: "('n, 'j, 'm) ext \<Rightarrow> nats_header \<Rightarrow> nats_header \<Rightarrow> bool" where
  "headers_kept x h h' \<longleftrightarrow>
     (x_Header_Add x = add_value \<and> map_order (x_header_order x) \<and> single_valued h \<longrightarrow> mset h' = mset h)"

section \<open>The property\<close>

text \<open>C6. A message relayed without schema registries arrives unchanged. When a connector from NATS that has no
  schema registry has handled a message and Kafka accepted a record for it, the last request of the
  handler is the send of that record; whenever the broker hands a record with its value and headers
  to a consumer without schema registry, and the connector to NATS publishes it, then it publishes the
  payload of the original message, and its headers up to order if each of them has exactly one value,
  under the documented behaviour of \<^verbatim>\<open>Header.Add\<close>.\<close>

theorem relay_preserves_message:
  assumes "nats_callback env x bc elapsed msg (conn, cache, w) = ((conn', cache', w'), Ret ())" and "sends w' \<noteq> sends w"
    and "plain_writers conn" and "\<not> co_schemaRegistryOn c"
  shows "\<exists>h pm. last w' = (SendMessage h pm, Err None) \<and>
    (\<forall>cm. cm_Value cm = pm_Value pm \<and> cm_Headers cm = pm_Headers pm \<longrightarrow>
      (\<exists>m. Fetch (x_cd x) c (Arrived (Some cm)) cache2 = (cache2, Ret m) \<and>
        (\<forall>env2 b conn2 v v'. natsMessageHandler env2 x b conn2 m v = (v', Ret ()) \<longrightarrow>
          (\<exists>nc nm. v' = v @ [(NatsPublish nc nm, Err None)] \<and> nm_Subject nm = dest conn2 (KafkaMsg m) \<and>
            nm_Data nm = nm_Data msg \<and> headers_kept x (nm_Header msg) (nm_Header nm)))))"
proof -
  obtain pre h pm where w': "w' = w @ pre @ [(SendMessage h pm, Err None)]" and pm: "pm_Value pm = nm_Data msg"
      and hs: "convertFromNatsToKafkaHeaders x (nm_Header msg) = Ret (pm_Headers pm)"
    using nats_callback_record [OF assms(1,3,2)] by blast
  have "\<exists>m. Fetch (x_cd x) c (Arrived (Some cm)) cache2 = (cache2, Ret m) \<and>
      (\<forall>env2 b conn2 v v'. natsMessageHandler env2 x b conn2 m v = (v', Ret ()) \<longrightarrow>
        (\<exists>nc nm. v' = v @ [(NatsPublish nc nm, Err None)] \<and> nm_Subject nm = dest conn2 (KafkaMsg m) \<and>
          nm_Data nm = nm_Data msg \<and> headers_kept x (nm_Header msg) (nm_Header nm)))"
    if cm: "cm_Value cm = pm_Value pm \<and> cm_Headers cm = pm_Headers pm" for cm
  proof -
    obtain m where m: "Fetch (x_cd x) c (Arrived (Some cm)) cache2 = (cache2, Ret m)" "m_Value m = nm_Data msg" "m_Headers m = pm_Headers pm"
      using plain_Fetch [OF assms(4), of "x_cd x" cm cache2] cm pm by auto
    have "nm_Data (nats_message x conn2 m) = nm_Data msg \<and> headers_kept x (nm_Header msg) (nm_Header (nats_message x conn2 m)) \<and>
        nm_Subject (nats_message x conn2 m) = dest conn2 (KafkaMsg m)" for conn2
      using m headers_return [OF _ _ _ hs] by (simp add: nats_message_def headers_kept_def)
    then show ?thesis using m(1) nats_published by blast
  qed
  then show ?thesis using w' by auto
qed

definition relayed_msg :: nats_msg where
  "relayed_msg = demo_nats_msg\<lparr>nm_Header := [(''k'', Some [''v''])]\<rparr>"

lemma relayed_run:
  "\<exists>conn' cache' w'. nats_callback calm_env demo_ext DefaultBridgeConfig 5 relayed_msg (demo_conn, [], []) =
    ((conn', cache', w'), Ret ()) \<and> sends w' = 1"
proof -
  obtain st where "AddRequest fl64 1 1 5 (k_stats demo_conn) = Ret st"
    using b64.apply_op_returns [of "OpRequest 1 1 5" "k_stats demo_conn"] by (auto simp: demo_conn_def)
  then show ?thesis
    by (auto simp: nats_callback_def write_to_kafka_def writer_def NewProducer_def producer_config_def relayed_msg_def
        producer_tls_def producer_sasl_def MakeTLSConfig_def sarama_Write_def convertFromNatsToKafkaHeaders_def accepted_def
        set_stats_def msg_len_def demo_connector_defs plain_config_def no_files_def Let_def)
qed

theorem relay_preserves_message_witness:
  "\<exists>w' h pm m nc nm v'. last w' = (SendMessage h pm, Err None) \<and>
    Fetch demo_cd (demo_consumer\<lparr>co_schemaRegistryOn := False\<rparr>) (Arrived (Some \<lparr>cm_Topic = pm_Topic pm, cm_Partition = 0, cm_Offset = 0,
      cm_Key = pm_Key pm, cm_Value = pm_Value pm, cm_Headers = pm_Headers pm\<rparr>)) [] = ([], Ret m) \<and>
    natsMessageHandler calm_env demo_ext demo_conns demo_conn m [] = (v', Ret ()) \<and> v' = [] @ [(NatsPublish nc nm, Err None)] \<and>
    nm_Data nm = [1] \<and> mset (nm_Header nm) = {#(''k'', Some [''v''])#}"
proof -
  let ?c = "demo_consumer\<lparr>co_schemaRegistryOn := False\<rparr>"
  obtain conn' cache' w' where run: "nats_callback calm_env demo_ext DefaultBridgeConfig 5 relayed_msg (demo_conn, [], []) =
      ((conn', cache', w'), Ret ())" "sends w' \<noteq> sends []"
    using relayed_run by auto
  have hyp: "plain_writers demo_conn" "\<not> co_schemaRegistryOn ?c"
    and hk: "headers_kept demo_ext (nm_Header relayed_msg) h \<longleftrightarrow> mset h = mset (nm_Header relayed_msg)" for h
    by (simp_all add: headers_kept_def plain_writers_def demo_connector_defs insertion_order.map_order_axioms single_valued_def relayed_msg_def map_wf_def)
  obtain h pm where last: "last w' = (SendMessage h pm, Err None)" and all: "\<forall>cm. cm_Value cm = pm_Value pm \<and> cm_Headers cm = pm_Headers pm \<longrightarrow>
      (\<exists>m. Fetch (x_cd demo_ext) ?c (Arrived (Some cm)) [] = ([], Ret m) \<and>
        (\<forall>env2 b conn2 v v'. natsMessageHandler env2 demo_ext b conn2 m v = (v', Ret ()) \<longrightarrow>
          (\<exists>nc nm. v' = v @ [(NatsPublish nc nm, Err None)] \<and> nm_Subject nm = dest conn2 (KafkaMsg m) \<and>
            nm_Data nm = nm_Data relayed_msg \<and> mset (nm_Header nm) = mset (nm_Header relayed_msg))))"
    using relay_preserves_message [OF run hyp, of "[]"] unfolding hk by blast
  have same: "x_cd demo_ext = demo_cd" "nm_Data relayed_msg = [1]" "mset (nm_Header relayed_msg) = {#(''k'', Some [''v''])#}"
    by (simp_all add: demo_ext_def relayed_msg_def demo_nats_msg_def)
  let ?cm = "\<lparr>cm_Topic = pm_Topic pm, cm_Partition = 0, cm_Offset = 0, cm_Key = pm_Key pm, cm_Value = pm_Value pm, cm_Headers = pm_Headers pm\<rparr>"
  obtain m where m: "Fetch demo_cd ?c (Arrived (Some ?cm)) [] = ([], Ret m)"
      and pub: "\<And>env2 b conn2 v v'. natsMessageHandler env2 demo_ext b conn2 m v = (v', Ret ()) \<Longrightarrow>
        \<exists>nc nm. v' = v @ [(NatsPublish nc nm, Err None)] \<and> nm_Data nm = [1] \<and> mset (nm_Header nm) = {#(''k'', Some [''v''])#}"
    using spec [OF all, of ?cm] unfolding same by (simp del: mset.simps) blast
  obtain v' where v: "natsMessageHandler calm_env demo_ext demo_conns demo_conn m [] = (v', Ret ())"
    by (simp add: natsMessageHandler_def demo_conns_def demo_conn_def NATSFor_def err_res_def zero_config_defs)
  from pub [OF v] last m v show ?thesis by (elim exE conjE) (intro exI conjI)
qed

end
