(* ===== verification/HealthyPass.thy ===== *)
theory HealthyPass
  imports Lifecycle
begin

text \<open>
  One reconnect pass in a world where the brokers answer: it dials what is not connected, starts every
  connector of the queue, empties the queue and leaves no timer armed; a connector that was up keeps what
  it has, so one whose listener has returned stays without it. What the bridge must bring for
  that is collected in \<open>wired\<close>.
\<close>

section \<open>A healthy world\<close>

text \<open>Every request succeeds, a client reports the server it is connected to, and whether a client is closed
  does not change while the pass runs.\<close>

definition healthy :: "env \<Rightarrow> bool" where
  "healthy e \<longleftrightarrow> (\<forall>w q. env_err e w q = None) \<and> (\<forall>w q. \<exists>h. env_handle e w q = Inr h) \<and>
     (\<forall>w q. env_url e w q \<noteq> []) \<and> (\<forall>w w' q. env_flag e w q = env_flag e w' q)"

lemma healthy_calm: "healthy calm_env"
  by (simp add: healthy_def calm_env_def)

lemma healthy_calls:
  assumes "healthy e"
  shows "\<exists>w'. call_err e q w = (w', None)" "\<exists>w' h. call_handle e q w = (w', Inr h)"
    "\<exists>w' u. call_url e q w = (w', u) \<and> u \<noteq> []" "call_flag e q w = (w @ [(q, Flag (env_flag e [] q))], env_flag e [] q)"
  using assms by (auto simp: healthy_def call_defs Let_def)

lemma healthy_handle: "healthy e \<Longrightarrow> call_handle e q w \<noteq> (w', Inl x)"
  using healthy_calls(2) [of e q w] by auto

lemma healthy_connected: "healthy e \<Longrightarrow> cell_nc cell \<noteq> None \<Longrightarrow> \<exists>w'. isConnected e cell w = (w', True)"
  using healthy_calls(3) [of e "ConnectedUrl (the (cell_nc cell))" w] by (auto simp: isConnected_def)

lemma healthy_CheckNATSFor: "healthy e \<Longrightarrow> NATSFor n b \<noteq> None \<Longrightarrow> \<exists>w'. CheckNATSFor e n b w = (w', True)"
  using healthy_connected by (auto simp: NATSFor_def CheckNATSFor_def split: option.splits)

lemma healthy_CheckStan:
  assumes "healthy e" "bn_stan b \<noteq> None"
  shows "\<exists>w'. CheckStan e b w = (w', True)"
proof (cases "map_of (bn_cells b) []")
  case (Some cell)
  then show ?thesis using assms healthy_connected [OF assms(1), of cell w] by (auto simp: CheckStan_def)
qed (use assms in \<open>simp add: CheckStan_def\<close>)

lemma healthy_CheckJetStreamFor:
  "healthy e \<Longrightarrow> NATSFor n b \<noteq> None \<Longrightarrow> JetStreamFor n b \<noteq> None \<Longrightarrow> \<exists>w'. CheckJetStreamFor e n b w = (w', True)"
proof -
  assume h: "healthy e" and r: "NATSFor n b \<noteq> None" "JetStreamFor n b \<noteq> None"
  then obtain cell where c: "map_of (bn_cells b) n = Some cell" "cell_nc cell \<noteq> None" "cell_js cell \<noteq> None"
    by (auto simp: NATSFor_def JetStreamFor_def split: option.splits)
  then show ?thesis using healthy_connected [OF h c(2), of w] by (auto simp: CheckJetStreamFor_def)
qed

lemma healthy_dialCell: "healthy e \<Longrightarrow> \<exists>w' nc. dialCell e cell w = (w', Inr nc)"
proof -
  assume h: "healthy e"
  obtain w1 where w1: "call_err e (NkeyOptionFromSeed (nats_UserNKEY (cell_config cell))) w = (w1, None)"
    using healthy_calls(1) [OF h] by blast
  show ?thesis using healthy_calls(2) [OF h] w1 by (auto simp: dialCell_def Let_def)
qed

section \<open>One pass in a healthy world\<close>

text \<open>A cluster is ready for a connector kind when it has a client, and a JetStream context if one is needed.\<close>

definition cell_ready :: "NATSKafkaBridgeConfig \<Rightarrow> conns \<Rightarrow> string \<Rightarrow> bool" where
  "cell_ready cfg b n \<longleftrightarrow> NATSFor n b \<noteq> None \<and> (cellHasJetStream cfg n \<longrightarrow> JetStreamFor n b \<noteq> None)"

definition cell_keeps :: "natsCell \<Rightarrow> natsCell \<Rightarrow> bool" where
  "cell_keeps c c' \<longleftrightarrow> cell_config c' = cell_config c \<and> (cell_nc c \<noteq> None \<longrightarrow> cell_nc c' \<noteq> None)"

definition cells_keep :: "conns \<Rightarrow> conns \<Rightarrow> bool" where
  "cells_keep b b' \<longleftrightarrow> (\<forall>n. rel_option cell_keeps (map_of (bn_cells b) n) (map_of (bn_cells b') n))"

lemma cells_keep_refl [simp, intro]: "cells_keep b b"
  by (simp add: cells_keep_def cell_keeps_def option.rel_refl)

lemma cells_keep_trans [trans]: "cells_keep a b \<Longrightarrow> cells_keep b c \<Longrightarrow> cells_keep a c"
proof -
  have "transp cell_keeps" by (rule transpI) (simp add: cell_keeps_def)
  from transpD [OF option.rel_transp [OF this]] show "cells_keep a b \<Longrightarrow> cells_keep b c \<Longrightarrow> ?thesis"
    unfolding cells_keep_def by blast
qed

lemma cells_keep_back:
  "cells_keep b b' \<Longrightarrow> map_of (bn_cells b') n = Some c' \<Longrightarrow> \<exists>c. map_of (bn_cells b) n = Some c \<and> cell_keeps c c'"
  unfolding cells_keep_def by (drule spec [of _ n]) (auto simp: option_rel_Some2)

lemma cells_keep_update:
  assumes "map_of (bn_cells b) n = Some c" "cell_config c' = cell_config c" "cell_nc c \<noteq> None \<longrightarrow> cell_nc c' \<noteq> None"
  shows "cells_keep b (update_cell n c' b)"
  using assms by (auto simp: cells_keep_def cell_keeps_def intro: option.rel_refl)

lemma redial_js_keep:
  assumes "redial_js e cfg n c b w = ((b', w'), r)" "map_of (bn_cells b) n = Some c"
  shows "cells_keep b b'"
  using assms cells_keep_update [OF assms(2)]
  by (auto simp: redial_js_def connectCellJetStream_def split: if_splits option.splits prod.splits sum.splits)

lemma redialCell_keep:
  assumes run: "redialCell e cfg n b w = ((b', w'), r)"
  shows "cells_keep b b' \<and> bn_stan b' = bn_stan b"
proof (cases "map_of (bn_cells b) n")
  case (Some c)
  obtain b1 w1 d where s1: "redial_begin e n c b w = ((b1, w1), d)" by (metis surj_pair)
  have k1: "cells_keep b b1" and c1: "map_of (bn_cells b1) n = Some (the_cell b1 n)"
    using s1 Some cells_keep_update [OF Some] by (auto simp: redial_begin_def split: option.splits prod.splits)
  obtain w2 x where dl: "dialCell e (the_cell b1 n) w1 = (w2, x)" by (metis surj_pair)
  obtain b2 w3 k where s2: "redial_store e n (the_cell b1 n) (projr x) b1 w2 = ((b2, w3), k)" by (metis surj_pair)
  have k2: "cells_keep b1 b2" and c2: "map_of (bn_cells b2) n = Some (the_cell b2 n)"
    using s2 c1 cells_keep_update [OF c1] by (auto simp: redial_store_def split: option.splits prod.splits bool.splits)
  consider (failed) "b' = b1" | (lost) "b' = b2" | (kept) u where "redial_js e cfg n (the_cell b1 n) b1 u = ((b', w'), r)"
    | (stored) u where "redial_js e cfg n (the_cell b2 n) b2 u = ((b', w'), r)"
    using run Some s1 dl s2 by (cases d; cases x; cases k) (simp_all add: redialCell_def)
  then have "cells_keep b b'"
  proof cases
    case kept
    show ?thesis by (rule cells_keep_trans [OF k1 redial_js_keep [OF kept c1]])
  next
    case stored
    show ?thesis by (rule cells_keep_trans [OF cells_keep_trans [OF k1 k2] redial_js_keep [OF stored c2]])
  qed (use k1 cells_keep_trans [OF k1 k2] in simp_all)
  then show ?thesis using redialCell_spec [OF run Some] by (simp add: same_but_def)
qed (use run in \<open>simp add: redialCell_def\<close>)

lemma healthy_redial_js:
  assumes h: "healthy e" and c: "map_of (bn_cells b) n = Some c" "nats_Name (cell_config c) = n" "cell_nc c \<noteq> None"
  shows "\<exists>b' w'. redial_js e cfg n c b w = ((b', w'), Ret ()) \<and> cell_ready cfg b' n"
proof -
  obtain b' w' r where run: "redial_js e cfg n c b w = ((b', w'), r)" by (metis surj_pair)
  obtain u j where "call_handle e (NewJetStream (the (cell_nc c)) (js_options (b_JetStream cfg))) w = (u, Inr j)"
    using healthy_calls(2) [OF h] by blast
  then have "r = Ret ()" using run c(3) by (auto simp: redial_js_def connectCellJetStream_def split: if_splits)
  then show ?thesis using run redial_js_spec [OF run c(1,3)] c(2) by (auto simp: cell_ready_def)
qed

lemma healthy_redial:
  assumes h: "healthy e" and c: "map_of (bn_cells b) n = Some c" "nats_Name (cell_config c) = n"
  shows "\<exists>b' w'. redialCell e cfg n b w = ((b', w'), Ret ()) \<and> cell_ready cfg b' n"
proof -
  obtain b1 w1 d where s1: "redial_begin e n c b w = ((b1, w1), d)" by (metis surj_pair)
  show ?thesis
  proof (cases d)
    case False
    then have "b1 = b" "cell_nc c \<noteq> None" using redial_begin_spec(3) [OF s1 c(1)] by auto
    then show ?thesis using healthy_redial_js [OF h c, of cfg w1] s1 False c(1) by (simp add: redialCell_def)
  next
    case True
    let ?c = "c\<lparr>cell_js := None\<rparr>"
    have b1: "map_of (bn_cells b1) n = Some ?c" and old: "\<And>k. cell_nc c = Some k \<Longrightarrow> env_flag e [] (IsClosed k)"
      using s1 True healthy_calls(4) [OF h] by (auto simp: redial_begin_def split: option.splits prod.splits)
    obtain w2 nc where dl: "dialCell e ?c w1 = (w2, Inr nc)" using healthy_dialCell [OF h] by blast
    let ?k = "?c\<lparr>cell_nc := Some nc\<rparr>" and ?b = "update_cell n (?c\<lparr>cell_nc := Some nc\<rparr>) b1"
    obtain w3 where st: "redial_store e n ?c nc b1 w2 = ((?b, w3), True)"
      using old healthy_calls(4) [OF h] by (cases "cell_nc c") (auto simp: redial_store_def)
    have "map_of (bn_cells ?b) n = Some ?k" by simp
    from healthy_redial_js [OF h this, of cfg w3] c show ?thesis using s1 True b1 dl st by (simp add: redialCell_def)
  qed
qed

text \<open>What a connector needs to start, beside the answers: its cluster ready, streaming connected, the Kafka
  settings of its reader accepted (they may name key files that cannot be read).\<close>

definition usesJetStream :: "connector_kind \<Rightarrow> bool" where
  "usesJetStream k \<longleftrightarrow> k = JetStream2Kafka \<or> k = Kafka2JetStream"

definition reader_ok :: "('n, 'j, 'm) ext \<Rightarrow> NATSKafkaBridgeConfig \<Rightarrow> connector \<Rightarrow> bool" where
  "reader_ok x bc c \<longleftrightarrow> readsKafka (n_kind c) \<longrightarrow>
     (\<exists>sc. consumer_config (x_NewConfig x) (x_io x) (n_config c) (milliseconds (b_ConnectTimeout bc)) = Ret sc)"

lemma healthy_reader:
  assumes h: "healthy e" and "reader_ok x bc c" "readsKafka (n_kind c)"
  shows "\<exists>w' r. open_reader e x bc c w = (w', Ret r)"
proof -
  obtain sc where sc: "consumer_config (x_NewConfig x) (x_io x) (n_config c) (milliseconds (b_ConnectTimeout bc)) = Ret sc"
    using assms(2,3) by (auto simp: reader_ok_def)
  show ?thesis
  proof (cases "cc_GroupID (n_config c) = []")
    case True
    obtain w1 k where 1: "call_handle e (NewSaramaConsumer (cc_Brokers (n_config c)) sc) w = (w1, Inr k)"
      using healthy_calls(2) [OF h] by blast
    show ?thesis using sc 1 True healthy_calls(2) [OF h, of "ConsumePartition k (cc_Topic (n_config c)) (word_of_int (cc_Partition (n_config c)))" w1]
      by (auto simp: NewConsumer_def Let_def)
  next
    case False
    then show ?thesis using sc healthy_calls(2) [OF h, of "NewConsumerGroup (cc_Brokers (n_config c)) (cc_GroupID (n_config c)) sc" w]
      by (auto simp: NewConsumer_def Let_def)
  qed
qed

lemma healthy_subscribed: "healthy e \<Longrightarrow> \<exists>p. subscribed c (call_handle e q w) = (p, Ret ())"
  using healthy_calls(2) [of e q w] by (auto simp: subscribed_def)

definition startable :: "('n, 'j, 'm) ext \<Rightarrow> NATSKafkaBridgeConfig \<Rightarrow> conns \<Rightarrow> connector \<Rightarrow> bool" where
  "startable x bc b c \<longleftrightarrow> NATSFor (n_cluster c) b \<noteq> None \<and>
     (usesJetStream (n_kind c) \<longrightarrow> JetStreamFor (n_cluster c) b \<noteq> None) \<and>
     (requiresStan (n_kind c) \<longrightarrow> bn_stan b \<noteq> None) \<and> reader_ok x bc c"

lemma healthy_Start:
  assumes h: "healthy e" and s: "startable x bc b c"
  shows "\<exists>p. Start e x bc b c w = (p, Ret ())"
proof -
  note rd = healthy_reader [OF h, of x bc c]
  obtain nc where nc: "NATSFor (n_cluster c) b = Some nc" using s by (auto simp: startable_def)
  obtain w1 where w1: "CheckNATSFor e (n_cluster c) b w = (w1, True)" using healthy_CheckNATSFor [OF h] nc by blast
  obtain w2 where w2: "bn_stan b \<noteq> None \<Longrightarrow> CheckStan e b w = (w2, True)" using healthy_CheckStan [OF h] by blast
  obtain w3 where w3: "JetStreamFor (n_cluster c) b \<noteq> None \<Longrightarrow> CheckJetStreamFor e (n_cluster c) b w = (w3, True)"
    using healthy_CheckJetStreamFor [OF h] nc by blast
  show ?thesis
  proof (cases "n_kind c")
    case NATS2Kafka
    then show ?thesis using w1 nc healthy_subscribed [OF h] by (simp add: Start_def NATS2Kafka_Start_def subscribeToNATS_def Let_def)
  next
    case Stan2Kafka
    then obtain sc where "bn_stan b = Some sc" using s by (auto simp: startable_def requiresStan_def)
    then show ?thesis using Stan2Kafka w2 healthy_subscribed [OF h]
      by (simp add: Start_def Stan2Kafka_Start_def subscribeToChannel_def Stan_def Let_def)
  next
    case JetStream2Kafka
    then obtain js where "JetStreamFor (n_cluster c) b = Some js" using s by (auto simp: startable_def usesJetStream_def)
    then show ?thesis using JetStream2Kafka w3 healthy_subscribed [OF h]
      by (simp add: Start_def JetStream2Kafka_Start_def subscribeToJetStream_def Let_def)
  next
    case Kafka2NATS
    then show ?thesis using w1 rd [of w1] s by (auto simp: Start_def Kafka2NATS_Start_def startable_def readsKafka_def)
  next
    case Kafka2Stan
    then have "bn_stan b \<noteq> None" using s by (simp add: startable_def requiresStan_def)
    then show ?thesis using Kafka2Stan w2 rd [of w2] s by (auto simp: Start_def Kafka2Stan_Start_def startable_def readsKafka_def)
  next
    case Kafka2JetStream
    then have "JetStreamFor (n_cluster c) b \<noteq> None" using s by (simp add: startable_def usesJetStream_def)
    then show ?thesis using Kafka2JetStream w3 rd [of w3] s
      by (auto simp: Start_def Kafka2JetStream_Start_def startable_def readsKafka_def)
  qed
qed

text \<open>The first part of a pass: streaming is connected if it is configured.\<close>

lemma healthy_pass_stan:
  assumes h: "healthy (y_env y)" and d: "NATSFor [] (s_conns s) \<noteq> None" and a: "a = pass_stan y s"
  shows "bn_cells (s_conns a) = bn_cells (s_conns s) \<and> (stan_ClusterID (b_STAN (s_config s)) \<noteq> [] \<longrightarrow> bn_stan (s_conns a) \<noteq> None)"
proof (cases "bn_stan (s_conns s)")
  case None
  obtain w where w: "CheckNATSFor (y_env y) [] (s_conns s) (s_history s) = (w, True)" using healthy_CheckNATSFor [OF h d] by blast
  obtain b w' r where run: "connectToSTAN (y_env y) (y_DefaultDiscoverPrefix y) (s_config s) (s_conns s) w = ((b, w'), r)"
    by (metis surj_pair)
  have "s_conns a = b" using a None w run by (simp add: pass_stan_def Stan_def with_conns_def)
  moreover have "r = None" and "bn_cells b = bn_cells (s_conns s)"
    using run None d healthy_handle [OF h]
    by (auto simp: connectToSTAN_def Let_def split: if_splits option.splits prod.splits sum.splits)
  ultimately show ?thesis using connectToSTAN_connects run by blast
qed (use a in \<open>simp add: pass_stan_def Stan_def\<close>)

text \<open>The second part: every cluster of the queue is ready afterwards, and none reports an error.\<close>

lemma cells_right_keep: "cells_right b \<Longrightarrow> cells_keep b b' \<Longrightarrow> cells_right b'"
  using cells_keep_back by (fastforce simp: cells_right_def cell_keeps_def)

lemma cells_keep_keys: "cells_keep b b' \<Longrightarrow> keys (bn_cells b') = keys (bn_cells b)"
  by (auto simp: cells_keep_def option.rel_sel map_of_keys [symmetric])

lemma cells_keep_NATSFor: "cells_keep b b' \<Longrightarrow> NATSFor n b \<noteq> None \<Longrightarrow> NATSFor n b' \<noteq> None"
  unfolding cells_keep_def NATSFor_def
  by (drule spec [of _ n]) (auto simp: rel_option_iff cell_keeps_def split: option.splits)

lemma cell_ready_same: "same_but n b b' \<Longrightarrow> m \<noteq> n \<Longrightarrow> cell_ready cfg b' m = cell_ready cfg b m"
  by (simp add: same_but_def cell_ready_def NATSFor_def JetStreamFor_def)

definition redialed_well :: "NATSKafkaBridgeConfig \<Rightarrow> conns \<Rightarrow> (string, goerr option) gomap \<Rightarrow> bool" where
  "redialed_well cfg b rd \<longleftrightarrow> (\<forall>n e. (n, e) \<in> set rd \<longrightarrow> e = None \<and> cell_ready cfg b n)"

lemma healthy_redial_all:
  assumes h: "healthy (y_env y)"
  shows "cells_right (s_conns s) \<Longrightarrow> \<forall>(k, r) \<in> set es. ref_NATSConnection s r \<in> keys (bn_cells (s_conns s)) \<Longrightarrow>
    redialed_well (s_config s) (s_conns s) rd \<Longrightarrow>
    \<exists>s' rd'. redial_all y es rd s = (s', Ret rd') \<and> cells_keep (s_conns s) (s_conns s') \<and>
      bn_stan (s_conns s') = bn_stan (s_conns s) \<and> redialed_well (s_config s) (s_conns s') rd' \<and>
      keys rd \<union> (\<lambda>(k, r). ref_NATSConnection s r) ` set es \<subseteq> keys rd'"
proof (induction es arbitrary: rd s)
  case (Cons x es)
  obtain k r where x: "x = (k, r)" by force
  let ?n = "ref_NATSConnection s r"
  show ?case
  proof (cases "?n \<in> keys rd")
    case True
    then show ?thesis using Cons.IH [OF Cons.prems(1) _ Cons.prems(3)] Cons.prems(2) x by auto
  next
    case False
    obtain c where c: "map_of (bn_cells (s_conns s)) ?n = Some c" "nats_Name (cell_config c) = ?n"
      using Cons.prems(1,2) x by (auto simp: cells_right_def map_of_keys [symmetric])
    obtain b w where run: "redialCell (y_env y) (s_config s) ?n (s_conns s) (s_history s) = ((b, w), Ret ())"
      and rdy: "cell_ready (s_config s) b ?n"
      using healthy_redial [OF h c] by blast
    let ?s = "s\<lparr>s_conns := b, s_history := w\<rparr>" and ?rd = "map_put ?n None rd"
    note kp = redialCell_keep [OF run]
    have same: "same_but ?n (s_conns s) b" using redialCell_spec [OF run c(1)] by simp
    have rn: "ref_NATSConnection ?s = ref_NATSConnection s" by (simp add: ref_NATSConnection_def conn_at_def fun_eq_iff)
    have "redialed_well (s_config ?s) (s_conns ?s) ?rd"
      using Cons.prems(3) rdy cell_ready_same [OF same] unfolding redialed_well_def
      by (auto dest!: set_put_subset) metis+
    with Cons.IH [of ?s ?rd] obtain s' rd' where "redial_all y es ?rd ?s = (s', Ret rd')" "cells_keep b (s_conns s')"
      "bn_stan (s_conns s') = bn_stan b" "redialed_well (s_config s) (s_conns s') rd'"
      "keys ?rd \<union> (\<lambda>(k, r). ref_NATSConnection s r) ` set es \<subseteq> keys rd'"
      using Cons.prems(1,2) cells_right_keep kp cells_keep_keys rn by auto
    then show ?thesis using x False run kp cells_keep_trans
      by (intro exI [of _ s'] exI [of _ rd']) (auto simp: Let_def with_conns_def)
  qed
qed auto

text \<open>The third part: every connector of the queue starts and is taken off the queue.\<close>

lemma startable_same: "same_identity c c' \<Longrightarrow> startable x bc b c' = startable x bc b c"
  by (simp add: startable_def same_identity_def reader_ok_def)

abbreviation startable_at :: "('n, 'j, 'm) surroundings \<Rightarrow> bridge \<Rightarrow> nat \<Rightarrow> bool" where
  "startable_at y s i \<equiv> i < slots s \<and> startable (y_ext y) (s_config s) (s_conns s) (s_connectors s ! i)"

lemma healthy_may_start:
  assumes h: "healthy (y_env y)" and "startable_at y s (ref_index r)" and "redialed_well cfg b rd"
  shows "\<exists>w. may_start y rd r s = (s\<lparr>s_history := w\<rparr>, True)"
proof -
  let ?c = "s_connectors s ! ref_index r"
  have n: "ref_NATSConnection s r = n_cluster ?c" by (simp add: ref_NATSConnection_def conn_at_def conn_NATSConnection_def)
  have rd: "map_get None rd (n_cluster ?c) = None"
    using assms(3) by (auto simp: redialed_well_def map_get_def split: option.splits dest!: map_of_SomeD)
  obtain w where w: "CheckNATSFor (y_env y) (n_cluster ?c) (s_conns s) (s_history s) = (w, True)"
    using healthy_CheckNATSFor [OF h] assms(2) unfolding startable_def by blast
  show ?thesis
  proof (cases "ref_requiresStan s r")
    case True
    then have "bn_stan (s_conns s) \<noteq> None" using assms(2) by (cases r) (simp_all add: startable_def)
    from healthy_CheckStan [OF h this, of w] True rd w n show ?thesis by (auto simp: may_start_def Let_def)
  next
    case False
    then show ?thesis using rd w n by (intro exI [of _ w]) (simp add: may_start_def Let_def)
  qed
qed

lemma healthy_ref_Start:
  assumes "healthy (y_env y)" "startable_at y s (ref_index r)"
  shows "\<exists>s'. ref_Start y r s = (s', Ret ())"
proof (cases r)
  case (Full i)
  then show ?thesis
    using healthy_Start [OF assms(1), of "y_ext y" "s_config s" "s_conns s" "s_connectors s ! i" "s_history s"] assms(2) by auto
qed (simp add: base_Start_def)

text \<open>Starting connectors takes none of them down.\<close>

definition rises :: "bridge \<Rightarrow> bridge \<Rightarrow> bool" where
  "rises s s' \<longleftrightarrow> slots s' = slots s \<and> (\<forall>i < slots s. up (s_connectors s ! i) \<longrightarrow> up (s_connectors s' ! i))"

lemma rises_start:
  assumes "ref_Start y r s = (s', q)" "ref_index r < slots s"
  shows "rises s s'"
proof -
  note sp = ref_Start_spec [OF assms]
  have "up (s_connectors s' ! i)" if "i < slots s" "up (s_connectors s ! i)" for i
    using sp that by (cases r; cases "i = ref_index r") (auto dest: start_law_up)
  then show ?thesis using sp evolves_sel(11) by (auto simp: rises_def)
qed

lemma healthy_restart_all:
  assumes h: "healthy (y_env y)" and rd: "redialed_well cfg b rd"
  shows "\<forall>(k, r) \<in> set es. startable_at y s (ref_index r) \<Longrightarrow>
    \<exists>s'. restart_all y rd es s = (s', Ret ()) \<and> keys (s_reconnect s') = keys (s_reconnect s) - fst ` set es \<and>
      rises s s' \<and> (\<forall>k i. (k, Full i) \<in> set es \<longrightarrow> up (s_connectors s' ! i)) \<and> s_conns s' = s_conns s \<and> s_config s' = s_config s"
proof (induction es arbitrary: s)
  case (Cons x es)
  obtain k r where x: "x = (k, r)" by force
  have sa: "startable_at y s (ref_index r)" using Cons.prems x by auto
  obtain w where m: "may_start y rd r s = (s\<lparr>s_history := w\<rparr>, True)" using healthy_may_start [OF h sa rd] by blast
  let ?m = "s\<lparr>s_history := w\<rparr>"
  obtain n where n: "ref_Start y r ?m = (n, Ret ())" using healthy_ref_Start [OF h, of r ?m] sa by auto
  let ?n = "n\<lparr>s_reconnect := map_del k (s_reconnect n)\<rparr>"
  have ev: "evolves s n" and upr: "\<forall>i. r = Full i \<longrightarrow> up (s_connectors n ! i)"
    using ref_Start_spec [OF n] sa evolves_trans [OF evolves_history] by (auto simp: start_law_def)
  have rn: "rises s n" using rises_start [OF n] sa by (simp add: rises_def)
  have "startable_at y ?n i" if "startable_at y s i" for i
    using that evolves_sel [OF ev] startable_same [OF evolves_same [OF ev, of i], of "y_ext y"] by simp
  then have "\<forall>(k, r) \<in> set es. startable_at y ?n (ref_index r)" using Cons.prems x by auto
  from Cons.IH [OF this] obtain s' where s': "restart_all y rd es ?n = (s', Ret ())"
      "keys (s_reconnect s') = keys (map_del k (s_reconnect n)) - fst ` set es" "rises ?n s'"
      "\<forall>k i. (k, Full i) \<in> set es \<longrightarrow> up (s_connectors s' ! i)" "s_conns s' = s_conns n" "s_config s' = s_config n"
    by auto
  have up: "up (s_connectors s' ! i)" if "r = Full i" for i
    using that s'(3) upr sa evolves_sel(11) [OF ev] by (simp add: rises_def)
  have "restart_all y rd (x # es) s = (s', Ret ())" using x m n s'(1) by (simp del: ref_Start.simps)
  moreover have "keys (s_reconnect s') = keys (s_reconnect s) - fst ` set (x # es)"
    using s'(2) x evolves_sel(4) [OF ev] by (auto simp: map_of_keys [symmetric] map_of_del split: if_splits)
  moreover have "rises s s'" using rn s'(3) by (simp add: rises_def)
  ultimately show ?case using s'(4-6) up x evolves_sel(2,3) [OF ev] by (intro exI [of _ s']) auto
qed (auto simp: rises_def)

text \<open>The whole pass. A bridge is wired when its default cluster has a client and its connectors have a cell,
  and a JetStream or streaming configuration if they need one.\<close>

definition wired :: "bridge \<Rightarrow> bool" where
  "wired s \<longleftrightarrow> NATSFor [] (s_conns s) \<noteq> None \<and> cells_right (s_conns s) \<and>
     (\<forall>i < slots s. let c = s_connectors s ! i in n_cluster c \<in> keys (bn_cells (s_conns s)) \<and>
       (usesJetStream (n_kind c) \<longrightarrow> cellHasJetStream (s_config s) (n_cluster c)) \<and>
       (requiresStan (n_kind c) \<longrightarrow> stan_ClusterID (b_STAN (s_config s)) \<noteq> []))"

abbreviation readers_ok :: "('n, 'j, 'm) surroundings \<Rightarrow> bridge \<Rightarrow> bool" where
  "readers_ok y s \<equiv> \<forall>i < slots s. reader_ok (y_ext y) (s_config s) (s_connectors s ! i)"

lemma wired_startable:
  assumes "wired s" "readers_ok y s" "i < slots s" "cell_ready (s_config s) (s_conns s) (n_cluster (s_connectors s ! i))"
    and "stan_ClusterID (b_STAN (s_config s)) \<noteq> [] \<longrightarrow> bn_stan (s_conns s) \<noteq> None"
  shows "startable_at y s i"
  using assms by (auto simp: wired_def startable_def cell_ready_def Let_def)

definition kin :: "bridge \<Rightarrow> bridge \<Rightarrow> bool" where
  "kin s s' \<longleftrightarrow> s_config s' = s_config s \<and> cells_keep (s_conns s) (s_conns s') \<and> slots s' = slots s \<and>
     (\<forall>i < slots s. same_identity (s_connectors s ! i) (s_connectors s' ! i))"

lemma same_identity_refl [simp]: "same_identity c c"
  by (simp add: same_identity_def)

lemma kin_refl [simp]: "kin s s"
  by (simp add: kin_def)

lemma kin_trans [trans]: "kin a b \<Longrightarrow> kin b c \<Longrightarrow> kin a c"
  by (auto simp: kin_def intro: cells_keep_trans same_identity_trans)

lemma kin_wired:
  assumes "wired s" "kin s s'"
  shows "wired s'"
proof -
  have k: "cells_keep (s_conns s) (s_conns s')" using assms(2) by (simp add: kin_def)
  show ?thesis using assms cells_keep_NATSFor [OF k, of "[]"] cells_right_keep [OF _ k] cells_keep_keys [OF k]
    unfolding wired_def kin_def same_identity_def Let_def by simp
qed

lemma kin_readers: "kin s s' \<Longrightarrow> readers_ok y s \<Longrightarrow> readers_ok y s'"
  by (simp add: kin_def reader_ok_def same_identity_def)

lemma pass_stan_kin: "kin s (pass_stan y s)"
proof -
  have "bn_cells b' = bn_cells b" if "connectToSTAN e d cfg b w = ((b', w'), r)" for e d cfg b w b' w' r
    using that by (auto simp: connectToSTAN_def Let_def split: if_splits option.splits prod.splits sum.splits)
  then have "bn_cells (s_conns (pass_stan y s)) = bn_cells (s_conns s)"
    by (auto simp: pass_stan_def with_conns_def split: prod.splits bool.splits)
  then have "cells_keep (s_conns s) (s_conns (pass_stan y s))"
    using cells_keep_refl [of "s_conns s"] unfolding cells_keep_def by simp
  then show ?thesis using reconnects_sel [OF pass_stan_spec [of s y]] by (simp add: kin_def)
qed

lemma healthy_dials:
  assumes h: "healthy (y_env y)" and wd: "wired s" and rd: "readers_ok y s"
    and idx: "\<forall>(k, r) \<in> set es. ref_index r < slots s"
  shows "\<exists>b rs. redial_all y es [] (pass_stan y s) = (b, Ret rs) \<and> redialed_well (s_config s) (s_conns b) rs \<and>
    \<not> stanNeeded b \<and> (\<forall>(k, r) \<in> set es. startable_at y b (ref_index r))"
proof -
  let ?a = "pass_stan y s"
  note ra = reconnects_sel [OF pass_stan_spec [of s y]]
  have wa: "wired ?a" using kin_wired [OF wd pass_stan_kin] .
  have nc: "ref_NATSConnection ?a r = n_cluster (s_connectors s ! ref_index r)" for r
    using ra(3) by (simp add: ref_NATSConnection_def conn_at_def conn_NATSConnection_def)
  have "\<forall>(k, r) \<in> set es. ref_NATSConnection ?a r \<in> keys (bn_cells (s_conns ?a))"
    using wa idx ra nc by (auto simp: wired_def Let_def)
  with healthy_redial_all [OF h, of ?a es "[]"] wa obtain b rs where b: "redial_all y es [] ?a = (b, Ret rs)"
      and kb: "cells_keep (s_conns ?a) (s_conns b)" "bn_stan (s_conns b) = bn_stan (s_conns ?a)"
      and rw: "redialed_well (s_config s) (s_conns b) rs" and sub: "(\<lambda>(k, r). ref_NATSConnection ?a r) ` set es \<subseteq> keys rs"
    using ra by (auto simp: wired_def redialed_well_def)
  note rb = reconnects_sel [OF redial_all_spec [OF b]]
  have stan: "stan_ClusterID (b_STAN (s_config b)) = [] \<or> bn_stan (s_conns b) \<noteq> None"
    using healthy_pass_stan [OF h _ refl, of s] wd kb(2) ra(2) rb(2) by (auto simp: wired_def)
  have kin: "kin ?a b" using kb rb by (simp add: kin_def)
  have wb: "wired b" "readers_ok y b" using kin_wired [OF wa kin] kin_readers [OF kin_trans [OF pass_stan_kin kin] rd] by blast+
  have "startable_at y b (ref_index r)" if "(k, r) \<in> set es" for k r
  proof (rule wired_startable [OF wb])
    have "n_cluster (s_connectors s ! ref_index r) \<in> keys rs" using sub that nc by force
    then show "cell_ready (s_config b) (s_conns b) (n_cluster (s_connectors b ! ref_index r))"
      using rw ra rb by (auto simp: redialed_well_def keys_def)
  qed (use idx that stan ra rb in auto)
  then have "\<forall>(k, r) \<in> set es. startable_at y b (ref_index r)" by blast
  with b rw stan show ?thesis by (intro exI conjI) (auto simp: stanNeeded_def Stan_def)
qed

text \<open>A pass after which everything is up has mended what was down.\<close>

lemma mended_all_up:
  assumes "mended s s'" "cared_for s" "i < slots s" "up (s_connectors s' ! i)"
  shows "works (s_connectors s' ! i) \<longleftrightarrow> \<not> stranded (s_connectors s ! i)"
proof (cases "up (s_connectors s ! i)")
  case True
  have "map_of (s_reconnect s) (id_at s i) \<noteq> Some (Full i)"
    using assms(2) True by (auto simp: cared_for_def queue_idle_def dest!: map_of_SomeD)
  then have "held (s_connectors s ! i)" using assms(2,3) by (auto simp: cared_for_def covered_def)
  moreover have "looks_same (s_connectors s ! i) (s_connectors s' ! i)" using assms(1,3) True by (auto simp: mended_def)
  ultimately show ?thesis using works_not_stranded [of "s_connectors s ! i"] by (auto simp: looks_same_def)
next
  case False
  then have "works (s_connectors s' ! i)" using assms(1,3,4) by (auto simp: mended_def looks_same_def)
  then show ?thesis using False by (simp add: stranded_def)
qed

lemma healthy_pass:
  assumes h: "healthy (y_env y)" and ord: "map_order (y_queue_order y)" and wd: "wired s" and care: "cared_for s"
    and ns: "\<not> s_stopped s" and rd: "readers_ok y s"
  shows "\<exists>s'. reconnect_pass y s = (s', Ret ()) \<and> s_reconnect s' = [] \<and> s_timer s' = None \<and> slots s' = slots s \<and>
    (\<forall>i < slots s. up (s_connectors s' ! i) \<and> (works (s_connectors s' ! i) \<longleftrightarrow> \<not> stranded (s_connectors s ! i)))"
proof -
  let ?es = "y_queue_order y (s_reconnect s)"
  have es: "set ?es = set (s_reconnect s)" by (rule map_order.set_order [OF ord])
  have "\<forall>(k, r) \<in> set ?es. ref_index r < slots s" using es care by (auto simp: cared_for_def queue_wf_def)
  from healthy_dials [OF h wd rd this] obtain b rs where b: "redial_all y ?es [] (pass_stan y s) = (b, Ret rs)"
      and rw: "redialed_well (s_config s) (s_conns b) rs" and stan: "\<not> stanNeeded b"
      and st: "\<forall>(k, r) \<in> set ?es. startable_at y b (ref_index r)" by blast
  note rb = reconnects_sel [OF reconnects_trans [OF pass_stan_spec redial_all_spec [OF b]]]
  from healthy_restart_all [OF h rw st] obtain m where m: "restart_all y rs ?es b = (m, Ret ())"
      "keys (s_reconnect m) = keys (s_reconnect b) - fst ` set ?es" "rises b m"
      "\<forall>k i. (k, Full i) \<in> set ?es \<longrightarrow> up (s_connectors m ! i)" "s_conns m = s_conns b" "s_config m = s_config b"
    by blast
  have run: "reconnect_pass y s = (rearm m, Ret ())"
    using ns b m(1) rb(4) reconnects_sel(4) [OF pass_stan_spec [of s y]] by (simp add: reconnect_pass_def then_do_def)
  have q: "s_reconnect m = []" using m(2) es rb(4) by (simp add: keys_def)
  have "\<not> stanNeeded (m\<lparr>s_timer := None\<rparr>)" using stan m(5,6) by (simp add: stanNeeded_def)
  then have "rearm m = m\<lparr>s_timer := None\<rparr>" using q by (simp add: rearm_def)
  moreover have "up (s_connectors m ! i)" if "i < slots s" for i
  proof (cases "up (s_connectors s ! i)")
    case True
    then show ?thesis using m(3) that rb(3) by (simp add: rises_def)
  next
    case False
    then have "\<not> held (s_connectors s ! i)" using held_up by blast
    then have "(id_at s i, Full i) \<in> set ?es" using care that es by (auto simp: cared_for_def covered_def dest: map_of_SomeD)
    then show ?thesis using m(4) by blast
  qed
  moreover have "mended s (rearm m)" using pass_mended [OF run ns ord] care by (simp add: cared_for_def)
  note mended_all_up [OF this care]
  ultimately show ?thesis using run q m(3) rb(3) by (intro exI [of _ "rearm m"]) (simp add: rises_def)
qed

end
