(* ===== verification/Healing.thy ===== *)
theory Healing
  imports HealthyPass
begin

text \<open>
  That the bridge repairs itself. Once the brokers answer again, the next reconnect pass of a running
  bridge makes every connector work that had not lost its listener, empties the queue and leaves no
  timer armed. \<open>HealthyPass\<close> is about
  one pass; here every running bridge is shown to have what such a pass needs: a cell for each
  connector's cluster, a client for the default cluster, and a streaming configuration when a
  connector needs streaming.
\<close>

section \<open>Every running bridge is wired\<close>

text \<open>How a connector's kind follows from its configuration.\<close>

fun kind_type :: "connector_kind \<Rightarrow> string" where
  "kind_type NATS2Kafka = NATSToKafka"
| "kind_type Stan2Kafka = STANToKafka"
| "kind_type JetStream2Kafka = JetStreamToKafka"
| "kind_type Kafka2NATS = KafkaToNATS"
| "kind_type Kafka2Stan = KafkaToStan"
| "kind_type Kafka2JetStream = KafkaToJetStream"

lemma kind_types:
  "usesJetStream k \<Longrightarrow> Contains (kind_type k) ''JetStream''"
  "requiresStan k \<Longrightarrow> kind_type k = STANToKafka \<or> kind_type k = KafkaToStan"
  by (auto simp: usesJetStream_def requiresStan_def connector_type_defs)

lemma new_connector_Ret: "new_connector x f k cc d n = Ret c \<Longrightarrow> n_kind c = k \<and> n_config c = cc"
  by (auto simp: new_connector_def init_connector_def bind_res_Ret_iff Let_def)

lemma CreateConnector_Ret: "CreateConnector x f cc = Ret c \<Longrightarrow> n_config c = cc \<and> cc_Type cc = kind_type (n_kind c)"
  unfolding CreateConnector_def NewNATS2KafkaConnector_def NewStan2KafkaConnector_def NewJetStream2KafkaConnector_def
    NewKafka2NATSConnector_def NewKafka2StanConnector_def NewKafka2JetStreamConnector_def
  by (auto split: if_splits option.splits dest!: new_connector_Ret)

lemma create_connectors_made:
  "create_connectors y cs s = (s', Ret ()) \<Longrightarrow>
   \<exists>xs. s' = s\<lparr>s_connectors := s_connectors s @ xs\<rparr> \<and> (\<forall>c \<in> set xs. n_config c \<in> set cs \<and> cc_Type (n_config c) = kind_type (n_kind c))"
proof (induction cs arbitrary: s)
  case (Cons cc cs)
  obtain c where c: "CreateConnector (y_ext y) (y_nuid y (slots s)) cc = Ret c"
    and run: "create_connectors y cs (s\<lparr>s_connectors := s_connectors s @ [c]\<rparr>) = (s', Ret ())"
    using Cons.prems by (auto split: res.splits)
  from Cons.IH [OF run] CreateConnector_Ret [OF c] show ?case by force
qed (auto intro!: exI [of _ "[]"])

text \<open>A streaming connector of the default cluster can only have started if streaming was connected.\<close>

lemma stan_started:
  assumes "ref_Start y (Full i) s = (s', Ret ())" "requiresStan (n_kind (s_connectors s ! i))"
  shows "bn_stan (s_conns s) \<noteq> None"
  using assms by (auto simp: Start_def requiresStan_def Stan2Kafka_Start_def Kafka2Stan_Start_def CheckStan_def
      split: prod.splits bool.splits option.splits if_splits)

text \<open>What a pass keeps.\<close>

lemma kin_fields: "s_config s' = s_config s \<Longrightarrow> bn_cells (s_conns s') = bn_cells (s_conns s) \<Longrightarrow> s_connectors s' = s_connectors s \<Longrightarrow> kin s s'"
  using cells_keep_refl [of "s_conns s"] unfolding kin_def cells_keep_def by simp

lemma kin_requeues: "requeues s m \<Longrightarrow> kin s m"
  unfolding requeues_def
proof (elim exE conjE)
  fix m' q assume m: "evolves s m'" "m = m'\<lparr>s_reconnect := q\<rparr>"
  then show "kin s m" using evolves_sel [OF m(1)] evolves_same [OF m(1)] by (simp add: kin_def)
qed

lemma redial_all_kin: "redial_all y es rd s = (s', r) \<Longrightarrow> kin s s'"
proof (induction y es rd s rule: redial_all.induct)
  case (2 y ident r rest rd s)
  let ?c = "ref_NATSConnection s r"
  obtain b w q where m: "redialCell (y_env y) (s_config s) ?c (s_conns s) (s_history s) = ((b, w), q)" by (metis surj_pair)
  have "kin s (s\<lparr>s_conns := b, s_history := w\<rparr>)" using redialCell_keep [OF m] by (simp add: kin_def)
  then show ?case using 2 m
    by (cases "?c \<in> keys rd"; cases q) (auto simp: Let_def with_conns_def intro: kin_trans)
qed simp

lemma redial_all_stan: "redial_all y es rd s = (s', r) \<Longrightarrow> bn_stan (s_conns s) = x \<Longrightarrow> bn_stan (s_conns s') = x"
proof (induction es arbitrary: rd s)
  case (Cons e es)
  obtain k ref where e: "e = (k, ref)" by force
  let ?c = "ref_NATSConnection s ref"
  obtain b w q where m: "redialCell (y_env y) (s_config s) ?c (s_conns s) (s_history s) = ((b, w), q)" by (metis surj_pair)
  let ?m = "s\<lparr>s_conns := b, s_history := w\<rparr>"
  have "bn_stan (s_conns ?m) = x" using redialCell_keep [OF m] Cons.prems(2) by simp
  moreover have "s' = ?m \<or> (\<exists>rd'. redial_all y es rd' s = (s', r)) \<or> (\<exists>rd'. redial_all y es rd' ?m = (s', r))"
    using Cons.prems(1) e m by (cases "?c \<in> keys rd"; cases q) (auto simp: with_conns_def)
  ultimately show ?case using Cons.IH Cons.prems(2) by blast
qed simp

lemma pass_stan_stan:
  "bn_stan (s_conns (pass_stan y s)) \<noteq> None \<Longrightarrow> bn_stan (s_conns s) \<noteq> None \<or> stan_ClusterID (b_STAN (s_config s)) \<noteq> []"
  by (auto simp: pass_stan_def Stan_def with_conns_def connectToSTAN_def Let_def
      split: if_splits option.splits prod.splits sum.splits bool.splits)

lemma pass_kin:
  assumes "reconnect_pass y s = (s', Ret ())" "queue_wf s" "\<not> s_stopped s" "map_order (y_queue_order y)"
  shows "kin s s'" and "bn_stan (s_conns s') \<noteq> None \<Longrightarrow> bn_stan (s_conns s) \<noteq> None \<or> stan_ClusterID (b_STAN (s_config s)) \<noteq> []"
proof -
  obtain a m rd where p: "redial_all y (y_queue_order y (s_reconnect (pass_stan y s))) [] (pass_stan y s) = (a, Ret rd)"
      "requeues a m" "s' = rearm m"
    using pass_queue [OF assms(1,3,4,2)] by blast
  have "kin m (rearm m)" by (rule kin_fields) simp_all
  then show "kin s s'"
    using p(3) kin_trans [OF kin_trans [OF kin_trans [OF pass_stan_kin redial_all_kin [OF p(1)]] kin_requeues [OF p(2)]]] by simp
  show "bn_stan (s_conns s) \<noteq> None \<or> stan_ClusterID (b_STAN (s_config s)) \<noteq> []" if "bn_stan (s_conns s') \<noteq> None"
    using that p(3) redial_all_stan [OF p(1) refl] requeues_sel(3) [OF p(2)] pass_stan_stan [of y s] by simp
qed

text \<open>
  The start: a streaming connector it has come to shows that streaming is configured, because it is one
  of the default cluster, whose failure would have ended the start.
\<close>

definition stan_wired :: "nat list \<Rightarrow> bridge \<Rightarrow> bool" where
  "stan_wired is s \<longleftrightarrow> stan_ClusterID (b_STAN (s_config s)) \<noteq> [] \<or> bn_stan (s_conns s) = None \<and>
     (\<forall>i < slots s. i \<notin> set is \<longrightarrow> requiresStan (n_kind (s_connectors s ! i)) \<longrightarrow> n_cluster (s_connectors s ! i) \<noteq> [])"

lemma stan_wired_kin:
  assumes "stan_wired is s" "kin s s'" "bn_stan (s_conns s') \<noteq> None \<Longrightarrow> bn_stan (s_conns s) \<noteq> None \<or> stan_ClusterID (b_STAN (s_config s)) \<noteq> []"
  shows "stan_wired is s'"
  using assms by (auto simp: stan_wired_def kin_def same_identity_def simp del: not_None_eq)

lemma start_one_kin:
  assumes "start_one y i s = (s', Ret ())" "i < slots s"
  shows "kin s s' \<and> s_conns s' = s_conns s"
proof -
  obtain m q where m: "ref_Start y (Full i) s = (m, q)" by (metis surj_pair)
  have "starting s m" "starting s (ensureReconnectTimer (enqueue (Full i) m))"
    using starting_start(1) [OF m assms(2)] starting_trans [OF _ starting_queue] by blast+
  moreover have "s' = m \<or> s' = ensureReconnectTimer (enqueue (Full i) m)"
    using assms(1) m by (cases q) (auto simp: start_one_def split: if_splits)
  ultimately show ?thesis by (auto simp: starting_def kin_def)
qed

lemma stan_wired_one:
  assumes "start_one y i s = (s', Ret ())" "i < slots s" "stan_wired (i # is) s"
  shows "stan_wired is s'"
proof -
  note k = start_one_kin [OF assms(1,2)]
  have "n_cluster (s_connectors s ! i) \<noteq> []" if none: "bn_stan (s_conns s) = None" and "requiresStan (n_kind (s_connectors s ! i))"
  proof -
    obtain m q where m: "ref_Start y (Full i) s = (m, q)" by (metis surj_pair)
    have "q \<noteq> Ret ()" using stan_started [of y i s m] m that by auto
    then have "ref_NATSConnection m (Full i) \<noteq> []" using assms(1) m by (cases q) (auto simp: start_one_def split: if_splits)
    then show ?thesis using starting_sel(3) [OF starting_start(1) [OF m assms(2)] assms(2)]
      by (simp add: ref_NATSConnection_def conn_at_def conn_NATSConnection_def)
  qed
  then show ?thesis using assms(3) k by (auto simp: stan_wired_def kin_def same_identity_def)
qed

lemma traffic_kin:
  "i < slots s \<Longrightarrow> handles_messages (s_connectors s ! i) c \<Longrightarrow> kin s (s\<lparr>s_connectors := (s_connectors s)[i := c], s_history := w\<rparr>)"
  using handles_messages_same [of "s_connectors s ! i" c] by (auto simp: kin_def nth_list_update same_identity_def)

lemma returns_kin: "listens s i \<Longrightarrow> kin s (listener_returns i s)"
  using evolves_sel [OF evolves_returns, of s i] evolves_same [OF evolves_returns, of s i] by (simp add: kin_def)

lemma startup_kin:
  assumes "(startup_step y)\<^sup>*\<^sup>* c d" "map_order (y_queue_order y)" "start_wf (fst c) (snd c)" "stan_wired (fst c) (snd c)"
  shows "stan_wired (fst d) (snd d) \<and> kin (snd c) (snd d)"
  using assms(1)
proof (induction rule: rtranclp_induct)
  case (step d e)
  have wf: "start_wf (fst d) (snd d)" using startup_wf [OF step(1) assms(2,3)] by simp
  have "stan_wired (fst e) (snd e) \<and> kin (snd d) (snd e)" using step(2)
  proof cases
    case (next_connector i s s' "is")
    then show ?thesis using stan_wired_one [OF next_connector(3)] start_one_kin [OF next_connector(3)] wf step.IH
      by (simp add: start_wf_def)
  next
    case (early_fire t s "is")
    then have "kin (snd d) (snd e)" by (intro kin_fields) (simp_all add: fire_def)
    then show ?thesis using early_fire step.IH stan_wired_kin [of "is" s "fire t s"] by (auto simp: fire_def)
  next
    case (early_pass t s s' "is")
    have u: "queue_wf (unpark t s)" "\<not> s_stopped (unpark t s)" using wf early_pass(1) by (simp_all add: start_wf_def queue_wf_def unpark_def)
    note k = pass_kin [OF early_pass(4) u assms(2)]
    have "kin s s'" using k(1) by (simp add: kin_def unpark_def)
    then show ?thesis using early_pass step.IH stan_wired_kin [of "is" s s'] k(2) by (auto simp: unpark_def)
  next
    case (early_traffic i s c' "is" w)
    then show ?thesis using step.IH stan_wired_kin [of "is" s "snd e"] traffic_kin [of i s c' "s_history s @ w"] by auto
  next
    case (early_return s i "is")
    then show ?thesis using step.IH stan_wired_kin [of "is" s "snd e"] returns_kin [of s i] by (auto simp: listener_returns_def)
  qed
  then show ?case using step.IH kin_trans by blast
qed (use assms(4) in simp)

text \<open>The start of a bridge wires it.\<close>

lemma connect_js_keep:
  "connect_js e cfg xs b w = ((b', w'), r) \<Longrightarrow>
   \<forall>(n, c) \<in> set xs. \<exists>c0. map_of (bn_cells b) n = Some c0 \<and> cell_config c0 = cell_config c \<Longrightarrow> cells_keep b b'"
proof (induction xs arbitrary: b w)
  case (Cons x rest)
  obtain n c where x: "x = (n, c)" by force
  let ?go = "cellHasJetStream cfg (nats_Name (cell_config c)) \<and> cell_js c = None \<and> cell_nc c \<noteq> None"
  show ?case
  proof (cases ?go)
    case True
    obtain b1 w1 q where q: "connectCellJetStream e cfg n c b w = ((b1, w1), q)" by (metis surj_pair)
    obtain c0 where c0: "map_of (bn_cells b) n = Some c0" "cell_config c0 = cell_config c" using Cons.prems(2) x by auto
    have k: "cells_keep b b1" using q True cells_keep_update [OF c0(1)] c0(2)
      by (auto simp: connectCellJetStream_def split: option.splits prod.splits sum.splits)
    have "\<exists>c1. map_of (bn_cells b1) m = Some c1 \<and> cell_config c1 = cell_config d" if md: "(m, d) \<in> set rest" for m d
    proof -
      obtain d0 where d0: "map_of (bn_cells b) m = Some d0" "cell_config d0 = cell_config d"
        using bspec [OF Cons.prems(2), of "(m, d)"] md by auto
      then have "m \<in> keys (bn_cells b1)" using cells_keep_keys [OF k] by (auto simp: map_of_keys [symmetric])
      then obtain d1 where "map_of (bn_cells b1) m = Some d1" by (auto simp: map_of_keys [symmetric])
      then show ?thesis using cells_keep_back [OF k] d0 by (fastforce simp: cell_keeps_def)
    qed
    then have rest: "\<forall>(m, d) \<in> set rest. \<exists>c1. map_of (bn_cells b1) m = Some c1 \<and> cell_config c1 = cell_config d" by blast
    show ?thesis using Cons.IH [OF _ rest] Cons.prems(1) x True q k cells_keep_trans [OF k] by (cases q) auto
  next
    case False
    then have "connect_js e cfg rest b w = ((b', w'), r)" using Cons.prems(1) x by (auto split: if_splits)
    then show ?thesis using Cons.IH Cons.prems(2) by simp
  qed
qed simp

lemma connections_keep:
  assumes st: "connectToSTAN e d cfg b w = ((b1, w1), r)" and js: "connectToJetStream e order cfg b1 w1 = ((b2, w2), q)"
    and "map_order order" "map_wf (bn_cells b)"
  shows "cells_keep b b2" and "bn_stan b2 \<noteq> None \<Longrightarrow> bn_stan b = None \<Longrightarrow> stan_ClusterID (b_STAN cfg) \<noteq> []"
proof -
  have b1: "bn_cells b1 = bn_cells b" and sn: "bn_stan b1 \<noteq> None \<Longrightarrow> bn_stan b = None \<Longrightarrow> stan_ClusterID (b_STAN cfg) \<noteq> []"
    using st by (auto simp: connectToSTAN_def Let_def split: if_splits option.splits prod.splits sum.splits)
  have "cells_keep b1 b2"
  proof (rule connect_js_keep)
    show "connect_js e cfg (order (bn_cells b1)) b1 w1 = ((b2, w2), q)" using js by (simp add: connectToJetStream_def)
    show "\<forall>(n, c) \<in> set (order (bn_cells b1)). \<exists>c0. map_of (bn_cells b1) n = Some c0 \<and> cell_config c0 = cell_config c"
      using map_order.set_order [OF assms(3)] map_of_in [OF assms(4)] b1 by fastforce
  qed
  then show "cells_keep b b2" using b1 by (simp add: cells_keep_def)
  show "stan_ClusterID (b_STAN cfg) \<noteq> []" if "bn_stan b2 \<noteq> None" "bn_stan b = None"
    using that sn connect_js_stan js by (auto simp: connectToJetStream_def)
qed

lemma made_wired:
  assumes "well_wired cfg" "n_config c \<in> set (b_Connect cfg)" "cc_Type (n_config c) = kind_type (n_kind c)"
  shows "n_cluster c \<in> insert [] (nats_Name ` set (b_NATSClusters cfg)) \<and>
    (usesJetStream (n_kind c) \<longrightarrow> cellHasJetStream cfg (n_cluster c)) \<and> (requiresStan (n_kind c) \<longrightarrow> n_cluster c = [])"
  using assms kind_types [of "n_kind c"]
  by (auto simp: well_wired_def connector_wired_def list_all_iff cellHasJetStream_def list_ex_iff)

lemma bridge_init_wired:
  assumes "bridge_init y cfg g" and qo: "map_order (y_queue_order y)" and co: "map_order (y_cell_order y)"
  shows "wired (r_bridge g)"
proof -
  obtain now a m mo w where sc: "start_connect y now (NewNATSKafkaBridge\<lparr>s_config := cfg\<rparr>) = (a, Ret ())"
      and run: "(startup_step y)\<^sup>*\<^sup>* ([0..<slots a], a) ([], m)" and g: "r_bridge g = m\<lparr>s_monitor := mo, s_history := w\<rparr>"
      and wf: "start_wf [0..<slots a] a"
    using bridge_init_parts [OF assms(1) qo] .
  obtain cf b1 w1 b2 w2 b3 w3 where v: "ValidateNATSClusters cfg = (cf, None)"
    and na: "connectToNATS (y_env y) (y_cell_order y) True cf no_conns [] = ((b1, w1), None)"
    and st: "connectToSTAN (y_env y) (y_DefaultDiscoverPrefix y) cf b1 w1 = ((b2, w2), None)"
    and js: "connectToJetStream (y_env y) (y_cell_order y) cf b2 w2 = ((b3, w3), Ret ())"
    and a: "initializeConnectors y ((start_init now (NewNATSKafkaBridge\<lparr>s_config := cfg\<rparr>))\<lparr>s_config := cf, s_conns := b3, s_history := w3\<rparr>) = (a, Ret ())"
    using sc by (auto simp: start_connect_def start_init_def NewNATSKafkaBridge_def Let_def then_do_Ret with_conns_def split: prod.splits)
  note ww = validated_wired(1) [OF v]
  note cs = connectToNATS_spec [OF ww co na]
  note k = connections_keep [OF st js co, simplified cs]
  obtain xs where xs: "s_config a = cf" "s_conns a = b3" "s_connectors a = xs"
      and made: "\<forall>c \<in> set xs. n_config c \<in> set (b_Connect cf) \<and> cc_Type (n_config c) = kind_type (n_kind c)"
    using create_connectors_made a unfolding initializeConnectors_def by (fastforce simp: start_init_def)
  have each: "n_cluster (xs ! i) \<in> keys (bn_cells b3) \<and>
      (usesJetStream (n_kind (xs ! i)) \<longrightarrow> cellHasJetStream cf (n_cluster (xs ! i))) \<and>
      (requiresStan (n_kind (xs ! i)) \<longrightarrow> n_cluster (xs ! i) = [])" if "i < length xs" for i
    using that made made_wired [OF ww, of "xs ! i"] cells_keep_keys [OF k(1)] cs by simp
  have "bn_stan no_conns = None" by (simp add: no_conns_def)
  then have "stan_wired [0..<slots a] a" using k(2) xs by (auto simp: stan_wired_def simp del: not_None_eq)
  from startup_kin [OF run qo _ ] this wf have km: "stan_wired [] m" "kin a m" by auto
  have "NATSFor [] b3 \<noteq> None" "cells_right b3" using cs cells_right_keep [OF _ k(1)] cells_keep_NATSFor [OF k(1)] by blast+
  moreover have "stan_ClusterID (b_STAN cf) \<noteq> []" if "i < length xs" "requiresStan (n_kind (xs ! i))" for i
    using that km each [of i] xs by (auto simp: stan_wired_def kin_def same_identity_def)
  ultimately have "wired a" using each xs by (simp add: wired_def Let_def)
  from kin_wired [OF this km(2)] show ?thesis using g by (simp add: wired_def)
qed

text \<open>No step of a running bridge unwires it.\<close>

lemma perform_kin:
  assumes run: "perform y p s = ((s', Ret ()), ms)" and care: "cared_for s"
    and idx: "\<And>r. p = PConnectorError r \<Longrightarrow> ref_index r < slots s"
  shows "kin s s'"
proof -
  have en: "kin s (ensureReconnectTimer m)" if "requeues s m" for m
    using kin_trans [OF kin_requeues [OF that] kin_fields] by simp
  show ?thesis
  proof (cases p)
    case (PConnectorError r)
    then have "ConnectorError y r s = (s', Ret ())" using run by (simp add: perform_def)
    from ConnectorError_spec [OF this care idx [OF PConnectorError]] show ?thesis using en by auto
  next
    case PCheckConnections
    then have "checkConnections y s = (s', Ret ())" using run by (simp add: perform_def)
    from checkConnections_spec [OF this care] show ?thesis using en by auto
  qed (use run in \<open>auto simp: perform_def stanConnectionLost_def intro: kin_fields\<close>)
qed

lemma life_steps_serving: "life_step\<^sup>*\<^sup>* a b \<Longrightarrow> l_mode b = Serving \<Longrightarrow> l_mode a = Serving"
  by (induction rule: rtranclp_induct) (auto dest: life_step_cases)

definition wired_inv :: "run \<Rightarrow> bool" where
  "wired_inv g \<longleftrightarrow> bridge_inv g \<and> (\<not> s_stopped (r_bridge g) \<longrightarrow> wired (r_bridge g))"

context bridge_run
begin

lemma step_kin:
  assumes inv: "bridge_inv g" and ns: "\<not> s_stopped (r_bridge g)" and step: "bridge_step y g h"
  shows "s_stopped (r_bridge h) \<or> kin (r_bridge g) (r_bridge h)"
proof -
  have care: "cared_for (r_bridge g)" using inv ns by (simp add: bridge_inv_def tended_def)
  show ?thesis using step
  proof cases
    case (handler ps p qs s ms)
    have "ref_index r < slots (r_bridge g)" if "p = PConnectorError r" for r
      using inv handler(2) that by (auto simp: bridge_inv_def)
    then show ?thesis using perform_kin [OF handler(3) care] handler(1) by simp
  next
    case (timer_runs t s)
    have "queue_wf (unpark t (r_bridge g))" using care by (simp add: cared_for_def queue_wf_def unpark_def)
    then have "kin (unpark t (r_bridge g)) s" using pass_kin(1) [OF timer_runs(3) _ _ queue_order] ns by (simp add: unpark_def)
    then show ?thesis using timer_runs(1) by (simp add: kin_def unpark_def)
  next
    case stop_begins
    then show ?thesis by (simp add: stop_timers_def stopReconnectTimer_def Let_def split: option.splits)
  next
    case (traffic i c w)
    then show ?thesis using traffic_kin [OF traffic(2,3)] by simp
  next
    case (fetch_fails i)
    then show ?thesis using returns_kin by simp
  qed (use inv ns in \<open>auto simp: fire_def bridge_inv_def stop_wf_def intro: kin_fields\<close>)
qed

lemma wired_step:
  assumes g: "wired_inv g" and step: "bridge_step y g h"
  shows "wired_inv h"
proof -
  have inv: "bridge_inv g" "bridge_inv h" using g step_inv [OF _ step] by (simp_all add: wired_inv_def)
  have "\<not> s_stopped (r_bridge g)" if "\<not> s_stopped (r_bridge h)"
    using that life_steps_serving [OF life_step_refines [OF inv(1) step]] by (simp add: life_of_def split: if_splits)
  then show ?thesis using g inv step_kin [OF inv(1) _ step] kin_wired by (auto simp: wired_inv_def)
qed

end

text \<open>The interface of the surroundings with both orders: of the queue and of the cells.\<close>

locale wired_run = bridge_run +
  assumes cell_order: "map_order (y_cell_order y)"

sublocale wired_run \<subseteq> wire: invariant_system
  "\<lambda>g. bridge_init y cfg g \<and> distinct_ids (r_bridge g)" "bridge_step y" wired_inv
proof unfold_locales
  fix g assume g: "bridge_init y cfg g \<and> distinct_ids (r_bridge g)"
  then have "wired (r_bridge g)" using bridge_init_wired [OF _ queue_order cell_order] by blast
  then show "wired_inv g" using inv_init g by (simp add: wired_inv_def)
qed (rule wired_step)

context wired_run
begin

lemma pass_heals:
  assumes g: "reachable (\<lambda>g. bridge_init y cfg g \<and> distinct_ids (r_bridge g)) (bridge_step y) g"
    and "s_running (r_bridge g)" and t: "t \<in> set (s_parked (r_bridge g))"
    and h: "healthy e" and rd: "readers_ok y (r_bridge g)"
  shows "\<exists>s. bridge_step (y\<lparr>y_env := e\<rparr>) g (g\<lparr>r_bridge := s\<rparr>) \<and>
    reconnect_pass (y\<lparr>y_env := e\<rparr>) (unpark t (r_bridge g)) = (s, Ret ()) \<and>
    s_reconnect s = [] \<and> s_timer s = None \<and> slots s = slots (r_bridge g) \<and>
    (\<forall>i < slots s. works (s_connectors s ! i) \<longleftrightarrow> \<not> stranded (s_connectors (r_bridge g) ! i))"
proof -
  let ?y = "y\<lparr>y_env := e\<rparr>" and ?s = "unpark t (r_bridge g)"
  have ns: "\<not> s_stopped (r_bridge g)" using run_inv [OF g] assms(2) by (simp add: bridge_inv_def)
  have "cared_for (r_bridge g)" using run_inv [OF g] ns by (simp add: bridge_inv_def tended_def)
  then have "cared_for ?s" using cared_for_sel [of ?s "r_bridge g"] by (simp add: unpark_def)
  moreover have "wired ?s" using wire.reachable_inv [OF g] ns by (simp add: wired_inv_def wired_def unpark_def)
  ultimately obtain s where "reconnect_pass ?y ?s = (s, Ret ())" "s_reconnect s = []" "s_timer s = None" "slots s = slots ?s"
      "\<forall>i < slots ?s. works (s_connectors s ! i) \<longleftrightarrow> \<not> stranded (s_connectors (r_bridge g) ! i)"
    using healthy_pass [of ?y ?s] h queue_order ns rd by (auto simp: unpark_def)
  then show ?thesis using timer_runs [OF t, of ?y s] by (intro exI [of _ s]) (simp add: unpark_def)
qed

end

interpretation half_wired: wired_run half_world half_config
  by unfold_locales (simp add: half_world_def)

section \<open>The property\<close>

text \<open>C3. A healthy world heals the bridge. Whatever happened to a running bridge with distinct connector
  identifiers, once the brokers answer again the next reconnect pass of its timer returns with the
  queue empty and no timer armed, and the connectors that work then (that are up and have their
  subscription or their listener) are exactly those that were not left without a listener by an error
  of \<^verbatim>\<open>Fetch\<close>; the pass does not mend these. The Kafka settings of the readers must be such that a reader
  can be made (\<open>readers_ok\<close>). Nothing else is assumed about the past of the run.\<close>

theorem healthy_world_heals:
  assumes "map_order (y_queue_order y)" and "map_order (y_cell_order y)"
    and "reachable (\<lambda>g. bridge_init y cfg g \<and> distinct_ids (r_bridge g)) (bridge_step y) g"
    and "s_running (r_bridge g)" and "t \<in> set (s_parked (r_bridge g))"
    and "healthy e" and "readers_ok y (r_bridge g)"
  shows "\<exists>s. bridge_step (y\<lparr>y_env := e\<rparr>) g (g\<lparr>r_bridge := s\<rparr>) \<and>
    reconnect_pass (y\<lparr>y_env := e\<rparr>) (unpark t (r_bridge g)) = (s, Ret ()) \<and>
    s_reconnect s = [] \<and> s_timer s = None \<and> slots s = slots (r_bridge g) \<and>
    (\<forall>i < slots s. works (s_connectors s ! i) \<longleftrightarrow> \<not> stranded (s_connectors (r_bridge g) ! i))"
  using wired_run.pass_heals [OF wired_run.intro [OF bridge_run.intro [OF assms(1)] wired_run_axioms.intro [OF assms(2)]] assms(3-7)] .

lemma half_parked:
  "\<exists>g t. reachable (\<lambda>g. bridge_init half_world half_config g \<and> distinct_ids (r_bridge g)) (bridge_step half_world) g \<and>
    s_running (r_bridge g) \<and> slots (r_bridge g) = 2 \<and> s_reconnect (r_bridge g) \<noteq> [] \<and> t \<in> set (s_parked (r_bridge g)) \<and>
    (\<forall>c \<in> set (s_connectors (r_bridge g)). n_kind c = NATS2Kafka)"
proof -
  obtain g where g: "reachable (\<lambda>g. bridge_init half_world half_config g \<and> distinct_ids (r_bridge g)) (bridge_step half_world) g"
      "s_running (r_bridge g)" "slots (r_bridge g) = 2" "s_reconnect (r_bridge g) = [(''two'', Full 1)]"
      "\<forall>c \<in> set (s_connectors (r_bridge g)). n_kind c = NATS2Kafka"
    using half_reaches by (elim exE conjE)
  have "timer_wf (r_bridge g)" using half.run_inv [OF g(1)] g(2) by (auto simp: bridge_inv_def tended_def)
  then obtain t where t: "t \<in> set (s_waiting (r_bridge g)) \<union> set (s_parked (r_bridge g))" using g(4) by (auto simp: timer_wf_def)
  show ?thesis
  proof (cases "t \<in> set (s_parked (r_bridge g))")
    case False
    let ?h = "g\<lparr>r_bridge := fire t (r_bridge g)\<rparr>"
    have "bridge_step half_world g ?h" using timer_fires t False by blast
    from reach_step [OF g(1) this] show ?thesis using g by (intro exI [of _ ?h] exI [of _ t]) (simp add: fire_def)
  qed (use g in \<open>intro exI [of _ g] exI [of _ t], simp\<close>)
qed

theorem healthy_world_heals_witness:
  "\<exists>g s t. reachable (\<lambda>g. bridge_init half_world half_config g \<and> distinct_ids (r_bridge g)) (bridge_step half_world) g \<and>
    s_reconnect (r_bridge g) \<noteq> [] \<and> reconnect_pass (half_world\<lparr>y_env := calm_env\<rparr>) (unpark t (r_bridge g)) = (s, Ret ()) \<and>
    s_reconnect s = [] \<and> works (s_connectors s ! 0) \<and> works (s_connectors s ! 1)"
proof -
  obtain g t where g: "reachable (\<lambda>g. bridge_init half_world half_config g \<and> distinct_ids (r_bridge g)) (bridge_step half_world) g"
      "s_running (r_bridge g)" "t \<in> set (s_parked (r_bridge g))" "slots (r_bridge g) = 2" "s_reconnect (r_bridge g) \<noteq> []"
      "\<forall>c \<in> set (s_connectors (r_bridge g)). n_kind c = NATS2Kafka"
    using half_parked by (elim exE conjE)
  have "readers_ok half_world (r_bridge g)" using g(6) by (simp add: reader_ok_def readsKafka_def)
  from healthy_world_heals [OF half.queue_order half_wired.cell_order g(1-3) healthy_calm this]
  obtain s where "reconnect_pass (half_world\<lparr>y_env := calm_env\<rparr>) (unpark t (r_bridge g)) = (s, Ret ())" "s_reconnect s = []"
      "slots s = 2" "\<forall>i < slots s. works (s_connectors s ! i) \<longleftrightarrow> \<not> stranded (s_connectors (r_bridge g) ! i)"
    using g(4) by auto
  moreover have "\<not> stranded (s_connectors (r_bridge g) ! i)" if "i < 2" for i
    using g(4,6) that by (simp add: stranded_def readsKafka_def)
  ultimately show ?thesis using g(1,5) by (intro exI [of _ g] exI [of _ s] exI [of _ t]) simp
qed

end
