(* ===== verification/ConfigParse.thy ===== *)
theory ConfigParse
  imports Config Strconv
begin

text \<open>
  The parser of the configuration file: \<^verbatim>\<open>server/conf/parse.go\<close>, \<^verbatim>\<open>load.go\<close> and
  \<^verbatim>\<open>utils.go\<close>. It walks a Go struct by reflection and fills it from the generic map that the
  parser of \<^verbatim>\<open>nats-server\<close> makes of the file.

  A dynamic value (\<^verbatim>\<open>interface{}\<close>) is a \<open>dyn\<close>, a reflected type a \<open>gotype\<close>, a value of such
  a type a \<open>gval\<close>. Structs are lists of fields; a field has its name, its \<^verbatim>\<open>conf\<close> tag and whether
  reflection may set it. Filling a struct works in place: the functions return the struct as they
  leave it, with the error or panic they stop at. Floating-point numbers are an arbitrary type with
  the operations of the record \<open>libs\<close>, which also has the order in which Go ranges over a map. A
  dynamic value that an error message prints is left out of the message.
\<close>

section \<open>Definitions\<close>

datatype ikind = KInt | KInt64 | KInt32 | KInt16 | KInt8

fun width :: "ikind \<Rightarrow> nat" where
  "width KInt = 64" | "width KInt64 = 64" | "width KInt32 = 32" | "width KInt16 = 16" | "width KInt8 = 8"

datatype 'f dyn =
    DNil
  | DBool bool
  | DInt ikind int
  | DFloat 'f
  | DString string
  | DArr "'f dyn list"
  | DMap "(string \<times> 'f dyn) list"
  | DOther string

datatype gotype =
    TBool
  | TInt ikind
  | TFloat64
  | TFloat32
  | TString
  | TAnyMap
  | TMap
  | TArray gotype
  | TSlice gotype
  | TStruct fields
  | TOther
and fields = NoField | AField string string bool gotype fields

datatype 'f gval =
    GBool bool
  | GInt int
  | GFloat 'f
  | GString string
  | GMap "(string \<times> 'f dyn) list"
  | GSlice "'f gval list"
  | GStruct "'f gval list"
  | GOpaque

record 'f libs =
  l_ParseFloat :: "string \<Rightarrow> 'f option"
  l_float32 :: "'f \<Rightarrow> 'f"
  l_of_int :: "int \<Rightarrow> 'f"
  l_to_int :: "'f \<Rightarrow> int"
  l_zero :: "'f"
  l_order :: "(string \<times> 'f dyn) list \<Rightarrow> (string \<times> 'f dyn) list"

text \<open>The zero value of a type.\<close>

fun zero_value :: "'f libs \<Rightarrow> gotype \<Rightarrow> 'f gval" and zero_fields :: "'f libs \<Rightarrow> fields \<Rightarrow> 'f gval list" where
  "zero_value l TBool = GBool False"
| "zero_value l (TInt k) = GInt 0"
| "zero_value l TFloat64 = GFloat (l_zero l)"
| "zero_value l TFloat32 = GFloat (l_zero l)"
| "zero_value l TString = GString []"
| "zero_value l TAnyMap = GMap []"
| "zero_value l TMap = GOpaque"
| "zero_value l (TArray t) = GOpaque"
| "zero_value l (TSlice t) = GSlice []"
| "zero_value l (TStruct fs) = GStruct (zero_fields l fs)"
| "zero_value l TOther = GOpaque"
| "zero_fields l NoField = []"
| "zero_fields l (AField n tag settable t fs) = zero_value l t # zero_fields l fs"

fun parseBoolean :: "string \<Rightarrow> 'f dyn \<Rightarrow> bool res" where
  "parseBoolean keyname (DBool b) = Ret b"
| "parseBoolean keyname (DString sv) = Ret (ToLower sv = ''true'')"
| "parseBoolean keyname v = Fail (Errorf ''error parsing %s option %v'' [AStr keyname])"

fun parseInt :: "string \<Rightarrow> 'f dyn \<Rightarrow> int res" where
  "parseInt keyname (DInt k i) = Ret i"
| "parseInt keyname (DString s) =
     (case Atoi s of
        Some i \<Rightarrow> Ret i
      | None \<Rightarrow> Fail (Errorf ''unable to parse integer %v for key %s'' [AStr s, AStr keyname]))"
| "parseInt keyname v = Fail (Errorf ''unable to parse integer %v for key %s'' [AStr keyname])"

fun parseFloat :: "'f libs \<Rightarrow> string \<Rightarrow> 'f dyn \<Rightarrow> 'f res" where
  "parseFloat l keyname (DFloat x) = Ret x"
| "parseFloat l keyname (DString s) =
     (case l_ParseFloat l s of
        Some x \<Rightarrow> Ret x
      | None \<Rightarrow> Fail (Errorf ''unable to parse float %v for key %s'' [AStr s, AStr keyname]))"
| "parseFloat l keyname v = Fail (Errorf ''unable to parse float %v for key %s'' [AStr keyname])"

fun parseString :: "string \<Rightarrow> 'f dyn \<Rightarrow> string res" where
  "parseString keyName (DString sv) = Ret sv"
| "parseString keyName v = Fail (Errorf ''error parsing %s option %v'' [AStr keyName])"

text \<open>Storing an integer in a field keeps the bits that fit.\<close>

definition wrap :: "ikind \<Rightarrow> int \<Rightarrow> int" where
  "wrap k i = signed_take_bit (width k - 1) i"

definition set_float :: "'f libs \<Rightarrow> gotype \<Rightarrow> 'f \<Rightarrow> 'f" where
  "set_float l t x = (if t = TFloat32 then l_float32 l x else x)"

text \<open>
  \<^verbatim>\<open>reflect\<close>'s conversions of a single value. Numbers convert into each other; an integer converts
  to a string as the character with that code point, in UTF-8.
\<close>

definition utf8 :: "nat \<Rightarrow> string" where
  "utf8 n =
     map char_of
       (if n < 128 then [n]
        else if n < 2048 then [192 + n div 64, 128 + n mod 64]
        else if n < 65536 then [224 + n div 4096, 128 + n div 64 mod 64, 128 + n mod 64]
        else [240 + n div 262144, 128 + n div 4096 mod 64, 128 + n div 64 mod 64, 128 + n mod 64])"

definition rune_string :: "int \<Rightarrow> string" where
  "rune_string i =
     (if i < 0 \<or> 1114111 < i \<or> 55296 \<le> i \<and> i \<le> 57343 then utf8 65533 else utf8 (nat i))"

fun convert :: "'f libs \<Rightarrow> gotype \<Rightarrow> 'f dyn \<Rightarrow> 'f gval option" where
  "convert l TString (DString s) = Some (GString s)"
| "convert l TString (DInt k i) = Some (GString (rune_string i))"
| "convert l (TInt k') (DInt k i) = Some (GInt (wrap k' i))"
| "convert l (TInt k') (DFloat x) = Some (GInt (wrap k' (l_to_int l x)))"
| "convert l TFloat64 (DInt k i) = Some (GFloat (l_of_int l i))"
| "convert l TFloat32 (DInt k i) = Some (GFloat (l_float32 l (l_of_int l i)))"
| "convert l TFloat64 (DFloat x) = Some (GFloat x)"
| "convert l TFloat32 (DFloat x) = Some (GFloat (l_float32 l x))"
| "convert l t v = None"

fun prim_elems :: "'f libs \<Rightarrow> string \<Rightarrow> gotype \<Rightarrow> 'f dyn list \<Rightarrow> 'f gval list \<Rightarrow> 'f gval list res" where
  "prim_elems l keyName t [] buf = Ret buf"
| "prim_elems l keyName t (DNil # es) buf = Panic NilDeref"
| "prim_elems l keyName t (e # es) buf =
     (case convert l t e of
        Some x \<Rightarrow> prim_elems l keyName t es (buf @ [x])
      | None \<Rightarrow> Fail (Errorf ''error parsing %s option %v, contents are not convertable'' [AStr keyName]))"

definition parsePrimitiveArray :: "'f libs \<Rightarrow> string \<Rightarrow> gotype \<Rightarrow> 'f dyn \<Rightarrow> 'f gval list res" where
  "parsePrimitiveArray l keyName t v =
     (case v of
        DArr ia \<Rightarrow> prim_elems l keyName t ia []
      | DNil \<Rightarrow> Panic NilDeref
      | _ \<Rightarrow>
         (case convert l t v of
            Some x \<Rightarrow> Ret [x]
          | None \<Rightarrow> Fail (Errorf ''error parsing %s option %v, single element is not convertable'' [AStr keyName])))"

text \<open>Looking a field up: by its tag if it has one, else by its name, its name in lower case, and at last
  by any key that is the name up to case.\<close>

fun find_lower :: "string \<Rightarrow> (string \<times> 'f dyn) list \<Rightarrow> 'f dyn" where
  "find_lower key [] = DNil"
| "find_lower key ((k, v) # data) = (if ToLower k = key then v else find_lower key data)"

definition get :: "'f libs \<Rightarrow> (string \<times> 'f dyn) list \<Rightarrow> string \<Rightarrow> string \<Rightarrow> 'f dyn" where
  "get l data key confTag =
     (if key = [] then DNil
      else if confTag \<noteq> [] then (case map_of data confTag of Some v \<Rightarrow> v | None \<Rightarrow> DNil)
      else case map_of data key of
        Some v \<Rightarrow> v
      | None \<Rightarrow>
         (case map_of data (ToLower key) of
            Some v \<Rightarrow> v
          | None \<Rightarrow> find_lower (ToLower key) (l_order l data)))"

fun is_prim :: "gotype \<Rightarrow> bool" where
  "is_prim TString = True"
| "is_prim (TInt k) = True"
| "is_prim TFloat64 = True"
| "is_prim TFloat32 = True"
| "is_prim t = False"

definition put :: "'f gval \<Rightarrow> ('a \<Rightarrow> 'f gval) \<Rightarrow> 'a res \<Rightarrow> 'f gval \<times> unit res" where
  "put v f r = (case r of Ret x \<Rightarrow> (f x, Ret ()) | Fail e \<Rightarrow> (v, Fail e) | Panic p \<Rightarrow> (v, Panic p))"

definition unknown_type :: "bool \<Rightarrow> string \<Rightarrow> string \<Rightarrow> 'f gval \<Rightarrow> 'f gval \<times> unit res" where
  "unknown_type strict fmt n v = (if strict then (v, Fail (Errorf fmt [AStr n])) else (v, Ret ()))"

text \<open>
  An array of structs. The argument \<open>parse_one\<close> is the recursive call of \<open>parseStruct\<close> on a new zero
  value of the element type.
\<close>

fun parse_elems ::
  "((string \<times> 'f dyn) list \<Rightarrow> 'f gval list \<times> unit res) \<Rightarrow> 'f dyn list \<Rightarrow> 'f gval list \<Rightarrow> 'f gval list res" where
  "parse_elems parse_one [] buf = Ret buf"
| "parse_elems parse_one (DMap sv # es) buf =
     (case parse_one sv of
        (vs, Ret _) \<Rightarrow> parse_elems parse_one es (buf @ [GStruct vs])
      | (vs, Fail e) \<Rightarrow> Fail e
      | (vs, Panic p) \<Rightarrow> Panic p)"
| "parse_elems parse_one (e # es) buf = Fail (Errorf ''struct array contained invalid value'' [])"

fun parseStructs ::
  "((string \<times> 'f dyn) list \<Rightarrow> 'f gval list \<times> unit res) \<Rightarrow> string \<Rightarrow> 'f dyn \<Rightarrow> 'f gval list res" where
  "parseStructs parse_one n (DArr ia) = parse_elems parse_one ia []"
| "parseStructs parse_one n (DMap sv) =
     (case parse_one sv of
        (vs, Ret _) \<Rightarrow> Ret [GStruct vs]
      | (vs, Fail e) \<Rightarrow> Fail e
      | (vs, Panic p) \<Rightarrow> Panic p)"
| "parseStructs parse_one n v = Fail (Errorf ''error parsing %s option %v'' [AStr n])"

function (sequential) parseStruct ::
    "'f libs \<Rightarrow> bool \<Rightarrow> (string \<times> 'f dyn) list \<Rightarrow> fields \<Rightarrow> 'f gval list \<Rightarrow> 'f gval list \<times> unit res"
  and parse_field :: "'f libs \<Rightarrow> bool \<Rightarrow> string \<Rightarrow> gotype \<Rightarrow> 'f dyn \<Rightarrow> 'f gval \<Rightarrow> 'f gval \<times> unit res"
  and parse_slice :: "'f libs \<Rightarrow> bool \<Rightarrow> string \<Rightarrow> gotype \<Rightarrow> 'f dyn \<Rightarrow> 'f gval list option res"
where
  "parseStruct l strict data (AField n tag settable t fs) (v # vs) =
     (let rest = (\<lambda>v. case parseStruct l strict data fs vs of (vs, r) \<Rightarrow> (v # vs, r));
          configVal = get l data n tag
      in if \<not> settable then
           (if strict then (v # vs, Fail (Errorf ''unsettable field in configuration struct %s'' [AStr n])) else rest v)
         else if configVal = DNil then
           (if strict then (v # vs, Fail (Errorf ''missing field in configuration file %s'' [AStr n])) else rest v)
         else case parse_field l strict n t configVal v of
                (v, Ret _) \<Rightarrow> rest v
              | (v, r) \<Rightarrow> (v # vs, r))"
| "parseStruct l strict data fs vs = (vs, Ret ())"
| "parse_field l strict n TBool cv v = put v GBool (parseBoolean n cv)"
| "parse_field l strict n (TInt k) cv v = put v (GInt \<circ> wrap k) (parseInt n cv)"
| "parse_field l strict n TFloat64 cv v = put v (GFloat \<circ> set_float l TFloat64) (parseFloat l n cv)"
| "parse_field l strict n TFloat32 cv v = put v (GFloat \<circ> set_float l TFloat32) (parseFloat l n cv)"
| "parse_field l strict n TString cv v = put v GString (parseString n cv)"
| "parse_field l strict n TAnyMap cv v =
     (case cv of
        DMap d \<Rightarrow> (GMap d, Ret ())
      | _ \<Rightarrow> (v, Fail (Errorf ''map field %s doesn't have a matching map in the config file'' [AStr n])))"
| "parse_field l strict n TMap cv v =
     (case cv of
        DMap d \<Rightarrow> (v, Fail (Errorf ''only map[string]interface{} fields are supported'' []))
      | _ \<Rightarrow> (v, Fail (Errorf ''map field %s doesn't have a matching map in the config file'' [AStr n])))"
| "parse_field l strict n (TArray t) cv v =
     (case parse_slice l strict n t cv of
        Ret None \<Rightarrow> unknown_type strict ''unknown field type in configuration %s, bool, int, float, string and arrays/structs of those are supported'' n v
      | Ret (Some xs) \<Rightarrow> (v, Panic TypeAssertion)
      | Fail e \<Rightarrow> (v, Fail e)
      | Panic p \<Rightarrow> (v, Panic p))"
| "parse_field l strict n (TSlice t) cv v =
     (case parse_slice l strict n t cv of
        Ret None \<Rightarrow> unknown_type strict ''unknown field type in configuration %s, bool, int, float, string and arrays/structs of those are supported'' n v
      | Ret (Some xs) \<Rightarrow> (GSlice xs, Ret ())
      | Fail e \<Rightarrow> (v, Fail e)
      | Panic p \<Rightarrow> (v, Panic p))"
| "parse_field l strict n (TStruct fs) cv v =
     (case cv of
        DMap d \<Rightarrow> (case v of GStruct vs \<Rightarrow> (case parseStruct l strict d fs vs of (vs, r) \<Rightarrow> (GStruct vs, r)) | _ \<Rightarrow> (v, Ret ()))
      | _ \<Rightarrow> (v, Fail (Errorf ''struct field %s doesn't have a matching map in the config file'' [AStr n])))"
| "parse_field l strict n TOther cv v =
     unknown_type strict ''unknown field type in configuration %s, bool, int, float, string, hostport and arrays/structs of those are supported'' n v"
| "parse_slice l strict n (TStruct fs) cv = 
     bind_res (parseStructs (\<lambda>sv. parseStruct l strict sv fs (zero_fields l fs)) n cv) (\<lambda>xs. Ret (Some xs))"
| "parse_slice l strict n t cv =
     (if is_prim t then bind_res (parsePrimitiveArray l n t cv) (\<lambda>xs. Ret (Some xs)) else Ret None)"
  by pat_completeness auto
termination
  by (relation "measure (case_sum (\<lambda>(l, st, d, fs, vs). size fs)
      (case_sum (\<lambda>(l, st, n, t, cv, v). size t) (\<lambda>(l, st, n, t, cv). size t)))") auto

text \<open>Loading: \<open>Parse\<close> is the parser of \<^verbatim>\<open>nats-server\<close>, \<open>ReadFile\<close> is \<^verbatim>\<open>os.ReadFile\<close>.\<close>

definition LoadConfigFromMap ::
  "'f libs \<Rightarrow> (string \<times> 'f dyn) list \<Rightarrow> fields \<Rightarrow> 'f gval list \<Rightarrow> bool \<Rightarrow> 'f gval list \<times> unit res" where
  "LoadConfigFromMap l m fs vs strict = parseStruct l strict m fs vs"

definition LoadConfigFromString ::
  "'f libs \<Rightarrow> (string \<Rightarrow> goerr + (string \<times> 'f dyn) list) \<Rightarrow> string \<Rightarrow> fields \<Rightarrow> 'f gval list \<Rightarrow> bool \<Rightarrow>
   'f gval list \<times> unit res" where
  "LoadConfigFromString l Parse configString fs vs strict =
     (case Parse configString of
        Inl e \<Rightarrow> (vs, Fail e)
      | Inr m \<Rightarrow> parseStruct l strict m fs vs)"

definition LoadConfigFromFile ::
  "'f libs \<Rightarrow> (string \<Rightarrow> goerr + (string \<times> 'f dyn) list) \<Rightarrow> (string \<Rightarrow> goerr + string) \<Rightarrow> string \<Rightarrow> fields \<Rightarrow> 'f gval list \<Rightarrow>
   bool \<Rightarrow> 'f gval list \<times> unit res" where
  "LoadConfigFromFile l Parse ReadFile configFile fs vs strict =
     (case ReadFile configFile of
        Inl e \<Rightarrow> (vs, Fail (Wrapf ''error reading configuration file: %s'' [] e))
      | Inr configString \<Rightarrow> LoadConfigFromString l Parse configString fs vs strict)"

text \<open>
  \<open>validatePathExists\<close>: \<open>Abs\<close> and \<open>Stat\<close> are the standard library's; what \<open>Stat\<close> finds is a regular
  file, a directory or something else. Any failure other than a missing file leaves the file info
  nil, and reading its mode panics.
\<close>

datatype file_mode = Regular | Directory | Special

definition validatePathExists ::
  "(string \<Rightarrow> goerr + string) \<Rightarrow> (string \<Rightarrow> goerr + file_mode) \<Rightarrow> (goerr \<Rightarrow> bool) \<Rightarrow> string \<Rightarrow> bool \<Rightarrow> string res" where
  "validatePathExists Abs Stat IsNotExist path dir =
     (if path = [] then Fail (Errorf ''path is not specified'' [])
      else case Abs path of
        Inl e \<Rightarrow> Fail (Wrapf ''error parsing path [%s]: %v'' [AStr []] e)
      | Inr abspath \<Rightarrow>
         (case Stat abspath of
            Inl e \<Rightarrow> if IsNotExist e then Fail (Errorf ''the path [%s] doesn't exist'' [AStr abspath]) else Panic NilDeref
          | Inr mode \<Rightarrow>
             if dir \<and> mode = Regular then Fail (Errorf ''the path [%s] is not a directory'' [AStr abspath])
             else if \<not> dir \<and> mode = Directory then Fail (Errorf ''the path [%s] is not a file'' [AStr abspath])
             else Ret abspath))"

definition ValidateDirPath where
  "ValidateDirPath Abs Stat IsNotExist path = validatePathExists Abs Stat IsNotExist path True"

definition ValidateFilePath where
  "ValidateFilePath Abs Stat IsNotExist path = validatePathExists Abs Stat IsNotExist path False"

section \<open>The types of the configuration structs\<close>

fun struct_of :: "(string \<times> gotype) list \<Rightarrow> fields" where
  "struct_of [] = NoField"
| "struct_of ((n, t) # fs) = AField n [] True t (struct_of fs)"

definition TLSConf_fields :: fields where
  "TLSConf_fields = struct_of [(''Key'', TString), (''Cert'', TString), (''Root'', TString)]"

definition SASL_fields :: fields where
  "SASL_fields = struct_of [(''User'', TString), (''Password'', TString), (''InsecureSkipVerify'', TBool),
     (''Mechanism'', TString), (''TLS'', TBool)]"

definition IAM_fields :: fields where
  "IAM_fields = struct_of [(''Enable'', TBool), (''Region'', TString)]"

definition LoggingConfig_fields :: fields where
  "LoggingConfig_fields = struct_of [(''Time'', TBool), (''Debug'', TBool), (''Trace'', TBool), (''Colors'', TBool), (''PID'', TBool)]"

definition HTTPConfig_fields :: fields where
  "HTTPConfig_fields = struct_of [(''HTTPHost'', TString), (''HTTPPort'', TInt KInt), (''HTTPSPort'', TInt KInt),
     (''TLS'', TStruct TLSConf_fields), (''ReadTimeout'', TInt KInt), (''WriteTimeout'', TInt KInt)]"

definition NATSConfig_fields :: fields where
  "NATSConfig_fields = struct_of [(''Name'', TString), (''Servers'', TSlice TString), (''ClientName'', TString),
     (''ConnectTimeout'', TInt KInt), (''ReconnectWait'', TInt KInt), (''MaxReconnects'', TInt KInt),
     (''TLS'', TStruct TLSConf_fields), (''UserCredentials'', TString), (''UserNKEY'', TString)]"

definition NATSStreamingConfig_fields :: fields where
  "NATSStreamingConfig_fields = struct_of [(''ClusterID'', TString), (''ClientID'', TString), (''PubAckWait'', TInt KInt),
     (''DiscoverPrefix'', TString), (''MaxPubAcksInflight'', TInt KInt), (''ConnectWait'', TInt KInt)]"

definition JetStreamConfig_fields :: fields where
  "JetStreamConfig_fields = struct_of [(''PublishAsyncMaxPending'', TInt KInt), (''MaxWait'', TInt KInt),
     (''EnableFlowControl'', TBool), (''EnableAckSync'', TBool), (''HeartbeatInterval'', TInt KInt)]"

definition ConnectorConfig_fields :: fields where
  "ConnectorConfig_fields = struct_of [(''ID'', TString), (''Type'', TString), (''NATSConnection'', TString),
     (''Channel'', TString), (''DurableName'', TString), (''StartAtSequence'', TInt KInt64), (''StartAtTime'', TInt KInt64),
     (''Subject'', TString), (''QueueName'', TString), (''Stream'', TString), (''Brokers'', TSlice TString), (''Topic'', TString),
     (''TLS'', TStruct TLSConf_fields), (''SASL'', TStruct SASL_fields), (''IAM'', TStruct IAM_fields),
     (''MinBytes'', TInt KInt64), (''MaxBytes'', TInt KInt64), (''Partition'', TInt KInt64), (''GroupID'', TString),
     (''Balancer'', TString), (''KeyType'', TString), (''KeyValue'', TString), (''SchemaRegistryURL'', TString),
     (''SubjectName'', TString), (''SchemaVersion'', TInt KInt), (''SchemaType'', TString)]"

definition NATSKafkaBridgeConfig_fields :: fields where
  "NATSKafkaBridgeConfig_fields = struct_of [(''ReconnectInterval'', TInt KInt), (''ConnectTimeout'', TInt KInt),
     (''Logging'', TStruct LoggingConfig_fields), (''NATS'', TStruct NATSConfig_fields),
     (''NATSClusters'', TSlice (TStruct NATSConfig_fields)), (''STAN'', TStruct NATSStreamingConfig_fields),
     (''JetStream'', TStruct JetStreamConfig_fields), (''Monitoring'', TStruct HTTPConfig_fields),
     (''Connect'', TSlice (TStruct ConnectorConfig_fields))]"

lemmas config_fields_defs = TLSConf_fields_def SASL_fields_def IAM_fields_def LoggingConfig_fields_def HTTPConfig_fields_def
  NATSConfig_fields_def NATSStreamingConfig_fields_def JetStreamConfig_fields_def ConnectorConfig_fields_def
  NATSKafkaBridgeConfig_fields_def

section \<open>Types\<close>

text \<open>A value has a type; the parser assumes it of the struct it fills, and keeps it.\<close>

definition fits :: "ikind \<Rightarrow> int \<Rightarrow> bool" where
  "fits k i \<longleftrightarrow> - (2 ^ (width k - 1)) \<le> i \<and> i < 2 ^ (width k - 1)"

fun has_type :: "'f gval \<Rightarrow> gotype \<Rightarrow> bool" and have_types :: "'f gval list \<Rightarrow> fields \<Rightarrow> bool" where
  "has_type (GBool b) t \<longleftrightarrow> t = TBool"
| "has_type (GInt i) t \<longleftrightarrow> (case t of TInt k \<Rightarrow> fits k i | _ \<Rightarrow> False)"
| "has_type (GFloat x) t \<longleftrightarrow> t = TFloat64 \<or> t = TFloat32"
| "has_type (GString s) t \<longleftrightarrow> t = TString"
| "has_type (GMap d) t \<longleftrightarrow> t = TAnyMap"
| "has_type (GSlice vs) t \<longleftrightarrow> (case t of TSlice u \<Rightarrow> (\<forall>v \<in> set vs. has_type v u) | _ \<Rightarrow> False)"
| "has_type (GStruct vs) t \<longleftrightarrow> (case t of TStruct fs \<Rightarrow> have_types vs fs | _ \<Rightarrow> False)"
| "has_type GOpaque t \<longleftrightarrow> t = TMap \<or> t = TOther \<or> (\<exists>u. t = TArray u)"
| "have_types [] fs \<longleftrightarrow> fs = NoField"
| "have_types (v # vs) fs \<longleftrightarrow> (case fs of NoField \<Rightarrow> False | AField n tag st t gs \<Rightarrow> has_type v t \<and> have_types vs gs)"

lemma wrap_fits [simp]: "fits k (wrap k i)"
  unfolding fits_def wrap_def
  using signed_take_bit_int_less_exp [of "width k - 1" i] signed_take_bit_int_greater_eq_minus_exp [of "width k - 1" i] by simp

lemma zero_typed: "has_type (zero_value l t) t" "have_types (zero_fields l fs) fs"
  by (induction t and fs rule: gotype.induct fields.induct) (auto simp: fits_def)

lemma put_typed: "has_type v t \<Longrightarrow> (\<And>x. has_type (f x) t) \<Longrightarrow> has_type (fst (put v f r)) t"
  by (auto simp: put_def split: res.splits)

lemma convert_typed: "convert l t e = Some x \<Longrightarrow> has_type x t"
  by (induction l t e rule: convert.induct) auto

lemma prim_elems_typed:
  "prim_elems l n t es buf = Ret xs \<Longrightarrow> \<forall>x \<in> set buf. has_type x t \<Longrightarrow> \<forall>x \<in> set xs. has_type x t"
proof (induction es arbitrary: buf)
  case (Cons e es)
  obtain x where "convert l t e = Some x" "prim_elems l n t es (buf @ [x]) = Ret xs"
    using Cons.prems(1) by (cases e; cases "convert l t e") simp_all
  then show ?case using Cons.IH [of "buf @ [x]"] Cons.prems(2) convert_typed [of l t e x] by simp
qed simp

lemma parsePrimitiveArray_typed: "parsePrimitiveArray l n t v = Ret xs \<Longrightarrow> \<forall>x \<in> set xs. has_type x t"
  using prim_elems_typed [of l n t _ "[]" xs] convert_typed [of l t v]
  by (auto simp: parsePrimitiveArray_def split: dyn.splits option.splits)

lemma unknown_type_fst [simp]: "fst (unknown_type st fmt n v) = v"
  by (simp add: unknown_type_def)

text \<open>
  The proofs about the parser go by induction on the type that is parsed. One field of a struct, and
  the elements of an array of structs, are the steps they share.
\<close>

lemma parseStruct_cases:
  obtains (stops) r v' where "parseStruct l st d (AField n tag sb t fs) (v # vs) = (v' # vs, r)" "r \<noteq> Ret ()"
      "st \<and> v' = v \<and> \<not> is_panic r \<or> get l d n tag \<noteq> DNil \<and> parse_field l st n t (get l d n tag) v = (v', r)"
  | (skips) "\<not> st" "\<not> sb \<or> get l d n tag = DNil" "parseStruct l st d (AField n tag sb t fs) (v # vs) =
      (v # fst (parseStruct l st d fs vs), snd (parseStruct l st d fs vs))"
  | (sets) v' where "sb" "get l d n tag \<noteq> DNil" "parse_field l st n t (get l d n tag) v = (v', Ret ())"
      "parseStruct l st d (AField n tag sb t fs) (v # vs) =
        (v' # fst (parseStruct l st d fs vs), snd (parseStruct l st d fs vs))"
proof -
  obtain v' r where f: "parse_field l st n t (get l d n tag) v = (v', r)" by (metis surj_pair)
  obtain vs' r' where rest: "parseStruct l st d fs vs = (vs', r')" by (metis surj_pair)
  show thesis using f rest that
    by (cases "sb"; cases "get l d n tag = DNil"; cases st; cases r) (auto simp: Let_def)
qed

lemma parse_elems_ind:
  assumes "\<And>d vs. parse_one d = (vs, Ret ()) \<Longrightarrow> P (GStruct vs)"
  shows "parse_elems parse_one es buf = Ret xs \<Longrightarrow> \<forall>x \<in> set buf. P x \<Longrightarrow> \<forall>x \<in> set xs. P x"
proof (induction es arbitrary: buf)
  case (Cons e es)
  obtain d where e: "e = DMap d" using Cons.prems(1) by (cases e) auto
  obtain vs r where r: "parse_one d = (vs, r)" by (metis surj_pair)
  then have "r = Ret ()" using Cons.prems(1) e by (cases r) auto
  then show ?case using Cons.IH [of "buf @ [GStruct vs]"] Cons.prems e r assms [of d vs] by simp
qed simp

lemma parseStructs_ind:
  assumes "\<And>d vs. parse_one d = (vs, Ret ()) \<Longrightarrow> P (GStruct vs)" and "parseStructs parse_one n cv = Ret xs"
  shows "\<forall>x \<in> set xs. P x"
proof (cases cv)
  case (DArr es)
  then show ?thesis using parse_elems_ind [of parse_one P es "[]" xs] assms by simp
next
  case (DMap d)
  obtain vs r where r: "parse_one d = (vs, r)" by (metis surj_pair)
  then show ?thesis using assms(2) assms(1) [of d vs] DMap by (cases r) auto
qed (use assms(2) in auto)

lemma parse_typed:
  fixes v :: "'f gval" and vs :: "'f gval list" and cv :: "'f dyn"
  shows "(has_type v t \<longrightarrow> has_type (fst (parse_field l st n t cv v)) t) \<and>
      (\<forall>xs. parse_slice l st n t cv = Ret (Some xs) \<longrightarrow> (\<forall>x \<in> set xs. has_type x t))"
    and "have_types vs fs \<longrightarrow> have_types (fst (parseStruct l st d fs vs)) fs"
proof (induction t and fs arbitrary: n cv v and d vs rule: gotype.induct fields.induct)
  case (TStruct fs)
  have "has_type (GStruct ws) (TStruct fs)" if "parseStruct l st d fs (zero_fields l fs) = (ws, Ret ())" for d and ws :: "'f gval list"
    using TStruct [of "zero_fields l fs" d] zero_typed(2) [of l fs] that by simp
  then have "\<forall>x \<in> set xs. has_type x (TStruct fs)" if "parseStructs (\<lambda>sv. parseStruct l st sv fs (zero_fields l fs)) n cv = Ret xs" for xs :: "'f gval list"
    using parseStructs_ind [OF _ that, of "\<lambda>x. has_type x (TStruct fs)"] by blast
  moreover have "has_type (fst (parse_field l st n (TStruct fs) cv v)) (TStruct fs)" if "has_type v (TStruct fs)"
    using TStruct that by (cases cv; cases v) (auto simp: case_prod_beta)
  ultimately show ?case by (auto simp: bind_res_Ret_iff)
next
  case (TSlice t)
  then show ?case by (auto split: res.splits option.splits)
next
  case (TArray t)
  then show ?case by (auto split: res.splits option.splits)
next
  case (AField m tag sb t fs)
  show ?case
  proof (cases vs)
    case (Cons w ws)
    note IH = AField.IH(1) [of w m "get l d m tag"] AField.IH(2) [of ws d]
    show ?thesis unfolding Cons
      by (rule parseStruct_cases [of l st d m tag sb t fs w ws]) (use IH in auto)
  qed simp
qed (auto simp: put_typed bind_res_Ret_iff dest: parsePrimitiveArray_typed split: dyn.splits)

section \<open>Panics\<close>

text \<open>The parser panics only on an array field or on a nil element of a list; the configuration structs have
  no array fields and parsed files have no nil.\<close>

fun plain :: "gotype \<Rightarrow> bool" and plain_fields :: "fields \<Rightarrow> bool" where
  "plain (TArray t) = False"
| "plain (TSlice t) = plain t"
| "plain (TStruct fs) = plain_fields fs"
| "plain t = True"
| "plain_fields NoField = True"
| "plain_fields (AField n tag sb t fs) \<longleftrightarrow> plain t \<and> plain_fields fs"

primrec nil_free :: "'f dyn \<Rightarrow> bool" where
  "nil_free DNil = False"
| "nil_free (DBool b) = True"
| "nil_free (DInt k i) = True"
| "nil_free (DFloat x) = True"
| "nil_free (DString s) = True"
| "nil_free (DArr es) = list_all id (map nil_free es)"
| "nil_free (DMap d) = list_all snd (map (map_prod id nil_free) d)"
| "nil_free (DOther s) = True"

lemma nil_free_simps [simp]:
  "nil_free (DArr es) \<longleftrightarrow> (\<forall>e \<in> set es. nil_free e)"
  "nil_free (DMap d) \<longleftrightarrow> (\<forall>(k, v) \<in> set d. nil_free v)"
  by (auto simp: list_all_iff split: prod.splits)

declare nil_free.simps(6,7) [simp del]

lemma find_lower_in: "find_lower key d = v \<Longrightarrow> v \<noteq> DNil \<Longrightarrow> \<exists>k. (k, v) \<in> set d \<and> ToLower k = key"
  by (induction key d rule: find_lower.induct) (auto split: if_splits)

lemma get_in:
  assumes "map_order (l_order l)" "get l d n tag \<noteq> DNil"
  shows "\<exists>k. (k, get l d n tag) \<in> set d"
  using assms find_lower_in [of "ToLower n" "l_order l d"] map_order.set_order [OF assms(1)]
  by (auto simp: get_def dest: map_of_SomeD split: option.splits if_splits)

lemma prim_elems_panic: "\<forall>e \<in> set es. nil_free e \<Longrightarrow> prim_elems l n t es buf \<noteq> Panic p"
proof (induction es arbitrary: buf)
  case (Cons e es)
  then show ?case by (cases e; cases "convert l t e") auto
qed simp

lemma parsePrimitiveArray_panic: "nil_free v \<Longrightarrow> parsePrimitiveArray l n t v \<noteq> Panic p"
  using prim_elems_panic [of _ l n t "[]" p] by (cases v; cases "convert l t v") (auto simp: parsePrimitiveArray_def)

lemma parse_elems_panic:
  assumes "\<And>d p. \<forall>(k, v) \<in> set d. nil_free v \<Longrightarrow> snd (parse_one d) \<noteq> Panic p"
  shows "\<forall>e \<in> set es. nil_free e \<Longrightarrow> parse_elems parse_one es buf \<noteq> Panic p"
proof (induction es arbitrary: buf)
  case (Cons e es)
  show ?case
  proof (cases e)
    case (DMap d)
    obtain vs r where r: "parse_one d = (vs, r)" by (metis surj_pair)
    then show ?thesis using Cons DMap assms [of d] by (cases r) auto
  qed (use Cons in auto)
qed simp

lemma parseStructs_panic:
  assumes "\<And>d p. \<forall>(k, v) \<in> set d. nil_free v \<Longrightarrow> snd (parse_one d) \<noteq> Panic p" and "nil_free cv"
  shows "parseStructs parse_one n cv \<noteq> Panic p"
proof (cases cv)
  case (DMap d)
  obtain vs r where r: "parse_one d = (vs, r)" by (metis surj_pair)
  then show ?thesis using DMap assms(2) assms(1) [of d] by (cases r) auto
qed (use assms parse_elems_panic [of parse_one] in auto)

lemma put_panic [simp]: "snd (put v f r) = Panic p \<longleftrightarrow> r = Panic p"
  by (cases r) (auto simp: put_def)

lemma prim_no_panic [simp]: "parseBoolean n cv \<noteq> Panic p" "parseInt n cv \<noteq> Panic p" "parseFloat l n cv \<noteq> Panic p"
  "parseString n cv \<noteq> Panic p" "snd (unknown_type st fmt n v) \<noteq> Panic p"
  by (cases cv; auto simp: unknown_type_def split: option.splits)+

lemma parse_no_panic:
  fixes v :: "'f gval" and vs :: "'f gval list" and cv :: "'f dyn"
  assumes ord: "map_order (l_order l)"
  shows "plain t \<longrightarrow> nil_free cv \<longrightarrow> snd (parse_field l st n t cv v) \<noteq> Panic p \<and> parse_slice l st n t cv \<noteq> Panic p"
    and "plain_fields fs \<longrightarrow> (\<forall>(k, v) \<in> set d. nil_free v) \<longrightarrow> snd (parseStruct l st d fs vs) \<noteq> Panic p"
proof (induction t and fs arbitrary: n cv v p and d vs p rule: gotype.induct fields.induct)
  case (TStruct fs)
  have "parseStructs (\<lambda>sv. parseStruct l st sv fs (zero_fields l fs)) n cv \<noteq> Panic q" if "plain (TStruct fs)" "nil_free cv" for q
    using TStruct that by (intro parseStructs_panic) auto
  moreover have "snd (parse_field l st n (TStruct fs) cv v) \<noteq> Panic p" if "plain (TStruct fs)" "nil_free cv"
    using TStruct that by (cases cv; cases v) (auto simp: case_prod_beta)
  ultimately show ?case by (simp add: bind_res_Panic_iff)
next
  case (TSlice t)
  then show ?case by (auto simp: bind_res_Panic_iff split: res.splits option.splits)
next
  case (AField m tag sb t fs)
  show ?case
  proof (cases vs)
    case (Cons w ws)
    have g: "nil_free (get l d m tag)" if "\<forall>(k, v) \<in> set d. nil_free v" "get l d m tag \<noteq> DNil"
      using get_in [OF ord that(2)] that(1) by auto
    note IH = AField.IH(1) [of "get l d m tag" m w p] AField.IH(2) [of d ws p]
    show ?thesis unfolding Cons
      by (rule parseStruct_cases [of l st d m tag sb t fs w ws]) (use IH g in \<open>auto simp: go_simps\<close>)
  qed simp
qed (auto simp: bind_res_Panic_iff dest: parsePrimitiveArray_panic split: dyn.splits)

section \<open>Strict and lenient parsing\<close>

lemma parse_elems_lenient:
  assumes "\<And>d vs. parse_one d = (vs, Ret ()) \<Longrightarrow> parse_two d = (vs, Ret ())"
  shows "parse_elems parse_one es buf = Ret xs \<Longrightarrow> parse_elems parse_two es buf = Ret xs"
proof (induction es arbitrary: buf)
  case (Cons e es)
  obtain d where e: "e = DMap d" using Cons.prems by (cases e) auto
  obtain vs r where r: "parse_one d = (vs, r)" by (metis surj_pair)
  then have "r = Ret ()" using Cons.prems e by (cases r) auto
  then show ?case using Cons e r assms [of d vs] by simp
qed simp

lemma parseStructs_lenient:
  assumes "\<And>d vs. parse_one d = (vs, Ret ()) \<Longrightarrow> parse_two d = (vs, Ret ())" and "parseStructs parse_one n cv = Ret xs"
  shows "parseStructs parse_two n cv = Ret xs"
proof (cases cv)
  case (DMap d)
  obtain vs r where r: "parse_one d = (vs, r)" by (metis surj_pair)
  then show ?thesis using DMap assms(2) assms(1) [of d vs] by (cases r) auto
next
  case (DArr es)
  then show ?thesis using parse_elems_lenient [of parse_one parse_two es "[]" xs] assms by simp
qed (use assms(2) in auto)

lemma parse_lenient:
  fixes v :: "'f gval" and vs :: "'f gval list" and cv :: "'f dyn"
  shows "(\<forall>v'. parse_field l True n t cv v = (v', Ret ()) \<longrightarrow> parse_field l False n t cv v = (v', Ret ())) \<and>
      (\<forall>xs. parse_slice l True n t cv = Ret xs \<longrightarrow> parse_slice l False n t cv = Ret xs)"
    and "\<forall>vs'. parseStruct l True d fs vs = (vs', Ret ()) \<longrightarrow> parseStruct l False d fs vs = (vs', Ret ())"
proof (induction t and fs arbitrary: n cv v and d vs rule: gotype.induct fields.induct)
  case (TStruct fs)
  have "parseStructs (\<lambda>sv. parseStruct l False sv fs (zero_fields l fs)) n cv = Ret xs"
    if "parseStructs (\<lambda>sv. parseStruct l True sv fs (zero_fields l fs)) n cv = Ret xs" for xs
    by (rule parseStructs_lenient [OF _ that]) (use TStruct in blast)
  moreover have "parse_field l False n (TStruct fs) cv v = (v', Ret ())" if "parse_field l True n (TStruct fs) cv v = (v', Ret ())" for v'
    using TStruct that by (cases cv; cases v) (auto split: prod.splits)
  ultimately show ?case by (auto simp: bind_res_Ret_iff)
next
  case (TSlice t)
  then show ?case by (auto simp: unknown_type_def split: res.splits option.splits)
next
  case (TArray t)
  then show ?case by (auto simp: unknown_type_def split: res.splits option.splits)
next
  case (AField m tag sb t fs)
  show ?case
  proof (cases vs)
    case (Cons w ws)
    note IH = AField.IH(1) [of m "get l d m tag" w] AField.IH(2) [of d ws]
    show ?thesis unfolding Cons
    proof (rule parseStruct_cases [of l True d m tag sb t fs w ws])
      fix v' assume *: "sb" "get l d m tag \<noteq> DNil" "parse_field l True m t (get l d m tag) w = (v', Ret ())"
        "parseStruct l True d (AField m tag sb t fs) (w # ws) =
          (v' # fst (parseStruct l True d fs ws), snd (parseStruct l True d fs ws))"
      show "\<forall>vs'. parseStruct l True d (AField m tag sb t fs) (w # ws) = (vs', Ret ()) \<longrightarrow>
          parseStruct l False d (AField m tag sb t fs) (w # ws) = (vs', Ret ())"
        using * IH by (cases "parseStruct l True d fs ws") (auto simp: Let_def)
    qed simp_all
  qed simp
qed (auto simp: unknown_type_def)

section \<open>Lookup\<close>

lemma find_lower_unique:
  assumes "inj_on ToLower (fst ` set d)" "(k, v) \<in> set d" "distinct (map fst d)" "ToLower k = key"
  shows "find_lower key d = v"
  using assms
proof (induction d)
  case (Cons e d)
  obtain k' v' where e: "e = (k', v')" by force
  show ?case
  proof (cases "(k, v) = e")
    case False
    then have kv: "(k, v) \<in> set d" "k \<noteq> k'" using Cons.prems(2,3) e by (auto simp: rev_image_eqI)
    then have "ToLower k' \<noteq> key" using Cons.prems(1,4) e by (auto simp: inj_on_def)
    then show ?thesis using Cons kv e by (auto simp: inj_on_def)
  qed (use Cons.prems(4) e in auto)
qed simp

lemma ToLower_idem [simp]: "ToLower (ToLower s) = ToLower s"
proof -
  have "to_lower_char (to_lower_char c) = to_lower_char c" for c
    by (auto simp: to_lower_char_def Let_def)
  then show ?thesis by (simp add: ToLower_def)
qed

section \<open>Properties\<close>

text \<open>C17. Loading the configuration file is type safe. Whatever the file contains and whether or not parsing
  succeeds, the configuration struct stays well typed, integers within the width of their field
  included, and the reflection code does not panic, provided the parsed file has no nil values.\<close>

theorem config_load_typed:
  assumes "map_order (l_order l)" and "\<And>s m. Parse s = Inr m \<Longrightarrow> \<forall>(k, v) \<in> set m. nil_free v"
    and "have_types vs NATSKafkaBridgeConfig_fields"
    and "LoadConfigFromFile l Parse ReadFile configFile NATSKafkaBridgeConfig_fields vs strict = (vs', r)"
  shows "have_types vs' NATSKafkaBridgeConfig_fields \<and> \<not> is_panic r"
proof -
  have pl: "plain_fields NATSKafkaBridgeConfig_fields" by (simp add: config_fields_defs)
  have "have_types (fst (parseStruct l strict m NATSKafkaBridgeConfig_fields vs)) NATSKafkaBridgeConfig_fields" for m
    using parse_typed(2) assms(3) by blast
  moreover have "snd (parseStruct l strict m NATSKafkaBridgeConfig_fields vs) \<noteq> Panic p" if "Parse s = Inr m" for s m p
    using parse_no_panic(2) [OF assms(1)] assms(2) [OF that] pl by blast
  ultimately show ?thesis using assms(3,4)
    by (cases "ReadFile configFile"; cases "Parse (projr (ReadFile configFile))")
      (auto simp: LoadConfigFromFile_def LoadConfigFromString_def go_simps, metis fst_conv, metis snd_conv)
qed

definition int_libs :: "int libs" where
  "int_libs = \<lparr>l_ParseFloat = Atoi, l_float32 = (\<lambda>x. x), l_of_int = (\<lambda>x. x), l_to_int = (\<lambda>x. x), l_zero = 0, l_order = (\<lambda>d. d)\<rparr>"

definition demo_file :: "(string \<times> int dyn) list" where
  "demo_file = [(''reconnectinterval'', DString ''3000''),
     (''nats'', DMap [(''Servers'', DArr [DString ''nats://localhost:4222'']), (''connecttimeout'', DInt KInt64 5000)]),
     (''connect'', DArr [DMap [(''type'', DString ''NATSToKafka''), (''Topic'', DString ''t'')]])]"

theorem config_load_typed_witness:
  "\<exists>vs' r. LoadConfigFromFile int_libs (\<lambda>_. Inr demo_file) (\<lambda>_. Inr []) ''c.conf'' NATSKafkaBridgeConfig_fields
      (zero_fields int_libs NATSKafkaBridgeConfig_fields) False = (vs', r) \<and>
    have_types vs' NATSKafkaBridgeConfig_fields \<and> \<not> is_panic r"
proof -
  obtain vs' r where run: "LoadConfigFromFile int_libs (\<lambda>_. Inr demo_file) (\<lambda>_. Inr []) ''c.conf'' NATSKafkaBridgeConfig_fields
      (zero_fields int_libs NATSKafkaBridgeConfig_fields) False = (vs', r)" by (metis surj_pair)
  have ord: "map_order (l_order int_libs)" by (unfold_locales) (simp add: int_libs_def)
  have "\<forall>(k, v) \<in> set m. nil_free v" if "(Inr demo_file :: goerr + (string \<times> int dyn) list) = Inr m" for m
    using that by (auto simp: demo_file_def)
  from config_load_typed [OF ord this zero_typed(2) run] run show ?thesis by blast
qed

text \<open>C31. Strict parsing only rejects more. A file that strict parsing accepts is accepted by lenient parsing with
  the same result.\<close>

theorem strict_refines_lenient:
  assumes "LoadConfigFromMap l m fs vs True = (vs', Ret ())"
  shows "LoadConfigFromMap l m fs vs False = (vs', Ret ())"
  using parse_lenient(2) assms unfolding LoadConfigFromMap_def by blast

theorem strict_refines_lenient_witness:
  "LoadConfigFromMap int_libs [(''enable'', DBool True), (''region'', DString ''r'')] IAM_fields [GBool False, GString []] False =
    ([GBool True, GString ''r''], Ret ())"
  by (rule strict_refines_lenient) code_simp

text \<open>Keys match up to case. For a field without a tag, if no two keys of the map are equal up to case, the
  lookup finds the value whose key is the field's name up to case, whatever the iteration order.\<close>

theorem lookup_ignores_case:
  assumes "map_order (l_order l)" and "map_wf d" and "inj_on ToLower (keys d)"
    and "(k, v) \<in> set d" and "ToLower k = ToLower n" and "n \<noteq> []"
  shows "get l d n [] = v"
proof -
  have other: "k' = k" if "k' \<in> keys d" "ToLower k' = ToLower n" for k'
    using assms(3,4,5) that by (force simp: inj_on_def keys_def)
  have at: "map_of d k = Some v" using assms(2,4) by (simp add: map_of_in)
  have "find_lower (ToLower n) (l_order l d) = v"
    using find_lower_unique [of "l_order l d" k v] assms map_order.set_order [OF assms(1), of d]
      map_order.distinct_order [OF assms(1,2)] by (simp add: keys_def)
  moreover have "map_of d n = None \<or> map_of d n = Some v" "map_of d (ToLower n) = None \<or> map_of d (ToLower n) = Some v"
    using other [of n] other [of "ToLower n"] at map_of_keys [of d n] map_of_keys [of d "ToLower n"] by auto
  ultimately show ?thesis using assms(6) by (auto simp: get_def)
qed

theorem lookup_ignores_case_witness:
  "get int_libs [(''GroupId'', DString ''g''), (''topic'', DString ''t'')] ''GroupID'' [] = DString ''g''"
proof (rule lookup_ignores_case)
  show "map_order (l_order int_libs)" by unfold_locales (simp add: int_libs_def)
  show "ToLower ''GroupId'' = ToLower ''GroupID''" by code_simp
  show "inj_on ToLower (keys [(''GroupId'', DString ''g''), (''topic'', DString ''t'')])"
    by (simp add: keys_def ToLower_def)
qed (simp_all add: map_wf_def)

text \<open>An integer may be quoted: a decimal string gives an integer field the same value as the number itself.\<close>

theorem quoted_integers:
  assumes "fits KInt64 i"
  shows "parse_field l strict n (TInt k) (DString (Itoa i)) v = parse_field l strict n (TInt k) (DInt KInt64 i) v"
  using assms Atoi_Itoa [of i] by (simp add: fits_def)

theorem quoted_integers_witness:
  "parse_field int_libs False ''HTTPPort'' (TInt KInt) (DString (Itoa 8080)) (GInt 0) =
   parse_field int_libs False ''HTTPPort'' (TInt KInt) (DInt KInt64 8080) (GInt 0)"
  by (rule quoted_integers) (simp add: fits_def)

text \<open>A number in a list of strings is silently read as a character: every integer is accepted, and turned
  into the UTF-8 encoding of the code point, or of the replacement character, and never into its
  decimal digits.\<close>

theorem number_read_as_character:
  assumes "0 \<le> i" and "i < 128"
  shows "parse_field l strict n (TSlice TString) (DArr [DInt KInt64 i]) v = (GSlice [GString [char_of (nat i)]], Ret ()) \<and>
    (10 \<le> i \<longrightarrow> [char_of (nat i)] \<noteq> Itoa i)"
proof (intro conjI impI)
  show "parse_field l strict n (TSlice TString) (DArr [DInt KInt64 i]) v = (GSlice [GString [char_of (nat i)]], Ret ())"
    using assms by (simp add: parsePrimitiveArray_def rune_string_def utf8_def)
  assume "10 \<le> i"
  then have "Itoa i = utoa (nat i div 10) @ [digit (nat i mod 10)]"
    using assms by (simp add: Itoa_def utoa.simps [of "nat i"])
  then show "[char_of (nat i)] \<noteq> Itoa i" using utoa_nonempty [of "nat i div 10", symmetric] by simp
qed

theorem number_read_as_character_witness:
  "parse_field int_libs False ''Brokers'' (TSlice TString) (DArr [DInt KInt64 65]) (GSlice []) = (GSlice [GString ''A''], Ret ())"
proof -
  have "char_of (nat 65) = CHR ''A''" by code_simp
  then show ?thesis using number_read_as_character [of 65 int_libs False "''Brokers''" "GSlice []"] by (simp del: parse_field.simps)
qed

end
