(* ===== verification/Program.thy ===== *)
theory Program
  imports Healing ConfigParse
begin

text \<open>
  The program around the bridge: how its configuration is loaded (\<^verbatim>\<open>InitializeFromFlags\<close> and
  \<^verbatim>\<open>ApplyConfigFile\<close> of \<^verbatim>\<open>server/core/server.go\<close>, the flags of \<^verbatim>\<open>server/core/flags.go\<close>)
  and how \<^verbatim>\<open>main.go\<close> starts it, restarts it on a hang-up signal and stops it on an interrupt.

  The reflective parser sees the configuration struct as a list of field values in the order of the
  struct; \<open>write_\<dots>\<close> gives that view of each struct and \<open>read_\<dots>\<close> reads it back.
\<close>

section \<open>The configuration struct as the parser sees it\<close>

fun str :: "'f gval \<Rightarrow> string" where "str (GString s) = s" | "str v = []"
fun num :: "'f gval \<Rightarrow> int" where "num (GInt i) = i" | "num v = 0"
fun bln :: "'f gval \<Rightarrow> bool" where "bln (GBool b) = b" | "bln v = False"
fun elems :: "'f gval \<Rightarrow> 'f gval list" where "elems (GSlice vs) = vs" | "elems (GStruct vs) = vs" | "elems v = []"

definition write_TLSConf :: "TLSConf \<Rightarrow> 'f gval" where
  "write_TLSConf c = GStruct [GString (tls_Key c), GString (tls_Cert c), GString (tls_Root c)]"

definition read_TLSConf :: "'f gval \<Rightarrow> TLSConf" where
  "read_TLSConf v = (let vs = elems v in \<lparr>tls_Key = str (vs ! 0), tls_Cert = str (vs ! 1), tls_Root = str (vs ! 2)\<rparr>)"

definition write_SASL :: "SASL \<Rightarrow> 'f gval" where
  "write_SASL c = GStruct [GString (sasl_User c), GString (sasl_Password c), GBool (sasl_InsecureSkipVerify c),
     GString (sasl_Mechanism c), GBool (sasl_TLS c)]"

definition read_SASL :: "'f gval \<Rightarrow> SASL" where
  "read_SASL v = (let vs = elems v in \<lparr>sasl_User = str (vs ! 0), sasl_Password = str (vs ! 1),
     sasl_InsecureSkipVerify = bln (vs ! 2), sasl_Mechanism = str (vs ! 3), sasl_TLS = bln (vs ! 4)\<rparr>)"

definition write_IAM :: "IAM \<Rightarrow> 'f gval" where
  "write_IAM c = GStruct [GBool (iam_Enable c), GString (iam_Region c)]"

definition read_IAM :: "'f gval \<Rightarrow> IAM" where
  "read_IAM v = (let vs = elems v in \<lparr>iam_Enable = bln (vs ! 0), iam_Region = str (vs ! 1)\<rparr>)"

definition write_Logging :: "LoggingConfig \<Rightarrow> 'f gval" where
  "write_Logging c = GStruct [GBool (log_Time c), GBool (log_Debug c), GBool (log_Trace c), GBool (log_Colors c), GBool (log_PID c)]"

definition read_Logging :: "'f gval \<Rightarrow> LoggingConfig" where
  "read_Logging v = (let vs = elems v in \<lparr>log_Time = bln (vs ! 0), log_Debug = bln (vs ! 1), log_Trace = bln (vs ! 2),
     log_Colors = bln (vs ! 3), log_PID = bln (vs ! 4)\<rparr>)"

definition write_HTTP :: "HTTPConfig \<Rightarrow> 'f gval" where
  "write_HTTP c = GStruct [GString (http_HTTPHost c), GInt (http_HTTPPort c), GInt (http_HTTPSPort c),
     write_TLSConf (http_TLS c), GInt (http_ReadTimeout c), GInt (http_WriteTimeout c)]"

definition read_HTTP :: "'f gval \<Rightarrow> HTTPConfig" where
  "read_HTTP v = (let vs = elems v in \<lparr>http_HTTPHost = str (vs ! 0), http_HTTPPort = num (vs ! 1), http_HTTPSPort = num (vs ! 2),
     http_TLS = read_TLSConf (vs ! 3), http_ReadTimeout = num (vs ! 4), http_WriteTimeout = num (vs ! 5)\<rparr>)"

definition write_NATS :: "NATSConfig \<Rightarrow> 'f gval" where
  "write_NATS c = GStruct [GString (nats_Name c), GSlice (map GString (nats_Servers c)), GString (nats_ClientName c),
     GInt (nats_ConnectTimeout c), GInt (nats_ReconnectWait c), GInt (nats_MaxReconnects c), write_TLSConf (nats_TLS c),
     GString (nats_UserCredentials c), GString (nats_UserNKEY c)]"

definition read_NATS :: "'f gval \<Rightarrow> NATSConfig" where
  "read_NATS v = (let vs = elems v in \<lparr>nats_Name = str (vs ! 0), nats_Servers = map str (elems (vs ! 1)),
     nats_ClientName = str (vs ! 2), nats_ConnectTimeout = num (vs ! 3), nats_ReconnectWait = num (vs ! 4),
     nats_MaxReconnects = num (vs ! 5), nats_TLS = read_TLSConf (vs ! 6), nats_UserCredentials = str (vs ! 7),
     nats_UserNKEY = str (vs ! 8)\<rparr>)"

definition write_STAN :: "NATSStreamingConfig \<Rightarrow> 'f gval" where
  "write_STAN c = GStruct [GString (stan_ClusterID c), GString (stan_ClientID c), GInt (stan_PubAckWait c),
     GString (stan_DiscoverPrefix c), GInt (stan_MaxPubAcksInflight c), GInt (stan_ConnectWait c)]"

definition read_STAN :: "'f gval \<Rightarrow> NATSStreamingConfig" where
  "read_STAN v = (let vs = elems v in \<lparr>stan_ClusterID = str (vs ! 0), stan_ClientID = str (vs ! 1), stan_PubAckWait = num (vs ! 2),
     stan_DiscoverPrefix = str (vs ! 3), stan_MaxPubAcksInflight = num (vs ! 4), stan_ConnectWait = num (vs ! 5)\<rparr>)"

definition write_JetStream :: "JetStreamConfig \<Rightarrow> 'f gval" where
  "write_JetStream c = GStruct [GInt (js_PublishAsyncMaxPending c), GInt (js_MaxWait c), GBool (js_EnableFlowControl c),
     GBool (js_EnableAckSync c), GInt (js_HeartbeatInterval c)]"

definition read_JetStream :: "'f gval \<Rightarrow> JetStreamConfig" where
  "read_JetStream v = (let vs = elems v in \<lparr>js_PublishAsyncMaxPending = num (vs ! 0), js_MaxWait = num (vs ! 1),
     js_EnableFlowControl = bln (vs ! 2), js_EnableAckSync = bln (vs ! 3), js_HeartbeatInterval = num (vs ! 4)\<rparr>)"

definition write_Connector :: "ConnectorConfig \<Rightarrow> 'f gval" where
  "write_Connector c = GStruct [GString (cc_ID c), GString (cc_Type c), GString (cc_NATSConnection c), GString (cc_Channel c),
     GString (cc_DurableName c), GInt (cc_StartAtSequence c), GInt (cc_StartAtTime c), GString (cc_Subject c),
     GString (cc_QueueName c), GString (cc_Stream c), GSlice (map GString (cc_Brokers c)), GString (cc_Topic c),
     write_TLSConf (cc_TLS c), write_SASL (cc_SASL c), write_IAM (cc_IAM c), GInt (cc_MinBytes c), GInt (cc_MaxBytes c),
     GInt (cc_Partition c), GString (cc_GroupID c), GString (cc_Balancer c), GString (cc_KeyType c), GString (cc_KeyValue c),
     GString (cc_SchemaRegistryURL c), GString (cc_SubjectName c), GInt (cc_SchemaVersion c), GString (cc_SchemaType c)]"

definition read_Connector :: "'f gval \<Rightarrow> ConnectorConfig" where
  "read_Connector v = (let vs = elems v in \<lparr>cc_ID = str (vs ! 0), cc_Type = str (vs ! 1), cc_NATSConnection = str (vs ! 2),
     cc_Channel = str (vs ! 3), cc_DurableName = str (vs ! 4), cc_StartAtSequence = num (vs ! 5), cc_StartAtTime = num (vs ! 6),
     cc_Subject = str (vs ! 7), cc_QueueName = str (vs ! 8), cc_Stream = str (vs ! 9), cc_Brokers = map str (elems (vs ! 10)),
     cc_Topic = str (vs ! 11), cc_TLS = read_TLSConf (vs ! 12), cc_SASL = read_SASL (vs ! 13), cc_IAM = read_IAM (vs ! 14),
     cc_MinBytes = num (vs ! 15), cc_MaxBytes = num (vs ! 16), cc_Partition = num (vs ! 17), cc_GroupID = str (vs ! 18),
     cc_Balancer = str (vs ! 19), cc_KeyType = str (vs ! 20), cc_KeyValue = str (vs ! 21), cc_SchemaRegistryURL = str (vs ! 22),
     cc_SubjectName = str (vs ! 23), cc_SchemaVersion = num (vs ! 24), cc_SchemaType = str (vs ! 25)\<rparr>)"

definition write_config :: "NATSKafkaBridgeConfig \<Rightarrow> 'f gval list" where
  "write_config c = [GInt (b_ReconnectInterval c), GInt (b_ConnectTimeout c), write_Logging (b_Logging c), write_NATS (b_NATS c),
     GSlice (map write_NATS (b_NATSClusters c)), write_STAN (b_STAN c), write_JetStream (b_JetStream c),
     write_HTTP (b_Monitoring c), GSlice (map write_Connector (b_Connect c))]"

definition read_config :: "'f gval list \<Rightarrow> NATSKafkaBridgeConfig" where
  "read_config vs = \<lparr>b_ReconnectInterval = num (vs ! 0), b_ConnectTimeout = num (vs ! 1), b_Logging = read_Logging (vs ! 2),
     b_NATS = read_NATS (vs ! 3), b_NATSClusters = map read_NATS (elems (vs ! 4)), b_STAN = read_STAN (vs ! 5),
     b_JetStream = read_JetStream (vs ! 6), b_Monitoring = read_HTTP (vs ! 7), b_Connect = map read_Connector (elems (vs ! 8))\<rparr>"

section \<open>Flags and configuration file\<close>

record Flags =
  ConfigFile :: string
  Debug :: bool
  Verbose :: bool
  DebugAndVerbose :: bool

text \<open>What loading needs of the outside: the file system, the environment variable and the file parser.\<close>

record 'f files =
  f_libs :: "'f libs"
  f_Parse :: "string \<Rightarrow> goerr + (string \<times> 'f dyn) list"
  f_ReadFile :: "string \<Rightarrow> goerr + string"
  f_Getenv :: "string \<Rightarrow> string"

definition ApplyConfigFile :: "'f files \<Rightarrow> string \<Rightarrow> bridge \<Rightarrow> bridge \<times> unit res" where
  "ApplyConfigFile f configFile s =
     (let configFile = (if configFile = [] then f_Getenv f ''NATS_KAFKA_BRIDGE_CONFIG'' else configFile) in
      if configFile = [] then (s, Fail (Errorf ''no config file specified'' []))
      else case LoadConfigFromFile (f_libs f) (f_Parse f) (f_ReadFile f) configFile NATSKafkaBridgeConfig_fields
                  (write_config (s_config s)) False of
        (vs, r) \<Rightarrow> (s\<lparr>s_config := read_config vs\<rparr>, r))"

definition InitializeFromFlags :: "'f files \<Rightarrow> Flags \<Rightarrow> bridge \<Rightarrow> bridge \<times> unit res" where
  "InitializeFromFlags f flags s =
     then_do (ApplyConfigFile f (ConfigFile flags) (s\<lparr>s_config := DefaultBridgeConfig\<rparr>)) (\<lambda>s.
       let lg = b_Logging (s_config s);
           lg = (if Debug flags \<or> DebugAndVerbose flags then lg\<lparr>log_Debug := True\<rparr> else lg);
           lg = (if Verbose flags \<or> DebugAndVerbose flags then lg\<lparr>log_Trace := True\<rparr> else lg)
       in (s\<lparr>s_config := (s_config s)\<lparr>b_Logging := lg\<rparr>\<rparr>, Ret ()))"

definition InitializeFromConfig :: "NATSKafkaBridgeConfig \<Rightarrow> bridge \<Rightarrow> bridge \<times> unit res" where
  "InitializeFromConfig config s = (s\<lparr>s_config := config\<rparr>, Ret ())"

section \<open>The main program\<close>

text \<open>
  The process: the bridges it has made, the variable \<^verbatim>\<open>server\<close> of \<^verbatim>\<open>main\<close> (nil until it is
  assigned), and whether it still runs. Each bridge keeps its own history. The hang-up handler
  declares a new variable \<^verbatim>\<open>server\<close> in its block, so the one of \<^verbatim>\<open>main\<close> keeps its value.
\<close>

datatype status = Alive | Exited | Crashed

datatype signal = Interrupt | SIGHUP

record process =
  p_bridges :: "bridge list"
  p_server :: "nat option"
  p_status :: status

definition logErrorFatal :: "('n, 'j, 'm) surroundings \<Rightarrow> bridge \<Rightarrow> bridge \<times> status" where
  "logErrorFatal y s = (case Stop y s of (s, Panic p) \<Rightarrow> (s, Crashed) | (s, _) \<Rightarrow> (s, Exited))"

definition launch :: "'f files \<Rightarrow> ('n, 'j, 'm) surroundings \<Rightarrow> Flags \<Rightarrow> int \<Rightarrow> bridge \<times> status" where
  "launch f y flags now =
     (case InitializeFromFlags f flags NewNATSKafkaBridge of
        (s, Panic p) \<Rightarrow> (s, Crashed)
      | (s, Fail e) \<Rightarrow> logErrorFatal y s
      | (s, Ret _) \<Rightarrow>
         (case bridge_Start y now s of
            (s, Panic p) \<Rightarrow> (s, Crashed)
          | (s, Fail e) \<Rightarrow> logErrorFatal y s
          | (s, Ret _) \<Rightarrow> (s, Alive)))"

definition main :: "'f files \<Rightarrow> ('n, 'j, 'm) surroundings \<Rightarrow> Flags \<Rightarrow> int \<Rightarrow> process" where
  "main f y flags now =
     (case launch f y flags now of (s, st) \<Rightarrow> \<lparr>p_bridges = [s], p_server = Some 0, p_status = st\<rparr>)"

definition handle_signal :: "'f files \<Rightarrow> ('n, 'j, 'm) surroundings \<Rightarrow> Flags \<Rightarrow> int \<Rightarrow> signal \<Rightarrow> process \<Rightarrow> process" where
  "handle_signal f y flags now sig p =
     (if p_status p \<noteq> Alive then p
      else case p_server p of
        None \<Rightarrow> p\<lparr>p_status := Crashed\<rparr>
      | Some i \<Rightarrow>
         (case Stop y (p_bridges p ! i) of
            (s, Panic q) \<Rightarrow> p\<lparr>p_bridges := (p_bridges p)[i := s], p_status := Crashed\<rparr>
          | (s, _) \<Rightarrow>
             (let p = p\<lparr>p_bridges := (p_bridges p)[i := s]\<rparr> in
              case sig of
                Interrupt \<Rightarrow> p\<lparr>p_status := Exited\<rparr>
              | SIGHUP \<Rightarrow>
                 (case launch f y flags now of
                    (s, st) \<Rightarrow> p\<lparr>p_bridges := p_bridges p @ [s], p_status := st\<rparr>))))"

section \<open>Lemmas\<close>

lemmas struct_views = write_TLSConf_def read_TLSConf_def write_SASL_def read_SASL_def write_IAM_def read_IAM_def
  write_Logging_def read_Logging_def write_STAN_def read_STAN_def write_JetStream_def read_JetStream_def

lemma read_write_parts [simp]:
  "read_TLSConf (write_TLSConf t) = t" "read_SASL (write_SASL a) = a" "read_IAM (write_IAM i) = i"
  "read_Logging (write_Logging lg) = lg" "read_STAN (write_STAN sc) = sc" "read_JetStream (write_JetStream j) = j"
  by (simp_all add: struct_views eval_nat_numeral)

lemma str_GString [simp]: "map (str \<circ> GString) xs = xs" "str \<circ> GString = id"
  by (simp_all add: comp_def id_def)

lemma read_write_structs [simp]:
  "read_HTTP (write_HTTP h) = h" "read_NATS (write_NATS n) = n" "read_Connector (write_Connector c) = c"
  by (simp_all add: read_HTTP_def write_HTTP_def read_NATS_def write_NATS_def read_Connector_def write_Connector_def
      eval_nat_numeral)

lemma read_write_config [simp]: "read_config (write_config c) = c"
  by (simp add: read_config_def write_config_def eval_nat_numeral comp_def)

lemma launch_alive: "launch f y flags now = (s, Alive) \<Longrightarrow> s_running s"
  using bridge_Start_running
  by (auto simp: launch_def logErrorFatal_def split: prod.splits res.splits)

lemma shutdown_all_no_fail: "shutdown_all y is s \<noteq> (s', Fail e)"
proof (induction "is" arbitrary: s)
  case (Cons i "is")
  obtain m p where m: "ref_Shutdown y (Full i) s = (m, p)" by (metis surj_pair)
  then show ?case using Cons by (cases p) (auto simp del: ref_Shutdown.simps)
qed simp

lemma Stop_running: "Stop y s = (s', r) \<Longrightarrow> \<not> is_panic r \<Longrightarrow> \<not> s_running s'"
proof (cases "s_running s")
  case True
  assume *: "Stop y s = (s', r)" "\<not> is_panic r"
  obtain m q where m: "shutdown_all y [0..<slots (stop_timers s)] (stop_clear (stop_timers s)) = (m, q)" by (metis surj_pair)
  have "r = Ret ()"
  proof (cases q)
    case (Ret u)
    then have "stop_close y m = (s', r)" using * True m by (simp add: Stop_def stop_rest_def then_do_def)
    then show ?thesis using stop_close_sel by blast
  qed (use * True m shutdown_all_no_fail [of y] in \<open>auto simp: Stop_def stop_rest_def then_do_def\<close>)
  then have "steady (stop_timers s) s'" using * True stop_rest_spec [of y "stop_timers s" s'] by (simp add: Stop_def)
  then show ?thesis by (simp add: steady_def stop_timers_def stopReconnectTimer_def Let_def split: option.splits)
qed (simp add: Stop_def)

section \<open>Properties\<close>

text \<open>The file and the flags. When the configuration loads, debug and trace logging are on if the file or a
  flag says so and everything else is what the file and the defaults give; the bridge's configuration
  is otherwise exactly the struct the parser filled, starting from the defaults.\<close>

theorem flags_only_add_logging:
  assumes "InitializeFromFlags f flags s = (s', Ret ())" and "ConfigFile flags \<noteq> []"
  shows "\<exists>vs. LoadConfigFromFile (f_libs f) (f_Parse f) (f_ReadFile f) (ConfigFile flags) NATSKafkaBridgeConfig_fields
        (write_config DefaultBridgeConfig) False = (vs, Ret ()) \<and>
      s_config s' = (read_config vs)\<lparr>b_Logging := (b_Logging (read_config vs))\<lparr>
        log_Debug := log_Debug (b_Logging (read_config vs)) \<or> Debug flags \<or> DebugAndVerbose flags,
        log_Trace := log_Trace (b_Logging (read_config vs)) \<or> Verbose flags \<or> DebugAndVerbose flags\<rparr>\<rparr>"
  using assms by (auto simp: InitializeFromFlags_def ApplyConfigFile_def then_do_Ret Let_def split: prod.splits if_splits)

definition no_disk :: "int files" where
  "no_disk = \<lparr>f_libs = int_libs, f_Parse = (\<lambda>_. Inr []), f_ReadFile = (\<lambda>_. Inr []), f_Getenv = (\<lambda>_. [])\<rparr>"

definition demo_flags :: Flags where
  "demo_flags = \<lparr>ConfigFile = ''c.conf'', Debug = True, Verbose = False, DebugAndVerbose = False\<rparr>"

lemma fields_induct [case_names NoField AField]:
  assumes "P NoField" and "\<And>n tag sb t fs. P fs \<Longrightarrow> P (AField n tag sb t fs)"
  shows "P fs"
  by (rule fields.induct [of "\<lambda>_. True" P]) (use assms in auto)

lemma empty_file: "parseStruct int_libs False [] fs vs = (vs, Ret ())"
proof -
  have g: "get int_libs [] n tag = DNil" for n tag by (simp add: get_def int_libs_def)
  show ?thesis
  proof (induction fs arbitrary: vs rule: fields_induct)
    case (AField n tag sb t fs)
    then show ?case using g by (cases vs) (auto simp: Let_def)
  qed simp
qed

lemma demo_init:
  "\<exists>s'. InitializeFromFlags no_disk demo_flags NewNATSKafkaBridge = (s', Ret ()) \<and> b_Connect (s_config s') = []"
  by (simp add: InitializeFromFlags_def ApplyConfigFile_def no_disk_def demo_flags_def LoadConfigFromFile_def
      LoadConfigFromString_def empty_file then_do_def Let_def DefaultBridgeConfig_def)

theorem flags_only_add_logging_witness:
  "\<exists>s' vs. InitializeFromFlags no_disk demo_flags NewNATSKafkaBridge = (s', Ret ()) \<and>
    s_config s' = (read_config (vs :: int gval list))\<lparr>b_Logging := (b_Logging (read_config vs))\<lparr>log_Debug := True,
      log_Trace := log_Trace (b_Logging (read_config vs))\<rparr>\<rparr>"
proof -
  obtain s' where s': "InitializeFromFlags no_disk demo_flags NewNATSKafkaBridge = (s', Ret ())" using demo_init by blast
  have "ConfigFile demo_flags \<noteq> []" by (simp add: demo_flags_def)
  from flags_only_add_logging [OF s' this] show ?thesis using s' by (auto simp: demo_flags_def)
qed

text \<open>C35. A reload leaks a bridge. After a hang-up signal whose restart succeeds, the variable of \<^verbatim>\<open>main\<close> still
  names the old, stopped bridge; the new one runs, and no later signal ever touches it: an interrupt
  ends the process without stopping it, and another hang-up starts a further bridge beside it.\<close>

theorem reload_leaks_bridge:
  assumes "p_server p = Some i" and "i < length (p_bridges p)" and "p_status p = Alive"
    and "handle_signal f y flags now SIGHUP p = p1" and "p_status p1 = Alive"
  shows "p_server p1 = Some i \<and> \<not> s_running (p_bridges p1 ! i) \<and> length (p_bridges p1) = Suc (length (p_bridges p)) \<and>
    s_running (p_bridges p1 ! length (p_bridges p)) \<and>
    (\<forall>now' sig. p_bridges (handle_signal f y flags now' sig p1) ! length (p_bridges p) = p_bridges p1 ! length (p_bridges p))"
proof -
  obtain s r where st: "Stop y (p_bridges p ! i) = (s, r)" by (metis surj_pair)
  obtain n q where l: "launch f y flags now = (n, q)" by (metis surj_pair)
  have np: "\<not> is_panic r" and p1: "p1 = p\<lparr>p_bridges := (p_bridges p)[i := s] @ [n], p_status := q\<rparr>"
    using assms st l by (cases r; auto simp: handle_signal_def)+
  have n: "s_running n" using launch_alive l assms(5) p1 by simp
  have s: "\<not> s_running s" by (rule Stop_running [OF st np])
  have "p_bridges (handle_signal f y flags now' sig p1) ! length (p_bridges p) = n" for now' sig
  proof -
    obtain s2 r2 where st2: "Stop y s = (s2, r2)" by (metis surj_pair)
    obtain n2 q2 where l2: "launch f y flags now' = (n2, q2)" by (metis surj_pair)
    show ?thesis using assms(1,2,5) p1 st2 l2
      by (cases sig; cases r2) (auto simp: handle_signal_def nth_append nth_list_update list_update_append)
  qed
  then show ?thesis using assms(1,2) p1 n s by (simp add: nth_append)
qed

definition demo_process :: process where
  "demo_process = \<lparr>p_bridges = [NewNATSKafkaBridge], p_server = Some 0, p_status = Alive\<rparr>"

lemma demo_reload: "p_status (handle_signal no_disk half_world demo_flags 5 SIGHUP demo_process) = Alive"
  by (simp add: handle_signal_def demo_process_def Stop_def NewNATSKafkaBridge_def launch_def
     InitializeFromFlags_def ApplyConfigFile_def no_disk_def demo_flags_def LoadConfigFromFile_def
     LoadConfigFromString_def empty_file then_do_def Let_def DefaultBridgeConfig_def
     half_world_def zero_config_defs bridge_Start_def start_connect_def start_monitor_def start_init_def ValidateNATSClusters_def
     no_conns_def connectToNATS_def build_cells_def dialCell_def dial_options_def client_name_def new_cell_def update_cell_def
     connectToSTAN_def connectToJetStream_def cellHasJetStream_def initializeConnectors_def startConnectors_def
     startMonitoring_def with_conns_def)

theorem reload_leaks_bridge_witness:
  "s_running (p_bridges (handle_signal no_disk half_world demo_flags 9 Interrupt
      (handle_signal no_disk half_world demo_flags 5 SIGHUP demo_process)) ! 1)"
proof -
  have p: "p_server demo_process = Some 0" "0 < length (p_bridges demo_process)" "p_status demo_process = Alive"
    "length (p_bridges demo_process) = 1"
    by (simp_all add: demo_process_def)
  from reload_leaks_bridge [OF p(1,2,3) refl demo_reload] show ?thesis unfolding p(4) by metis
qed

end
