(* ===== verification/Performance.thy ===== *)
theory Performance
  imports Program "HOL-Library.Signed_Division"
begin

text \<open>
  The load generators under \<^verbatim>\<open>performance/\<close>: \<^verbatim>\<open>kafka_rw\<close> writes to and reads from Kafka at the
  same time, \<^verbatim>\<open>kafka_ro\<close> writes everything first, and \<^verbatim>\<open>full_testenv\<close> runs a bridge and sends
  messages through it. Each is modelled as its flag declarations, the setup done by \<^verbatim>\<open>main\<close>, and
  the goroutines or callbacks it starts. The wait groups only make \<^verbatim>\<open>main\<close> wait until every reader
  has called \<^verbatim>\<open>done.Done()\<close>; a reader's calls are counted. A failed \<^verbatim>\<open>log.Fatalf\<close> ends the
  process (\<open>FatalExit\<close>); progress messages are left out, but not the remainder that guards them.
\<close>

section \<open>Definitions\<close>

text \<open>Go's integer division and remainder: truncated, and a panic when the divisor is zero.\<close>

definition go_div :: "int \<Rightarrow> int \<Rightarrow> int res" where
  "go_div a b = (if b = 0 then Panic DivideByZero else Ret (a sdiv b))"

definition go_mod :: "int \<Rightarrow> int \<Rightarrow> int res" where
  "go_mod a b = (if b = 0 then Panic DivideByZero else Ret (a smod b))"

text \<open>Declaring the flags: the package panics when a name is declared twice.\<close>

fun define_flags :: "string list \<Rightarrow> string list \<Rightarrow> unit res" where
  "define_flags seen [] = Ret ()"
| "define_flags seen (n # ns) = (if n \<in> set seen then Panic FlagRedefined else define_flags (n # seen) ns)"

record perf =
  pf_iterations :: int
  pf_topics :: int
  pf_kafkaHostPort :: string
  pf_connectTimeout :: int

record full_flags = perf +
  pf_chunk :: int
  pf_natsURL :: string
  pf_maxReconnects :: int

definition perf_payload :: bytes where
  "perf_payload = concat (replicate 128 (str_bytes ''stannats''))"

definition perf_message :: "string \<Rightarrow> bytes \<Rightarrow> Message" where
  "perf_message topic msg = \<lparr>m_Topic = [], m_Partition = 0, m_Offset = 0, m_Key = str_bytes topic, m_Value = msg, m_Headers = []\<rparr>"

definition perf_interval :: "int \<Rightarrow> int" where
  "perf_interval iterations = iterations sdiv 10"

definition broker_config :: "string \<Rightarrow> ConnectorConfig" where
  "broker_config host = zero_ConnectorConfig\<lparr>cc_Brokers := [host]\<rparr>"

definition timeout_config :: "int \<Rightarrow> NATSKafkaBridgeConfig" where
  "timeout_config t = \<lparr>b_ReconnectInterval = 0, b_ConnectTimeout = t,
     b_Logging = \<lparr>log_Time = False, log_Debug = False, log_Trace = False, log_Colors = False, log_PID = False\<rparr>,
     b_NATS = zero_NATSConfig, b_NATSClusters = [], b_STAN = zero_STAN, b_JetStream = zero_JetStream,
     b_Monitoring = zero_HTTPConfig, b_Connect = []\<rparr>"

definition reader_config :: "string \<Rightarrow> string \<Rightarrow> ConnectorConfig" where
  "reader_config host topic = (broker_config host)\<lparr>cc_Topic := topic, cc_GroupID := topic @ ''.grp'',
     cc_MinBytes := 100, cc_MaxBytes := 10000000\<rparr>"

text \<open>Writing the same message \<open>n\<close> times; an error ends the process.\<close>

fun write_n ::
  "env \<Rightarrow> ('n, 'j, 'm) codecs \<Rightarrow> saramaProducer \<Rightarrow> Message \<Rightarrow> nat \<Rightarrow> pb_cache \<times> history \<Rightarrow> (pb_cache \<times> history) \<times> unit res" where
  "write_n env cd p m 0 s = (s, Ret ())"
| "write_n env cd p m (Suc n) s =
     (case Write env cd (SaramaProducer p) m s of
        (s, Ret _) \<Rightarrow> write_n env cd p m n s
      | (s, Fail e) \<Rightarrow> (s, Panic FatalExit)
      | (s, Panic x) \<Rightarrow> (s, Panic x))"

text \<open>The loop of \<^verbatim>\<open>kafka_rw\<close> over its message numbers, and the chunked loop of the other two.\<close>

fun send_each ::
  "env \<Rightarrow> ('n, 'j, 'm) codecs \<Rightarrow> saramaProducer \<Rightarrow> Message \<Rightarrow> int \<Rightarrow> nat list \<Rightarrow> pb_cache \<times> history \<Rightarrow>
   (pb_cache \<times> history) \<times> unit res" where
  "send_each env cd p m interval [] s = (s, Ret ())"
| "send_each env cd p m interval (i # is) s =
     (case write_n env cd p m 1 s of
        (s, Ret _) \<Rightarrow>
          (case go_mod (int i) interval of
             Panic x \<Rightarrow> (s, Panic x)
           | _ \<Rightarrow> send_each env cd p m interval is s)
      | (s, r) \<Rightarrow> (s, r))"

fun send_chunks ::
  "env \<Rightarrow> ('n, 'j, 'm) codecs \<Rightarrow> saramaProducer \<Rightarrow> Message \<Rightarrow> int \<Rightarrow> int \<Rightarrow> nat list \<Rightarrow> pb_cache \<times> history \<Rightarrow>
   (pb_cache \<times> history) \<times> unit res" where
  "send_chunks env cd p m chunk interval [] s = (s, Ret ())"
| "send_chunks env cd p m chunk interval (i # is) s =
     (case write_n env cd p m (nat chunk) s of
        (s, Ret _) \<Rightarrow>
          (case go_mod (int i * chunk) interval of
             Panic x \<Rightarrow> (s, Panic x)
           | _ \<Rightarrow> send_chunks env cd p m chunk interval is s)
      | (s, r) \<Rightarrow> (s, r))"

definition then_close ::
  "env \<Rightarrow> saramaProducer \<Rightarrow> (pb_cache \<times> history) \<times> unit res \<Rightarrow> (pb_cache \<times> history) \<times> unit res" where
  "then_close env p r =
     (case r of ((cache, w), Ret _) \<Rightarrow> ((cache, fst (sarama_Close env p w)), Ret ()) | r \<Rightarrow> r)"

definition new_writer ::
  "env \<Rightarrow> ('n, 'j, 'm) ext \<Rightarrow> ConnectorConfig \<Rightarrow> int \<Rightarrow> string \<Rightarrow> history \<Rightarrow> history \<times> saramaProducer res" where
  "new_writer env x cc timeout topic w =
     (case NewProducer env (x_cd x) (x_NewConfig x) (x_io x) cc (timeout_config timeout) topic w of
        (w, Fail e) \<Rightarrow> (w, Panic FatalExit)
      | r \<Rightarrow> r)"

definition rw_startWriter ::
  "env \<Rightarrow> ('n, 'j, 'm) ext \<Rightarrow> 'z perf_scheme \<Rightarrow> string \<Rightarrow> bytes \<Rightarrow> int \<Rightarrow> pb_cache \<times> history \<Rightarrow> (pb_cache \<times> history) \<times> unit res" where
  "rw_startWriter env x t topic msg interval s =
     (case new_writer env x ((broker_config (pf_kafkaHostPort t))\<lparr>cc_Topic := topic\<rparr>) (pf_connectTimeout t) topic (snd s) of
        (w, Ret p) \<Rightarrow> then_close env p (send_each env (x_cd x) p (perf_message topic msg) interval [0..<nat (pf_iterations t)] (fst s, w))
      | (w, Fail e) \<Rightarrow> ((fst s, w), Fail e)
      | (w, Panic q) \<Rightarrow> ((fst s, w), Panic q))"

definition ro_startWriter ::
  "env \<Rightarrow> ('n, 'j, 'm) ext \<Rightarrow> 'z perf_scheme \<Rightarrow> string \<Rightarrow> bytes \<Rightarrow> int \<Rightarrow> pb_cache \<times> history \<Rightarrow> (pb_cache \<times> history) \<times> unit res" where
  "ro_startWriter env x t topic msg interval s =
     (case new_writer env x (broker_config (pf_kafkaHostPort t)) (pf_connectTimeout t) topic (snd s) of
        (w, Ret p) \<Rightarrow>
          (let chunk = 10 in
           then_close env p (send_chunks env (x_cd x) p (perf_message topic msg) chunk interval
             [0..<nat (pf_iterations t sdiv chunk)] (fst s, w)))
      | (w, Fail e) \<Rightarrow> ((fst s, w), Fail e)
      | (w, Panic q) \<Rightarrow> ((fst s, w), Panic q))"

text \<open>
  The loop of a reader, over what arrives; when nothing more does, it waits in \<^verbatim>\<open>Fetch\<close>. The result
  has the number of messages counted and the number of times \<^verbatim>\<open>done.Done()\<close> was called.
\<close>

fun read_loop ::
  "env \<Rightarrow> ('n, 'j, 'm) codecs \<Rightarrow> saramaConsumer \<Rightarrow> nat \<Rightarrow> int \<Rightarrow> int \<Rightarrow> arrival list \<Rightarrow> int \<Rightarrow> nat \<Rightarrow> pb_cache \<times> history \<Rightarrow>
   (pb_cache \<times> history) \<times> (int \<times> nat) res" where
  "read_loop env cd c msgLen interval iterations [] cnt dones s = (s, Ret (cnt, dones))"
| "read_loop env cd c msgLen interval iterations (a # as) cnt dones s =
     (case Fetch cd c a (fst s) of
        (cache, Fail e) \<Rightarrow> ((cache, snd s), Panic FatalExit)
      | (cache, Panic q) \<Rightarrow> ((cache, snd s), Panic q)
      | (cache, Ret m) \<Rightarrow>
         (case Commit env c m (snd s) of
            (w, Some e) \<Rightarrow> ((cache, w), Panic FatalExit)
          | (w, None) \<Rightarrow>
             (if length (m_Value m) \<noteq> msgLen then ((cache, w), Panic FatalExit)
              else case go_mod (cnt + 1) interval of
                Panic q \<Rightarrow> ((cache, w), Panic q)
              | _ \<Rightarrow> read_loop env cd c msgLen interval iterations as (cnt + 1)
                       (if cnt + 1 = iterations then Suc dones else dones) (cache, w))))"

definition rw_startReader ::
  "env \<Rightarrow> ('n, 'j, 'm) ext \<Rightarrow> 'z perf_scheme \<Rightarrow> string \<Rightarrow> nat \<Rightarrow> int \<Rightarrow> arrival list \<Rightarrow> pb_cache \<times> history \<Rightarrow>
   (pb_cache \<times> history) \<times> (int \<times> nat) res" where
  "rw_startReader env x t topic msgLen interval as s =
     (case NewConsumer env (x_cd x) (x_NewConfig x) (x_io x) (reader_config (pf_kafkaHostPort t) topic) (milliseconds 5000) (snd s) of
        (w, Ret c) \<Rightarrow> read_loop env (x_cd x) c msgLen interval (pf_iterations t) as 0 0 (fst s, w)
      | (w, Fail e) \<Rightarrow> ((fst s, w), Panic FatalExit)
      | (w, Panic q) \<Rightarrow> ((fst s, w), Panic q))"

definition ro_startReader ::
  "env \<Rightarrow> ('n, 'j, 'm) ext \<Rightarrow> 'z perf_scheme \<Rightarrow> string \<Rightarrow> nat \<Rightarrow> int \<Rightarrow> arrival list \<Rightarrow> pb_cache \<times> history \<Rightarrow>
   (pb_cache \<times> history) \<times> (int \<times> nat) res" where
  "ro_startReader env x t topic msgLen interval as s =
     (case NewConsumer env (x_cd x) (x_NewConfig x) (x_io x) (reader_config (pf_kafkaHostPort t) topic) (milliseconds 5000) (snd s) of
        (w, Ret c) \<Rightarrow> read_loop env (x_cd x) c msgLen interval (pf_iterations t) as 0 0 (fst s, w)
      | (w, Fail e) \<Rightarrow> ((fst s, w), Panic FatalExit)
      | (w, Panic q) \<Rightarrow> ((fst s, w), Panic q))"

text \<open>Creating one topic, and the setup loop of the two Kafka tools over fresh topic names.\<close>

definition create_topic ::
  "env \<Rightarrow> ('n, 'j, 'm) ext \<Rightarrow> string \<Rightarrow> int \<Rightarrow> string \<Rightarrow> history \<Rightarrow> history \<times> goerr option res" where
  "create_topic env x host timeout topic w =
     (case NewManager env (x_NewConfig x) (x_io x) (broker_config host) (timeout_config timeout) w of
        (w, Ret ca) \<Rightarrow>
          (case CreateTopic env ca topic 1 1 w of
             (w, err) \<Rightarrow> (fst (manager_Close env ca w), Ret err))
      | (w, Fail e) \<Rightarrow> (w, Panic FatalExit)
      | (w, Panic q) \<Rightarrow> (w, Panic q))"

fun create_topics ::
  "env \<Rightarrow> ('n, 'j, 'm) ext \<Rightarrow> 'z perf_scheme \<Rightarrow> string list \<Rightarrow> history \<Rightarrow> history \<times> unit res" where
  "create_topics env x t [] w = (w, Ret ())"
| "create_topics env x t (topic # rest) w =
     (case create_topic env x (pf_kafkaHostPort t) (pf_connectTimeout t) topic w of
        (w, Ret None) \<Rightarrow> create_topics env x t rest w
      | (w, Ret (Some e)) \<Rightarrow> (w, Panic FatalExit)
      | (w, Fail e) \<Rightarrow> (w, Fail e)
      | (w, Panic q) \<Rightarrow> (w, Panic q))"

text \<open>\<^verbatim>\<open>main\<close> of the two Kafka tools up to the point where it waits: \<open>parse\<close> gives the flags' values,
  \<open>fresh\<close> the topic names. The result lists the topics that have a writer and a reader.\<close>

definition rw_main ::
  "env \<Rightarrow> ('n, 'j, 'm) ext \<Rightarrow> perf \<Rightarrow> (nat \<Rightarrow> string) \<Rightarrow> history \<Rightarrow> history \<times> string list res" where
  "rw_main env x t fresh w =
     (case define_flags [] [''t'', ''i'', ''t'', ''kafka''] of
        Panic q \<Rightarrow> (w, Panic q)
      | Fail e \<Rightarrow> (w, Fail e)
      | Ret _ \<Rightarrow>
         (let names = map fresh [0..<nat (pf_topics t)] in
          case create_topics env x t names w of
            (w, Ret _) \<Rightarrow> (w, Ret names)
          | (w, Fail e) \<Rightarrow> (w, Fail e)
          | (w, Panic q) \<Rightarrow> (w, Panic q)))"

definition ro_main ::
  "env \<Rightarrow> ('n, 'j, 'm) ext \<Rightarrow> perf \<Rightarrow> (nat \<Rightarrow> string) \<Rightarrow> history \<Rightarrow> history \<times> string list res" where
  "ro_main env x t fresh w =
     (case define_flags [] [''t'', ''i'', ''t'', ''kafka''] of
        Panic q \<Rightarrow> (w, Panic q)
      | Fail e \<Rightarrow> (w, Fail e)
      | Ret _ \<Rightarrow>
         (let names = map fresh [0..<nat (pf_topics t)] in
          case create_topics env x t names w of
            (w, Ret _) \<Rightarrow> (w, Ret names)
          | (w, Fail e) \<Rightarrow> (w, Fail e)
          | (w, Panic q) \<Rightarrow> (w, Panic q)))"

text \<open>
  \<^verbatim>\<open>full_testenv\<close>. Whether an error says that a topic exists already depends on the error types of
  the client library: \<open>topic_error\<close> is \<^verbatim>\<open>errors.As\<close> for its topic errors, \<open>exists\<close> the code it has.
\<close>

definition IsTopicExist :: "(goerr \<Rightarrow> 'k option) \<Rightarrow> 'k \<Rightarrow> goerr \<Rightarrow> bool" where
  "IsTopicExist topic_error exists err =
     (case topic_error err of None \<Rightarrow> False | Some code \<Rightarrow> code = exists)"

definition bridge_config :: "'z full_flags_scheme \<Rightarrow> ConnectorConfig list \<Rightarrow> NATSKafkaBridgeConfig" where
  "bridge_config t connections =
     (let config = DefaultBridgeConfig
      in config\<lparr>b_Logging := (b_Logging config)\<lparr>log_Debug := True, log_Trace := True, log_Colors := False\<rparr>,
           b_Monitoring := zero_HTTPConfig\<lparr>http_HTTPPort := -1\<rparr>,
           b_NATS := zero_NATSConfig\<lparr>nats_Servers := [pf_natsURL t], nats_ConnectTimeout := pf_connectTimeout t,
             nats_ReconnectWait := 2000, nats_MaxReconnects := pf_maxReconnects t\<rparr>,
           b_Connect := map (\<lambda>c. c\<lparr>cc_Brokers := [pf_kafkaHostPort t]\<rparr>) connections\<rparr>)"

definition startBridge ::
  "('n, 'j, 'm) surroundings \<Rightarrow> int \<Rightarrow> 'z full_flags_scheme \<Rightarrow> ConnectorConfig list \<Rightarrow> history \<Rightarrow> bridge \<times> unit res" where
  "startBridge y now t connections w =
     then_do (InitializeFromConfig (bridge_config t connections) (NewNATSKafkaBridge\<lparr>s_history := w\<rparr>)) (\<lambda>s.
       case bridge_Start y now s of
         (s, Fail e) \<Rightarrow> (case Stop y s of (s, Panic q) \<Rightarrow> (s, Panic q) | (s, _) \<Rightarrow> (s, Fail e))
       | r \<Rightarrow> r)"

text \<open>The callback of the subscription: the count, and whether it signals \<^verbatim>\<open>done\<close>.\<close>

definition full_received :: "nat \<Rightarrow> int \<Rightarrow> int \<Rightarrow> bytes \<Rightarrow> int \<Rightarrow> (int \<times> bool) res" where
  "full_received msgLen interval iterations data cnt =
     bind_res (go_mod (cnt + 1) interval) (\<lambda>_.
       if length data \<noteq> msgLen then Panic FatalExit else Ret (cnt + 1, cnt + 1 = iterations))"

text \<open>The sending part of \<^verbatim>\<open>main\<close>, up to the wait for \<^verbatim>\<open>done\<close>.\<close>

definition full_send ::
  "env \<Rightarrow> ('n, 'j, 'm) ext \<Rightarrow> 'z full_flags_scheme \<Rightarrow> string \<Rightarrow> pb_cache \<times> history \<Rightarrow> (pb_cache \<times> history) \<times> unit res" where
  "full_send env x t topic s =
     (case new_writer env x (broker_config (pf_kafkaHostPort t)) (pf_connectTimeout t) topic (snd s) of
        (w, Ret p) \<Rightarrow>
          (case go_div (pf_iterations t) (pf_chunk t) of
             Ret n \<Rightarrow> then_close env p (send_chunks env (x_cd x) p (perf_message topic perf_payload) (pf_chunk t)
                        (perf_interval (pf_iterations t)) [0..<nat n] (fst s, w))
           | Fail e \<Rightarrow> ((fst s, w), Fail e)
           | Panic q \<Rightarrow> ((fst s, w), Panic q))
      | (w, Fail e) \<Rightarrow> ((fst s, w), Fail e)
      | (w, Panic q) \<Rightarrow> ((fst s, w), Panic q))"

text \<open>The whole of \<^verbatim>\<open>main\<close> up to that wait: the topic, the bridge, the subscription, the messages.\<close>

definition full_main ::
  "('n, 'j, 'm) surroundings \<Rightarrow> (goerr \<Rightarrow> 'k option) \<Rightarrow> 'k \<Rightarrow> int \<Rightarrow> full_flags \<Rightarrow> string \<Rightarrow> string \<Rightarrow> history \<Rightarrow>
   (bridge \<times> pb_cache) \<times> nat res" where
  "full_main y topic_error exists now t subject topic w =
     (let env = y_env y; x = y_ext y; idle = (\<lambda>w. NewNATSKafkaBridge\<lparr>s_history := w\<rparr>);
          connect = [zero_ConnectorConfig\<lparr>cc_Type := KafkaToNATS, cc_Subject := subject, cc_Topic := topic\<rparr>]
      in case define_flags [] [''t'', ''r'', ''i'', ''c'', ''kafka'', ''nats''] of
           Panic q \<Rightarrow> ((idle w, []), Panic q)
         | Fail e \<Rightarrow> ((idle w, []), Fail e)
         | Ret _ \<Rightarrow>
            (case create_topic env x (pf_kafkaHostPort t) (pf_connectTimeout t) topic w of
               (w, Panic q) \<Rightarrow> ((idle w, []), Panic q)
             | (w, Fail e) \<Rightarrow> ((idle w, []), Fail e)
             | (w, Ret err) \<Rightarrow>
                (if err \<noteq> None \<and> \<not> IsTopicExist topic_error exists (the err) then ((idle w, []), Panic FatalExit)
                 else case startBridge y now t connect w of
                   (s, Panic q) \<Rightarrow> ((s, []), Panic q)
                 | (s, Fail e) \<Rightarrow> ((s, []), Panic FatalExit)
                 | (s, Ret _) \<Rightarrow>
                    (case call_handle env (NatsConnect (pf_natsURL t) []) (s_history s) of
                       (w, Inl e) \<Rightarrow> ((s\<lparr>s_history := w\<rparr>, []), Panic FatalExit)
                     | (w, Inr nc) \<Rightarrow>
                        (case full_send env x t topic ([], fst (call_handle env (NatsSubscribe nc subject []) w)) of
                           ((cache, w), r) \<Rightarrow> ((s\<lparr>s_history := w\<rparr>, cache), bind_res r (\<lambda>_. Ret nc)))))))"

text \<open>What \<^verbatim>\<open>main\<close> does when \<^verbatim>\<open>done\<close> was signalled: it takes the statistics, stops the bridge, and
  closes its own connection when it returns.\<close>

definition full_finish ::
  "('n, 'j, 'm) surroundings \<Rightarrow> int \<Rightarrow> nat \<Rightarrow> bridge \<Rightarrow> (bridge \<times> BridgeStats) \<times> unit res" where
  "full_finish y now nc s =
     (case SafeStats y now s of
        (s, st) \<Rightarrow>
          (case Stop y s of
             (s, r) \<Rightarrow> ((s\<lparr>s_history := fst (call_err (y_env y) (NatsClose nc) (s_history s))\<rparr>, st), r)))"

text \<open>The client hands the messages of the subscription to the callback one by one; the number of signals.\<close>

fun deliveries :: "nat \<Rightarrow> int \<Rightarrow> int \<Rightarrow> bytes list \<Rightarrow> int \<Rightarrow> nat \<Rightarrow> (int \<times> nat) res" where
  "deliveries msgLen interval iterations [] cnt dones = Ret (cnt, dones)"
| "deliveries msgLen interval iterations (d # ds) cnt dones =
     bind_res (full_received msgLen interval iterations d cnt) (\<lambda>(cnt, signal).
       deliveries msgLen interval iterations ds cnt (if signal then Suc dones else dones))"

section \<open>Lemmas\<close>

lemma new_writer_no_fail: "new_writer env x cc timeout topic w \<noteq> (w', Fail e)"
  by (auto simp: new_writer_def split: prod.splits res.splits)

lemma write_n_sends: "write_n env cd p m n s = (s', Ret ()) \<Longrightarrow> sends (snd s') = sends (snd s) + n"
proof (induction n arbitrary: s)
  case (Suc n)
  obtain c w where s: "s = (c, w)" by force
  obtain c1 w1 r where w: "Write env cd (SaramaProducer p) m (c, w) = ((c1, w1), r)" by (metis surj_pair)
  then have "r = Ret ()" "write_n env cd p m n (c1, w1) = (s', Ret ())"
    using Suc.prems s by (auto split: res.splits simp del: Write.simps)
  then show ?case using Suc.IH prod.write_sends [OF w] s by fastforce
qed simp

lemma write_n_no_fail: "write_n env cd p m n s \<noteq> (s', Fail e)"
  by (induction n arbitrary: s) (auto split: prod.splits res.splits simp del: Write.simps)

lemma send_chunks_sends:
  "send_chunks env cd p m chunk interval is s = (s', Ret ()) \<Longrightarrow> sends (snd s') = sends (snd s) + length is * nat chunk"
proof (induction "is" arbitrary: s)
  case (Cons i "is")
  obtain s1 r where w: "write_n env cd p m (nat chunk) s = (s1, r)" by (metis surj_pair)
  then have "r = Ret ()" "send_chunks env cd p m chunk interval is s1 = (s', Ret ())"
    using Cons.prems by (auto split: res.splits)
  then show ?case using Cons.IH write_n_sends [of env cd p m "nat chunk" s s1] w by fastforce
qed simp

lemma new_writer_sends: "new_writer env x cc timeout topic w = (w', r) \<Longrightarrow> sends w' = sends w"
  by (auto simp: new_writer_def NewProducer_def call_handle_def Let_def accepted_def
      split: prod.splits res.splits sum.splits)

lemma then_close_Ret:
  "then_close env p r = (s', Ret ()) \<Longrightarrow> \<exists>s. r = (s, Ret ()) \<and> sends (snd s') = sends (snd s)"
  by (auto simp: then_close_def sarama_Close_def call_err_def Let_def accepted_def split: prod.splits res.splits)

lemma full_send_parts:
  assumes "full_send env x t topic s = (s', Ret ())"
  obtains w p r where "send_chunks env (x_cd x) p (perf_message topic perf_payload) (pf_chunk t)
      (perf_interval (pf_iterations t)) [0..<nat (pf_iterations t sdiv pf_chunk t)] (fst s, w) = (r, Ret ())"
    "sends (snd s') = sends (snd r)" "sends w = sends (snd s)"
proof -
  obtain w p where w: "new_writer env x (broker_config (pf_kafkaHostPort t)) (pf_connectTimeout t) topic (snd s) = (w, Ret p)"
    using assms by (auto simp: full_send_def split: prod.splits res.splits)
  then have "then_close env p (send_chunks env (x_cd x) p (perf_message topic perf_payload) (pf_chunk t)
      (perf_interval (pf_iterations t)) [0..<nat (pf_iterations t sdiv pf_chunk t)] (fst s, w)) = (s', Ret ())"
    using assms by (auto simp: full_send_def go_div_def split: if_splits)
  from then_close_Ret [OF this] show thesis using that new_writer_sends [OF w] by blast
qed

lemma full_send_count:
  assumes "full_send env x t topic s = (s', Ret ())"
  shows "sends (snd s') = sends (snd s) + nat (pf_iterations t sdiv pf_chunk t) * nat (pf_chunk t)"
proof -
  obtain w p r where r: "send_chunks env (x_cd x) p (perf_message topic perf_payload) (pf_chunk t)
      (perf_interval (pf_iterations t)) [0..<nat (pf_iterations t sdiv pf_chunk t)] (fst s, w) = (r, Ret ())"
      "sends (snd s') = sends (snd r)" "sends w = sends (snd s)"
    using full_send_parts [OF assms] .
  then show ?thesis using send_chunks_sends [OF r(1)] by simp
qed

lemma full_send_sends:
  assumes "full_send env x t topic s = (s', Ret ())" "0 < pf_chunk t" "0 \<le> pf_iterations t"
  shows "sends (snd s') = sends (snd s) + nat (pf_iterations t div pf_chunk t) * nat (pf_chunk t)"
  using full_send_count [OF assms(1)] assms(2,3) by (cases "pf_iterations t = 0") (simp_all add: signed_divide_int_def)

text \<open>No message at all is sent otherwise, by a sender that comes to its end.\<close>

lemma full_send_small:
  assumes run: "full_send env x t topic s = (s', Ret ())" and small: "\<not> (10 \<le> pf_iterations t \<and> 0 < pf_chunk t)"
  shows "sends (snd s') = sends (snd s)"
proof -
  let ?i = "pf_iterations t" and ?c = "pf_chunk t"
  have "nat (?i sdiv ?c) = 0" if c: "0 < ?c" "?i < 10"
  proof (cases "0 < ?i")
    case True
    have zero: "perf_interval ?i = 0" using c True by (simp add: perf_interval_def signed_divide_int_def)
    obtain w p r where r: "send_chunks env (x_cd x) p (perf_message topic perf_payload) ?c 0 [0..<nat (?i sdiv ?c)] (fst s, w) = (r, Ret ())"
      using full_send_parts [OF run] unfolding zero by blast
    show ?thesis
    proof (rule ccontr)
      assume "nat (?i sdiv ?c) \<noteq> 0"
      then have "[0..<nat (?i sdiv ?c)] = 0 # [1..<nat (?i sdiv ?c)]" by (simp add: upt_conv_Cons)
      then show False using r by (auto simp: go_mod_def split: prod.splits res.splits)
    qed
  next
    case False
    have "?i sdiv ?c \<le> 0" using False c(1) by (cases "?i = 0") (simp_all add: signed_divide_int_def pos_imp_zdiv_nonneg_iff)
    then show ?thesis by simp
  qed
  then have "nat (?i sdiv ?c) * nat ?c = 0" using small by (cases "0 < ?c") simp_all
  then show ?thesis using full_send_count [OF run] by simp
qed

lemma deliveries_dones:
  assumes "interval \<noteq> 0"
  shows "\<forall>d \<in> set ds. length d = msgLen \<Longrightarrow> deliveries msgLen interval iterations ds cnt dones =
    Ret (cnt + int (length ds), dones + (if cnt < iterations \<and> iterations \<le> cnt + int (length ds) then 1 else 0))"
  by (induction ds arbitrary: cnt dones) (auto simp: full_received_def go_mod_def assms)

text \<open>The writer of \<^verbatim>\<open>kafka_rw\<close>, asked for one to nine messages: its progress interval is zero, and the
  remainder by it is taken after the first message, so it panics once that message is written.\<close>

lemma small_runs_panic:
  assumes "0 < pf_iterations t" "pf_iterations t < 10"
    and p: "new_writer env x ((broker_config (pf_kafkaHostPort t))\<lparr>cc_Topic := topic\<rparr>) (pf_connectTimeout t) topic (snd s) = (w, Ret p)"
    and wr: "write_n env (x_cd x) p (perf_message topic msg) 1 (fst s, w) = (v, Ret ())"
  shows "rw_startWriter env x t topic msg (perf_interval (pf_iterations t)) s = (v, Panic DivideByZero)"
proof -
  have zero: "perf_interval (pf_iterations t) = 0" using assms(1,2) by (simp add: perf_interval_def signed_divide_int_def)
  have ne: "[0..<nat (pf_iterations t)] = 0 # [1..<nat (pf_iterations t)]" using assms(1) by (simp add: upt_conv_Cons)
  show ?thesis unfolding rw_startWriter_def p zero ne using wr by (simp add: then_close_def go_mod_def del: write_n.simps)
qed

text \<open>Both Kafka tools declare \<^verbatim>\<open>-t\<close> twice, so the flag package panics before any request is made.\<close>

lemma kafka_tools_never_run:
  "rw_main env x t fresh w = (w, Panic FlagRedefined)" "ro_main env x t fresh w = (w, Panic FlagRedefined)"
  by (simp_all add: rw_main_def ro_main_def)

section \<open>Properties\<close>

text \<open>C39. When the full test ends. When the sender has sent everything, and every message is delivered once and
  unchanged, the subscriber signals the end exactly once if there are at least ten messages and the
  chunk size is positive and divides their number, and never otherwise, so that \<^verbatim>\<open>main\<close> waits forever:
  the sender sends whole chunks only. With one to nine messages and a chunk no larger the sender does
  not come so far: it divides by zero.\<close>

theorem full_test_ends_iff:
  assumes "full_send env x t topic s = (s', Ret ())"
    and "length ds = sends (snd s') - sends (snd s)" and "\<forall>d \<in> set ds. length d = length perf_payload"
  shows "\<exists>cnt dones. deliveries (length perf_payload) (perf_interval (pf_iterations t)) (pf_iterations t) ds 0 0 = Ret (cnt, dones) \<and>
    dones = (if 10 \<le> pf_iterations t \<and> 0 < pf_chunk t \<and> pf_chunk t dvd pf_iterations t then 1 else 0)"
proof (cases "10 \<le> pf_iterations t \<and> 0 < pf_chunk t")
  case True
  let ?i = "pf_iterations t" and ?c = "pf_chunk t"
  have "10 \<le> ?i" using True by simp
  then have "perf_interval ?i \<noteq> 0" by (simp add: perf_interval_def signed_divide_int_def)
  note run = deliveries_dones [OF this assms(3), of ?i 0 0]
  have "int (length ds) = ?i div ?c * ?c"
    using full_send_sends [OF assms(1)] assms(2) True by (simp add: pos_imp_zdiv_nonneg_iff)
  moreover have "?i \<le> ?i div ?c * ?c \<longleftrightarrow> ?c dvd ?i"
    unfolding dvd_eq_mod_eq_0 using True pos_mod_sign [of ?c ?i] div_mult_mod_eq [of ?i ?c] by linarith
  ultimately show ?thesis using run True by simp
next
  case False
  then have "ds = []" using full_send_small [OF assms(1)] assms(2) by auto
  then show ?thesis using False by auto
qed

definition demo_full :: full_flags where
  "demo_full = \<lparr>pf_iterations = 10, pf_topics = 0, pf_kafkaHostPort = ''k'', pf_connectTimeout = 5, pf_chunk = 3,
     pf_natsURL = ''n'', pf_maxReconnects = 0\<rparr>"

lemma calm_write_n: "\<not> sp_schemaRegistryOn p \<Longrightarrow> \<exists>s'. write_n calm_env cd p m n s = (s', Ret ())"
  by (induction n arbitrary: s) (auto simp: sarama_Write_def Let_def split: prod.splits)

lemma calm_send_chunks:
  assumes "\<not> sp_schemaRegistryOn p" "interval \<noteq> 0"
  shows "\<exists>s'. send_chunks calm_env cd p m chunk interval is s = (s', Ret ())"
proof (induction "is" arbitrary: s)
  case (Cons i "is")
  obtain s1 where "write_n calm_env cd p m (nat chunk) s = (s1, Ret ())" using calm_write_n [OF assms(1)] by blast
  then show ?case using Cons [of s1] assms(2) by (simp add: go_mod_def)
qed simp

theorem full_test_ends_iff_witness:
  "\<exists>s' cnt. full_send calm_env demo_ext demo_full ''t'' ([], []) = (s', Ret ()) \<and> sends (snd s') = 9 \<and>
    deliveries (length perf_payload) 1 10 (replicate 9 perf_payload) 0 0 = Ret (cnt, 0)"
proof -
  let ?cc = "broker_config (pf_kafkaHostPort demo_full)"
  obtain w p where p: "new_writer calm_env demo_ext ?cc (pf_connectTimeout demo_full) ''t'' [] = (w, Ret p)" "\<not> sp_schemaRegistryOn p"
    by (simp add: new_writer_def NewProducer_def producer_config_def demo_ext_def broker_config_def zero_config_defs producer_sasl_def
        producer_tls_def MakeTLSConfig_def timeout_config_def Let_def)
  have "perf_interval (pf_iterations demo_full) \<noteq> 0" by (simp add: perf_interval_def demo_full_def signed_divide_int_def)
  from calm_send_chunks [OF p(2) this, of "x_cd demo_ext" "perf_message ''t'' perf_payload" 3 "[0..<3]" "([], w)"]
  obtain s' where run: "full_send calm_env demo_ext demo_full ''t'' ([], []) = (s', Ret ())"
    using p(1) by (auto simp: full_send_def go_div_def then_close_def demo_full_def signed_divide_int_def split: prod.splits)
  have "sends (snd s') = 9" using full_send_sends [OF run] by (simp add: demo_full_def)
  with full_test_ends_iff [OF run, of "replicate 9 perf_payload"] run show ?thesis
    by (auto simp: demo_full_def perf_interval_def signed_divide_int_def)
qed

end
