(* ===== verification/MockRegistry.thy ===== *)
theory MockRegistry
  imports KafkaClient Strconv
begin

text \<open>
  The schema registry the tests of the package run against, \<^verbatim>\<open>server/kafka/mock_schema_registry.go\<close>:
  its request handler as a function from the requested URL to the response it writes. For an unknown
  URL the response is \<^verbatim>\<open>null\<close> (the JSON of a nil pointer), here \<open>None\<close>.
\<close>

section \<open>Definitions\<close>

definition text_lines :: "string list \<Rightarrow> string" where
  "text_lines ls = Join ls (CHR 0x0A)"

definition tabs :: "nat \<Rightarrow> string" where
  "tabs n = replicate n (CHR 0x09)"

definition avroSchema :: string where
  \<open>avroSchema = text_lines [''{'',
     tabs 2 @ ''"type": "record",'',
     tabs 2 @ ''"name": "snack",'',
     tabs 2 @ ''"fields": ['',
     tabs 3 @ ''{"name": "name", "type": "string"},'',
     tabs 3 @ ''{"name": "manufacturer", "type": "string"},'',
     tabs 3 @ ''{"name": "calories", "type": "float"},'',
     tabs 3 @ ''{"name": "color", "type": ["null", "string"], "default": null}'',
     tabs 2 @ '']'',
     tabs 1 @ ''}'']\<close>

definition jsonSchema :: string where
  \<open>jsonSchema = text_lines [''{'',
     tabs 2 @ ''"$schema": "https://json-schema.org/draft/2020-12/schema",'',
     tabs 2 @ ''"title": "Snack",'',
     tabs 2 @ ''"type": "object",'',
     tabs 2 @ ''"properties": {'',
     tabs 3 @ ''"name": {"type": "string"},'',
     tabs 3 @ ''"manufacturer": {"type": "string"},'',
     tabs 3 @ ''"calories": {"type": "number"},'',
     tabs 3 @ ''"color": {"type": "string"}'',
     tabs 2 @ ''},'',
     tabs 2 @ ''"required": ["name", "manufacturer", "calories"]'',
     tabs 1 @ ''}'']\<close>

definition protobufSchema :: string where
  \<open>protobufSchema = text_lines [''message Snack {'',
     tabs 2 @ ''required string name = 1;'',
     tabs 2 @ ''required string manufacturer = 2;'',
     tabs 2 @ ''required float calories = 3;'',
     tabs 2 @ ''optional string color = 4;'',
     tabs 1 @ ''}'']\<close>

definition avroSubjectName :: string where "avroSubjectName = ''snack_avro-value''"
definition jsonSubjectName :: string where "jsonSubjectName = ''snack_json-value''"
definition protobufSubjectName :: string where "protobufSubjectName = ''snack_protobuf-value''"

definition avroSchemaID :: int where "avroSchemaID = 1"
definition jsonSchemaID :: int where "jsonSchemaID = 2"
definition protobufSchemaID :: int where "protobufSchemaID = 3"

definition avroSchemaVersion :: int where "avroSchemaVersion = 1"
definition jsonSchemaVersion :: int where "jsonSchemaVersion = 1"
definition protobufSchemaVersion :: int where "protobufSchemaVersion = 1"

record schemaResponse =
  sr_Subject :: string
  sr_Version :: int
  sr_Schema :: string
  sr_SchemaType :: SchemaType
  sr_ID :: int

abbreviation latest_url :: "string \<Rightarrow> string" where
  "latest_url subject \<equiv> ''/subjects/'' @ subject @ ''/versions/latest''"

abbreviation version_url :: "string \<Rightarrow> int \<Rightarrow> string" where
  "version_url subject v \<equiv> ''/subjects/'' @ subject @ ''/versions/'' @ Itoa v"

abbreviation id_url :: "int \<Rightarrow> string" where
  "id_url i \<equiv> ''/schemas/ids/'' @ Itoa i"

definition schemaRequestHandler :: "string \<Rightarrow> schemaResponse option" where
  "schemaRequestHandler url =
     (if url = latest_url avroSubjectName \<or> url = version_url avroSubjectName avroSchemaVersion \<or> url = id_url avroSchemaID then
        Some \<lparr>sr_Subject = avroSubjectName, sr_Version = avroSchemaVersion, sr_Schema = avroSchema,
          sr_SchemaType = Avro, sr_ID = avroSchemaID\<rparr>
      else if url = latest_url jsonSubjectName \<or> url = version_url jsonSubjectName jsonSchemaVersion \<or> url = id_url jsonSchemaID then
        Some \<lparr>sr_Subject = jsonSubjectName, sr_Version = jsonSchemaVersion, sr_Schema = jsonSchema,
          sr_SchemaType = Json, sr_ID = jsonSchemaID\<rparr>
      else if url = latest_url protobufSubjectName \<or> url = version_url protobufSubjectName protobufSchemaVersion \<or>
          url = id_url protobufSchemaID then
        Some \<lparr>sr_Subject = protobufSubjectName, sr_Version = protobufSchemaVersion, sr_Schema = protobufSchema,
          sr_SchemaType = Protobuf, sr_ID = protobufSchemaID\<rparr>
      else None)"

section \<open>What the tests rely on\<close>

lemmas mock_constants = avroSubjectName_def jsonSubjectName_def protobufSubjectName_def avroSchemaID_def jsonSchemaID_def
  protobufSchemaID_def avroSchemaVersion_def jsonSchemaVersion_def protobufSchemaVersion_def

text \<open>The double is a registry: a schema looked up by subject, latest or by version, is the one its own identifier
  gives, which is what reading back a framed record needs.\<close>

theorem mock_is_a_registry:
  assumes "schemaRequestHandler url = Some r"
  shows "schemaRequestHandler (latest_url (sr_Subject r)) = Some r \<and>
    schemaRequestHandler (version_url (sr_Subject r) (sr_Version r)) = Some r \<and>
    schemaRequestHandler (id_url (sr_ID r)) = Some r \<and> 0 \<le> sr_ID r \<and> sr_ID r < 2 ^ 32"
proof -
  have "r = \<lparr>sr_Subject = avroSubjectName, sr_Version = avroSchemaVersion, sr_Schema = avroSchema, sr_SchemaType = Avro, sr_ID = avroSchemaID\<rparr> \<or>
    r = \<lparr>sr_Subject = jsonSubjectName, sr_Version = jsonSchemaVersion, sr_Schema = jsonSchema, sr_SchemaType = Json, sr_ID = jsonSchemaID\<rparr> \<or>
    r = \<lparr>sr_Subject = protobufSubjectName, sr_Version = protobufSchemaVersion, sr_Schema = protobufSchema, sr_SchemaType = Protobuf, sr_ID = protobufSchemaID\<rparr>"
    using assms by (auto simp: schemaRequestHandler_def split: if_splits)
  then show ?thesis
    by (elim disjE) (simp_all add: schemaRequestHandler_def mock_constants Itoa_def utoa.simps digit_def)
qed

end
