(* ===== verification/Logging.thy ===== *)
theory Logging
  imports Config
begin

text \<open>
  The logger of the bridge, \<^verbatim>\<open>server/logging/nats.go\<close>: a wrapper that forwards to the logger of
  nats-server, which is a parameter (the record \<open>std_logger\<close> of its constructor and methods on a state
  \<open>'l\<close>), and remembers whether tracing was configured. The connectors read that flag once, when they
  subscribe or start a listener, and use the remembered value from then on.
\<close>

section \<open>Definitions\<close>

record 'l std_logger =
  lib_NewStdLogger :: "bool \<Rightarrow> bool \<Rightarrow> bool \<Rightarrow> bool \<Rightarrow> bool \<Rightarrow> 'l"
  lib_Close :: "'l \<Rightarrow> 'l \<times> goerr option"
  lib_Debugf :: "string \<Rightarrow> goarg list \<Rightarrow> 'l \<Rightarrow> 'l"
  lib_Errorf :: "string \<Rightarrow> goarg list \<Rightarrow> 'l \<Rightarrow> 'l"
  lib_Fatalf :: "string \<Rightarrow> goarg list \<Rightarrow> 'l \<Rightarrow> 'l"
  lib_Noticef :: "string \<Rightarrow> goarg list \<Rightarrow> 'l \<Rightarrow> 'l"
  lib_Tracef :: "string \<Rightarrow> goarg list \<Rightarrow> 'l \<Rightarrow> 'l"
  lib_Warnf :: "string \<Rightarrow> goarg list \<Rightarrow> 'l \<Rightarrow> 'l"

record 'l NATSLogger =
  nl_logger :: 'l
  nl_traceEnabled :: bool

definition NewNATSLogger :: "'l std_logger \<Rightarrow> LoggingConfig \<Rightarrow> 'l NATSLogger" where
  "NewNATSLogger lib c = \<lparr>nl_logger = lib_NewStdLogger lib (log_Time c) (log_Debug c) (log_Trace c) (log_Colors c) (log_PID c),
     nl_traceEnabled = log_Trace c\<rparr>"

definition TraceEnabled :: "'l NATSLogger \<Rightarrow> bool" where
  "TraceEnabled l = nl_traceEnabled l"

definition logger_Close :: "'l std_logger \<Rightarrow> 'l NATSLogger \<Rightarrow> 'l NATSLogger \<times> goerr option" where
  "logger_Close lib l = (case lib_Close lib (nl_logger l) of (s, e) \<Rightarrow> (l\<lparr>nl_logger := s\<rparr>, e))"

definition logger_Debugf :: "'l std_logger \<Rightarrow> string \<Rightarrow> goarg list \<Rightarrow> 'l NATSLogger \<Rightarrow> 'l NATSLogger" where
  "logger_Debugf lib format v l = l\<lparr>nl_logger := lib_Debugf lib format v (nl_logger l)\<rparr>"

definition logger_Errorf :: "'l std_logger \<Rightarrow> string \<Rightarrow> goarg list \<Rightarrow> 'l NATSLogger \<Rightarrow> 'l NATSLogger" where
  "logger_Errorf lib format v l = l\<lparr>nl_logger := lib_Errorf lib format v (nl_logger l)\<rparr>"

definition logger_Fatalf :: "'l std_logger \<Rightarrow> string \<Rightarrow> goarg list \<Rightarrow> 'l NATSLogger \<Rightarrow> 'l NATSLogger" where
  "logger_Fatalf lib format v l = l\<lparr>nl_logger := lib_Fatalf lib format v (nl_logger l)\<rparr>"

definition logger_Noticef :: "'l std_logger \<Rightarrow> string \<Rightarrow> goarg list \<Rightarrow> 'l NATSLogger \<Rightarrow> 'l NATSLogger" where
  "logger_Noticef lib format v l = l\<lparr>nl_logger := lib_Noticef lib format v (nl_logger l)\<rparr>"

definition logger_Tracef :: "'l std_logger \<Rightarrow> string \<Rightarrow> goarg list \<Rightarrow> 'l NATSLogger \<Rightarrow> 'l NATSLogger" where
  "logger_Tracef lib format v l = l\<lparr>nl_logger := lib_Tracef lib format v (nl_logger l)\<rparr>"

definition logger_Warnf :: "'l std_logger \<Rightarrow> string \<Rightarrow> goarg list \<Rightarrow> 'l NATSLogger \<Rightarrow> 'l NATSLogger" where
  "logger_Warnf lib format v l = l\<lparr>nl_logger := lib_Warnf lib format v (nl_logger l)\<rparr>"

section \<open>The remembered trace flag\<close>

text \<open>The methods that log, as operations on the logger.\<close>

inductive logs :: "'l std_logger \<Rightarrow> 'l NATSLogger \<Rightarrow> 'l NATSLogger \<Rightarrow> bool" for lib where
  "logs lib l (logger_Debugf lib f v l)"
| "logs lib l (logger_Errorf lib f v l)"
| "logs lib l (logger_Fatalf lib f v l)"
| "logs lib l (logger_Noticef lib f v l)"
| "logs lib l (logger_Tracef lib f v l)"
| "logs lib l (logger_Warnf lib f v l)"
| "logs lib l (fst (logger_Close lib l))"

lemmas logger_defs = logger_Debugf_def logger_Errorf_def logger_Fatalf_def logger_Noticef_def logger_Tracef_def
  logger_Warnf_def logger_Close_def

interpretation trace: invariant_system "\<lambda>l. l = NewNATSLogger lib c" "logs lib" "\<lambda>l. TraceEnabled l = log_Trace c" for lib c
  by unfold_locales (auto simp: NewNATSLogger_def TraceEnabled_def logger_defs elim!: logs.cases split: prod.splits)

text \<open>Whatever is logged, the flag is the configured one, so a value read once stays right.\<close>

lemma trace_flag_stable: "(logs lib)\<^sup>*\<^sup>* (NewNATSLogger lib c) l \<Longrightarrow> TraceEnabled l = log_Trace c"
  using trace.inv_steps trace.inv_init by blast

end
