(* ===== verification/Spec2Isabelle.thy ===== *)
theory Spec2Isabelle
  imports ConsumerGroup StopLaws Relay Performance MockRegistry Logging
begin

text \<open>
  A verification development of the NATS-Kafka bridge.

  \<^bold>\<open>The program.\<close> The bridge moves messages between Kafka topics on one side and NATS subjects, NATS
  streaming channels and JetStream streams on the other. A configuration file names the NATS
  clusters and the connectors; each connector has one of six kinds, by its two ends. The bridge
  dials the clusters, makes and starts the connectors, serves statistics over HTTP, and restarts
  connectors whose connections were lost. A connector to Kafka subscribes and writes each message
  through a producer, acknowledging it afterwards where the source has acknowledgements; a connector
  from Kafka runs a listener that fetches records from a consumer, publishes them and commits.

  \<^bold>\<open>The world.\<close> The client libraries of Kafka, NATS, streaming and JetStream are outside the repository.
  What the bridge asks of them is a \<open>request\<close>, what they say an \<open>answer\<close>; an operation takes the
  history of requests and answers so far and returns it extended, and the environment that answers is
  an arbitrary function (theory \<open>World\<close>). So the theorems hold whatever the libraries answer, and can
  speak about the order of effects. Codecs, the schema registry, templates, regular expressions,
  digests, TLS files and the like are arguments, gathered in the records \<open>codecs\<close> and \<open>ext\<close>; what a
  theorem needs of them is a hypothesis or a locale (\<open>map_order\<close>). Errors keep the
  format string and arguments of their \<^verbatim>\<open>Errorf\<close> call; run-time panics are a third outcome beside
  returning and failing, so that a theorem that says a result is returned also says that nothing
  panics. Go's iteration order over a map is an argument wherever the code ranges over one.

  \<^bold>\<open>The theories,\<close> with the code under \<^verbatim>\<open>src/server\<close> that each models.

  \<^item> \<open>Prelude\<close>, \<open>Wire\<close>, \<open>Strconv\<close>: Go's vocabulary (errors, panics, strings, maps, bytes, variable-length
    integers, decimal numbers), reachability, and the locales under which invariants
    (\<open>invariant_system\<close>) and refinements (\<open>refines\<close>) are proved; \<^verbatim>\<open>kafka/packer_utils.go\<close>.
  \<^item> \<open>Config\<close>: \<^verbatim>\<open>conf/conf.go\<close>, the configuration structs, TLS keys and validation. Validation is
    proved equivalent to the documented wiring rules.
  \<^item> \<open>ConfigParse\<close>: \<^verbatim>\<open>conf/parse.go\<close>, \<^verbatim>\<open>load.go\<close>, \<^verbatim>\<open>utils.go\<close>, the parser that fills a struct by
    reflection, over datatypes of reflected types and values: type safety, lookup up to case, strict
    against lenient parsing.
  \<^item> \<open>Float64\<close>, \<open>Histogram\<close>, \<open>Stats\<close>: \<^verbatim>\<open>core/histogram.go\<close> and \<^verbatim>\<open>core/stats.go\<close> over IEEE double
    rounding of rationals: no panic, bounded bins, agreeing counters, and exact means in exact
    arithmetic.
  \<^item> \<open>Partitioner\<close>: \<^verbatim>\<open>kafka/partitioner.go\<close>, with counters as 64-bit words.
  \<^item> \<open>KafkaNet\<close>, \<open>Protobuf\<close>, \<open>KafkaClient\<close>: \<^verbatim>\<open>kafka/producer.go\<close>, \<^verbatim>\<open>consumer.go\<close>, \<^verbatim>\<open>manager.go\<close>, the
    \<^verbatim>\<open>pb_\<close> files, \<^verbatim>\<open>scram_client.go\<close> and \<^verbatim>\<open>iam_token_provider.go\<close>: connection settings, writing and
    fetching with schema-registry framing, the closing of a consumer with its channels, and the round
    trips of the payload formats. The login and TLS blocks of producer, consumer and manager are three
    groups of definitions, as the source writes them three times.
  \<^item> \<open>ConsumerGroup\<close>: the goroutines of a group consumer (\<^verbatim>\<open>ConsumeClaim\<close>, \<^verbatim>\<open>Fetch\<close>, \<^verbatim>\<open>Commit\<close>,
    \<^verbatim>\<open>Close\<close>, the listener with its shutdown, and the loop that joins the group again) as a step
    relation; invariants by rule induction, that the shutdown ends, and the runs in which the program
    stalls, skips a message, or crashes: when the consumer is closed, or at a rebalance.
  \<^item> \<open>Cells\<close>: \<^verbatim>\<open>core/nats.go\<close> and the accessors of \<^verbatim>\<open>core/server.go\<close>, one cell per NATS cluster.
  \<^item> \<open>Connector\<close>, \<open>ConnectorLaws\<close>: \<^verbatim>\<open>core/connector.go\<close>, the keys, headers, writer cache, message
    callbacks and listener: acknowledgement and commit only after delivery, counters, headers, and
    what goes wrong with colliding topics and lost connections.
  \<^item> \<open>Connectors\<close>: the six connector files of \<^verbatim>\<open>core\<close>; the contract of a connector is a locale,
    interpreted for each kind and for the dispatching methods. What the statistics call connected (\<open>up\<close>)
    is told apart from what works (\<open>works\<close>: up, with the subscription or the listener goroutine); a
    connector is \<open>stranded\<close> when it is up and its listener has returned.
  \<^item> \<open>Monitoring\<close>: \<^verbatim>\<open>core/monitoring.go\<close>.
  \<^item> \<open>Bridge\<close>, \<open>BridgeSteps\<close>, \<open>BridgeLaws\<close>: the rest of \<^verbatim>\<open>core/server.go\<close>, the handlers of \<^verbatim>\<open>core/nats.go\<close> and
    \<^verbatim>\<open>core/reconnecttimer.go\<close>. The state is the record \<open>bridge\<close>; the goroutines (handlers that have
    passed the running check, timers, passes, the parts of \<open>Stop\<close>, message traffic) are the step
    relation \<open>bridge_step\<close>, in which a listener may return on an error, and \<open>startup_step\<close> interleaves the
    start of the connectors with the timers armed meanwhile. \<open>BridgeSteps\<close> has the laws of the single
    operations; \<open>BridgeLaws\<close> shows that a connector works, or is queued, or is stranded, that a repair is
    always scheduled, and that a stranded connector is not restarted by the report of its listener.
  \<^item> \<open>Relay\<close>: two connectors in a row; a message that goes from NATS through Kafka back to NATS without
    schema registries keeps its payload, and its single-valued headers.
  \<^item> \<open>Lifecycle\<close>: what the bridge promises about its connectors as an abstract machine of serving,
    stopping and halted bridges with connectors that work, are stranded, are being repaired (queued,
    with the timer armed) or are down, and the proof that \<open>bridge_step\<close> refines it.
  \<^item> \<open>HealthyPass\<close>, \<open>Healing\<close>: in a world that answers again, after the next reconnect pass
    every connector works that was not stranded; that every running bridge has what the pass needs is an invariant, established by \<open>Start\<close>.
  \<^item> \<open>StopLaws\<close>: every reader of a reachable bridge is fully made and open, so neither the code of the
    handlers nor that of \<open>Stop\<close> panics in any reachable state; once \<open>Stop\<close> is over, nothing comes up again.
  \<^item> \<open>Program\<close>: flags and configuration file, and \<^verbatim>\<open>src/main.go\<close> with its signals.
  \<^item> \<open>Performance\<close>: the load generators under \<^verbatim>\<open>src/performance\<close>, which run a bridge, producers and
    consumers; two of them never start, and the third ends only for some numbers and chunk sizes.
  \<^item> \<open>MockRegistry\<close>, \<open>Logging\<close>: the schema registry of the tests, \<^verbatim>\<open>kafka/mock_schema_registry.go\<close>, and the
    logger, \<^verbatim>\<open>logging/nats.go\<close>.

  \<^bold>\<open>State and operations.\<close> A struct is a record with the source's field names behind a short prefix, a
  method is a definition with the source's name (with the type in front where several types have
  the method, as \<open>NATS2Kafka_Start\<close>), and the part of a method between two lock operations is a
  definition of its own when other goroutines may run in between (the phases of \<open>redialCell\<close>, the
  turns of the start loop, the parts of \<open>Stop\<close>). Locks do not
  appear: the step relations take what runs under one lock as one step, so nothing is said about
  deadlock; that the wait for a group's listener ends is shown in \<open>ConsumerGroup\<close>.

  \<^bold>\<open>Bounds.\<close> No definition needs fuel: each loop recurses on data that shrinks, with a measure where the
  recursion is not structural (the histogram's \<open>trim_loop\<close>, template replacement, the reflective
  parser, variable-length integers). Counters, offsets and durations are 64-bit words and wrap as in
  Go; Go's \<^verbatim>\<open>int\<close> is \<open>int\<close> in configuration values, whose range the parser enforces.

  \<^bold>\<open>Not modelled.\<close> The log messages of the components; the client libraries, the schema registry and the
  parser of the file syntax; the handlers of \<^verbatim>\<open>core/nats.go\<close> that only log; the wait groups and the
  timing of the load generators; the texts of errors that print dynamic values; data races (\<open>Stop\<close> clears the queue
  without the reconnect lock: clearing it is one step between two handlers, never within one). While
  \<open>Start\<close> runs, the start of one connector and a reconnect pass are each one step, though they hold
  different locks; they work on different connectors.
\<close>

end
